(* ===== verification/Prelude.thy ===== *)
theory Prelude
  imports
    Main
    "HOL-Library.Word"
    "HOL-Library.List_Lexorder"
    "HOL-Library.Char_ord"
    "HOL-Library.Sublist"
begin

text \<open>
  Shared vocabulary of the development: the machine integers, the result type of fallible
  Rust code (a value, a library error, or a panic), the \<open>?\<close> operator and the two loop
  shapes that use it, big-endian bytes, and the operations of \<open>str\<close> that the program uses.

  A Rust \<open>String\<close> is modelled by its UTF-8 bytes as a HOL \<open>string\<close> (a \<open>char\<close> of HOL is
  one byte); \<open>len()\<close> counts bytes in both, and \<open>Ord\<close> on strings is the bytewise
  lexicographic order in both.
\<close>

section \<open>Machine integers\<close>

type_synonym byte = "8 word"
type_synonym bytes = "8 word list"
type_synonym u8 = "8 word"
type_synonym u16 = "16 word"
type_synonym u32 = "32 word"
type_synonym u64 = "64 word"

lemma unat_byte_less: "unat (b :: byte) < 256"
  using unsigned_less [of b] by simp

text \<open>\<open>saturating_sub\<close> and \<open>saturating_add\<close> of \<open>u64\<close>.\<close>

definition sat_sub :: "u64 \<Rightarrow> u64 \<Rightarrow> u64" where
  "sat_sub a b = (if a < b then 0 else a - b)"

definition sat_add :: "u64 \<Rightarrow> u64 \<Rightarrow> u64" where
  "sat_add a b = (if unat a + unat b < 2 ^ 64 then a + b else 2 ^ 64 - 1)"

definition abs_diff :: "u64 \<Rightarrow> u64 \<Rightarrow> u64" where
  "abs_diff a b = (if a < b then b - a else a - b)"

lemma unat_sat_sub: "unat (sat_sub a b) = unat a - unat b"
  by (auto simp: sat_sub_def unat_sub_if' word_less_nat_alt)

lemma unat_sat_add: "unat (sat_add a b) = min (unat a + unat b) (2 ^ 64 - 1)"
  by (auto simp: sat_add_def unat_word_ariths min_def)

lemma unat_abs_diff: "unat (abs_diff a b) = (if unat a < unat b then unat b - unat a else unat a - unat b)"
  by (auto simp: abs_diff_def unat_sub_if' word_less_nat_alt)

lemma abs_diff_commute: "abs_diff a b = abs_diff b a"
  by (auto simp: abs_diff_def)

section \<open>Results\<close>

text \<open>
  The outcome of a Rust function returning \<open>Result<T, E>\<close>: a value, an error value, or a
  panic (a failed slice index, an allocation beyond \<open>isize::MAX\<close>), which unwinds through
  every caller.
\<close>

datatype ('e, 'a) res = Ok 'a | Err 'e | Panic

text \<open>The \<open>?\<close> operator: go on with the value, or return the error (or unwind).\<close>

primrec tryr :: "('e, 'a) res \<Rightarrow> ('a \<Rightarrow> ('e, 'b) res) \<Rightarrow> ('e, 'b) res" where
  "tryr (Ok x) f = f x"
| "tryr (Err e) f = Err e"
| "tryr Panic f = Panic"

definition is_ok :: "('e, 'a) res \<Rightarrow> bool" where
  "is_ok r = (case r of Ok _ \<Rightarrow> True | _ \<Rightarrow> False)"

lemma is_ok_simps [simp]: "is_ok (Ok x)" "\<not> is_ok (Err e)" "\<not> is_ok Panic"
  by (simp_all add: is_ok_def)

lemma is_ok_iff: "is_ok r \<longleftrightarrow> (\<exists>x. r = Ok x)"
  by (cases r) simp_all

lemma tryr_cong [fundef_cong]:
  "m = m' \<Longrightarrow> (\<And>x. m' = Ok x \<Longrightarrow> f x = f' x) \<Longrightarrow> tryr m f = tryr m' f'"
  by (cases m') simp_all

named_theorems res_iff \<open>when a composed result is a value, an error or a panic\<close>

lemma tryr_eq_Ok [res_iff]: "tryr m f = Ok y \<longleftrightarrow> (\<exists>x. m = Ok x \<and> f x = Ok y)"
  by (cases m) auto

lemma tryr_eq_Panic: "tryr m f = Panic \<longleftrightarrow> m = Panic \<or> (\<exists>x. m = Ok x \<and> f x = Panic)"
  by (cases m) auto

lemma tryr_eq_Err: "tryr m f = Err e \<longleftrightarrow> m = Err e \<or> (\<exists>x. m = Ok x \<and> f x = Err e)"
  by (cases m) auto

lemma tryr_OkE:
  assumes "tryr m f = Ok y"
  obtains x where "m = Ok x" "f x = Ok y"
  using assms by (auto simp: tryr_eq_Ok)

lemma tryr_assoc: "tryr (tryr m f) g = tryr m (\<lambda>x. tryr (f x) g)"
  by (cases m) simp_all

text \<open>\<open>for x in xs { ...? }\<close> over a mutable state, and the same loop run \<open>n\<close> times.\<close>

fun for_res :: "('a \<Rightarrow> 's \<Rightarrow> ('e, 's) res) \<Rightarrow> 'a list \<Rightarrow> 's \<Rightarrow> ('e, 's) res" where
  "for_res f [] s = Ok s"
| "for_res f (x # xs) s = tryr (f x s) (for_res f xs)"

fun repeat_res :: "('s \<Rightarrow> ('e, 's) res) \<Rightarrow> nat \<Rightarrow> 's \<Rightarrow> ('e, 's) res" where
  "repeat_res f 0 s = Ok s"
| "repeat_res f (Suc n) s = tryr (f s) (repeat_res f n)"

lemma repeat_res_numeral [simp]:
  "repeat_res f (numeral k) s = tryr (f s) (repeat_res f (pred_numeral k))"
  by (simp add: numeral_eq_Suc)

text \<open>\<open>for x in xs { out.push(f(x)?) }\<close>.\<close>

fun map_res :: "('a \<Rightarrow> ('e, 'b) res) \<Rightarrow> 'a list \<Rightarrow> ('e, 'b list) res" where
  "map_res f [] = Ok []"
| "map_res f (x # xs) = tryr (f x) (\<lambda>y. tryr (map_res f xs) (\<lambda>ys. Ok (y # ys)))"

lemma for_res_append: "for_res f (xs @ ys) s = tryr (for_res f xs s) (for_res f ys)"
proof (induction xs arbitrary: s)
  case (Cons x xs)
  then show ?case by (cases "f x s") simp_all
qed simp

lemma for_res_cong [fundef_cong]:
  "xs = ys \<Longrightarrow> s = t \<Longrightarrow> (\<And>x s. x \<in> set ys \<Longrightarrow> f x s = g x s) \<Longrightarrow> for_res f xs s = for_res g ys t"
proof (induction ys arbitrary: xs s t)
  case (Cons y ys)
  then show ?case by (auto intro!: tryr_cong)
qed simp

lemma for_res_inv:
  assumes "for_res f xs s = Ok t" "P s"
    and "\<And>x s t. x \<in> set xs \<Longrightarrow> P s \<Longrightarrow> f x s = Ok t \<Longrightarrow> P t"
  shows "P t"
  using assms
proof (induction xs arbitrary: s)
  case (Cons x xs)
  from Cons.prems(1) obtain u where u: "f x s = Ok u" "for_res f xs u = Ok t"
    by (auto elim: tryr_OkE)
  have "P u" by (rule Cons.prems(3) [OF _ Cons.prems(2) u(1)]) simp
  with u(2) Cons.prems(3) show ?case by (auto intro: Cons.IH)
qed simp

lemma repeat_res_inv:
  assumes "repeat_res f n s = Ok t" "P s" "\<And>s t. P s \<Longrightarrow> f s = Ok t \<Longrightarrow> P t"
  shows "P t"
  using assms(1,2)
proof (induction n arbitrary: s)
  case (Suc n)
  from Suc.prems(1) obtain u where "f s = Ok u" "repeat_res f n u = Ok t"
    by (auto elim: tryr_OkE)
  with Suc assms(3) show ?case by blast
qed simp

lemma map_res_Ok_iff: "map_res f xs = Ok ys \<longleftrightarrow> list_all2 (\<lambda>x y. f x = Ok y) xs ys"
proof (induction xs arbitrary: ys)
  case (Cons x xs)
  then show ?case by (cases ys) (auto simp: tryr_eq_Ok)
qed auto

text \<open>\<open>ok_or_else\<close>, and errors of a closure mapped by \<open>map_err\<close>.\<close>

definition ok_or :: "'e \<Rightarrow> 'a option \<Rightarrow> ('e, 'a) res" where
  "ok_or e x = (case x of None \<Rightarrow> Err e | Some y \<Rightarrow> Ok y)"

lemma ok_or_simps [simp]: "ok_or e None = Err e" "ok_or e (Some y) = Ok y"
  by (simp_all add: ok_or_def)

lemma ok_or_eq_Ok [res_iff]: "ok_or e x = Ok y \<longleftrightarrow> x = Some y"
  by (cases x) simp_all

lemma ok_or_not_Panic [simp]: "ok_or e x \<noteq> Panic"
  by (cases x) simp_all

fun map_err :: "('e \<Rightarrow> 'f) \<Rightarrow> ('e, 'a) res \<Rightarrow> ('f, 'a) res" where
  "map_err f (Ok x) = Ok x"
| "map_err f (Err e) = Err (f e)"
| "map_err f Panic = Panic"

lemma map_err_eq_Ok [res_iff]: "map_err f r = Ok x \<longleftrightarrow> r = Ok x"
  by (cases r) simp_all

section \<open>Big-endian bytes\<close>

text \<open>\<open>to_be_bytes\<close> of a \<open>k\<close>-byte integer, and the number a big-endian string denotes.\<close>

primrec be_of_nat :: "nat \<Rightarrow> nat \<Rightarrow> bytes" where
  "be_of_nat 0 n = []"
| "be_of_nat (Suc k) n = word_of_nat (n div 256 ^ k) # be_of_nat k n"

primrec nat_of_be :: "bytes \<Rightarrow> nat" where
  "nat_of_be [] = 0"
| "nat_of_be (b # bs) = unat b * 256 ^ length bs + nat_of_be bs"

lemma length_be_of_nat [simp]: "length (be_of_nat k n) = k"
  by (induction k) simp_all

lemma nat_of_be_less: "nat_of_be bs < 256 ^ length bs"
proof (induction bs)
  case (Cons b bs)
  have "unat b < 256" using unsigned_less [of b] by simp
  then have le: "(unat b + 1) * 256 ^ length bs \<le> 256 * 256 ^ length bs"
    by (intro mult_le_mono1) simp
  have "nat_of_be (b # bs) < unat b * 256 ^ length bs + 256 ^ length bs"
    using Cons by simp
  also have "\<dots> = (unat b + 1) * 256 ^ length bs" by (simp add: algebra_simps)
  also note le
  finally show ?case by simp
qed simp

lemma nat_of_be_of_nat: "nat_of_be (be_of_nat k n) = n mod 256 ^ k"
proof (induction k)
  case (Suc k)
  have "unat (word_of_nat (n div 256 ^ k) :: byte) = n div 256 ^ k mod 256"
    by (simp add: unsigned_of_nat take_bit_eq_mod)
  moreover have "n mod 256 ^ Suc k = n div 256 ^ k mod 256 * 256 ^ k + n mod 256 ^ k"
    using mod_mult2_eq [of n "256 ^ k" 256] by (simp add: mult.commute)
  ultimately show ?case using Suc by simp
qed (simp add: )

lemma be_of_nat_mod: "j \<le> k \<Longrightarrow> be_of_nat j (n mod 256 ^ k) = be_of_nat j n"
proof (induction j)
  case (Suc j)
  have eq: "256 ^ k = (256 ^ j * 256 ^ (k - j) :: nat)"
    using Suc.prems by (simp add: power_add [symmetric])
  have "n mod 256 ^ k div 256 ^ j = n div 256 ^ j mod 256 ^ (k - j)"
    by (simp only: eq mod_mult2_eq) simp
  moreover have "(word_of_nat (n div 256 ^ j mod 256 ^ (k - j)) :: byte) = word_of_nat (n div 256 ^ j)"
  proof -
    have "256 dvd (256 ^ (k - j) :: nat)" using Suc.prems by simp
    then have "n div 256 ^ j mod 256 ^ (k - j) mod 256 = n div 256 ^ j mod 256"
      by (rule mod_mod_cancel)
    then show ?thesis by (simp add: word_of_nat_eq_iff take_bit_eq_mod)
  qed
  ultimately show ?case using Suc by simp
qed simp

lemma be_of_nat_of_be: "be_of_nat (length bs) (nat_of_be bs) = bs"
proof (induction bs)
  case (Cons b bs)
  have lt: "nat_of_be bs < 256 ^ length bs" by (rule nat_of_be_less)
  have "be_of_nat (length bs) (nat_of_be (b # bs)) =
      be_of_nat (length bs) (nat_of_be (b # bs) mod 256 ^ length bs)"
    by (simp only: be_of_nat_mod [OF order_refl])
  also have "nat_of_be (b # bs) mod 256 ^ length bs = nat_of_be bs" using lt by simp
  finally show ?case using lt Cons.IH by simp
qed simp

section \<open>Strings as UTF-8 bytes\<close>

definition byte_of_char :: "char \<Rightarrow> byte" where
  "byte_of_char c = word_of_nat (of_char c)"

definition char_of_byte :: "byte \<Rightarrow> char" where
  "char_of_byte b = char_of (unat b)"

text \<open>\<open>as_bytes\<close> of a string, and the string of valid UTF-8 bytes.\<close>

definition as_bytes :: "string \<Rightarrow> bytes" where
  "as_bytes s = map byte_of_char s"

definition str_of_bytes :: "bytes \<Rightarrow> string" where
  "str_of_bytes bs = map char_of_byte bs"

lemma of_char_less: "of_char c < (256 :: nat)"
  by (rule nat_of_char_less_256)

lemma char_of_byte_of_char [simp]: "char_of_byte (byte_of_char c) = c"
proof -
  have "of_char c < (256::nat)" by (rule of_char_less)
  then show ?thesis
    by (simp add: char_of_byte_def byte_of_char_def unsigned_of_nat take_bit_eq_mod)
qed

lemma byte_of_char_of_byte [simp]: "byte_of_char (char_of_byte b) = b"
proof -
  have "unat b < 256" using unsigned_less [of b] by simp
  then show ?thesis by (simp add: char_of_byte_def byte_of_char_def)
qed

lemma str_of_as_bytes [simp]: "str_of_bytes (as_bytes s) = s"
  by (simp add: str_of_bytes_def as_bytes_def comp_def)

lemma as_bytes_str_of [simp]: "as_bytes (str_of_bytes bs) = bs"
  by (simp add: str_of_bytes_def as_bytes_def comp_def)

lemma length_as_bytes [simp]: "length (as_bytes s) = length s"
  by (simp add: as_bytes_def)

lemma length_str_of_bytes [simp]: "length (str_of_bytes bs) = length bs"
  by (simp add: str_of_bytes_def)

lemma as_bytes_eq_iff [simp]: "as_bytes s = as_bytes t \<longleftrightarrow> s = t"
  by (metis str_of_as_bytes)

lemma as_bytes_append [simp]: "as_bytes (s @ t) = as_bytes s @ as_bytes t"
  by (simp add: as_bytes_def)

text \<open>
  \<open>std::str::from_utf8\<close>: the well-formed byte sequences of the Unicode standard (no overlong
  forms, no surrogates, nothing past U+10FFFF).
\<close>

definition cont_byte :: "nat \<Rightarrow> bool" where
  "cont_byte b \<longleftrightarrow> 128 \<le> b \<and> b \<le> 191"

fun utf8_ok :: "nat list \<Rightarrow> bool" where
  "utf8_ok [] = True"
| "utf8_ok (a # xs) =
    (if a < 128 then utf8_ok xs
     else if 194 \<le> a \<and> a \<le> 223 then
       (case xs of b # ys \<Rightarrow> cont_byte b \<and> utf8_ok ys | _ \<Rightarrow> False)
     else if 224 \<le> a \<and> a \<le> 239 then
       (case xs of b # c # ys \<Rightarrow>
          (if a = 224 then 160 \<le> b \<and> b \<le> 191
           else if a = 237 then 128 \<le> b \<and> b \<le> 159
           else cont_byte b) \<and> cont_byte c \<and> utf8_ok ys
        | _ \<Rightarrow> False)
     else if 240 \<le> a \<and> a \<le> 244 then
       (case xs of b # c # d # ys \<Rightarrow>
          (if a = 240 then 144 \<le> b \<and> b \<le> 191
           else if a = 244 then 128 \<le> b \<and> b \<le> 143
           else cont_byte b) \<and> cont_byte c \<and> cont_byte d \<and> utf8_ok ys
        | _ \<Rightarrow> False)
     else False)"

definition from_utf8 :: "bytes \<Rightarrow> string option" where
  "from_utf8 bs = (if utf8_ok (map unat bs) then Some (str_of_bytes bs) else None)"

text \<open>The invariant of the type \<open>String\<close>.\<close>

definition utf8_str :: "string \<Rightarrow> bool" where
  "utf8_str s \<longleftrightarrow> utf8_ok (map of_char s)"

lemma unat_byte_of_char: "unat (byte_of_char c) = of_char c"
proof -
  have "of_char c < (256::nat)" by (rule of_char_less)
  then show ?thesis by (simp add: byte_of_char_def unsigned_of_nat take_bit_eq_mod)
qed

lemma of_char_char_of_byte [simp]: "of_char (char_of_byte b) = unat b"
  by (metis byte_of_char_of_byte unat_byte_of_char)

lemma from_utf8_as_bytes: "utf8_str s \<Longrightarrow> from_utf8 (as_bytes s) = Some s"
  by (simp add: from_utf8_def utf8_str_def as_bytes_def comp_def unat_byte_of_char str_of_bytes_def)

lemma from_utf8_SomeD: "from_utf8 bs = Some s \<Longrightarrow> utf8_str s \<and> as_bytes s = bs"
  by (auto simp: from_utf8_def utf8_str_def str_of_bytes_def as_bytes_def comp_def split: if_splits)

lemma utf8_ok_ascii: "list_all (\<lambda>a. a < 128) xs \<Longrightarrow> utf8_ok xs"
  by (induction xs) simp_all

section \<open>The operations of \<open>str\<close> the program uses\<close>

definition is_digit :: "char \<Rightarrow> bool" where
  "is_digit c \<longleftrightarrow> (let n = (of_char c :: nat) in 48 \<le> n \<and> n \<le> 57)"

definition is_alpha :: "char \<Rightarrow> bool" where
  "is_alpha c \<longleftrightarrow> (let n = (of_char c :: nat) in 65 \<le> n \<and> n \<le> 90 \<or> 97 \<le> n \<and> n \<le> 122)"

definition is_hexdigit :: "char \<Rightarrow> bool" where
  "is_hexdigit c \<longleftrightarrow> (let n = (of_char c :: nat) in
     48 \<le> n \<and> n \<le> 57 \<or> 65 \<le> n \<and> n \<le> 70 \<or> 97 \<le> n \<and> n \<le> 102)"

definition to_lower :: "char \<Rightarrow> char" where
  "to_lower c = (let n = (of_char c :: nat) in if 65 \<le> n \<and> n \<le> 90 then char_of (n + 32) else c)"

definition ascii_lower :: "string \<Rightarrow> string" where
  "ascii_lower s = map to_lower s"

definition eq_ignore_case :: "string \<Rightarrow> string \<Rightarrow> bool" where
  "eq_ignore_case s t \<longleftrightarrow> ascii_lower s = ascii_lower t"

text \<open>The UTF-8 encodings of the characters with the property White\_Space.\<close>

definition ws_seqs :: "string list" where
  "ws_seqs = map (map char_of)
     ([[9], [10], [11], [12], [13], [32], [194, 133], [194, 160], [225, 154, 128],
       [226, 128, 168], [226, 128, 169], [226, 128, 175], [226, 129, 159], [227, 128, 128],
       [226, 128, 128], [226, 128, 129], [226, 128, 130], [226, 128, 131], [226, 128, 132],
       [226, 128, 133], [226, 128, 134], [226, 128, 135], [226, 128, 136], [226, 128, 137],
       [226, 128, 138]] :: nat list list)"

definition find_prefix :: "string list \<Rightarrow> string \<Rightarrow> string option" where
  "find_prefix ws s = find (\<lambda>w. w \<noteq> [] \<and> take (length w) s = w) ws"

lemma find_prefix_SomeD:
  "find_prefix ws s = Some w \<Longrightarrow> w \<in> set ws \<and> w \<noteq> [] \<and> (\<exists>t. s = w @ t)"
  by (auto simp: find_prefix_def find_Some_iff) (metis append_take_drop_id)

function strip_prefixes :: "string list \<Rightarrow> string \<Rightarrow> string" where
  "strip_prefixes ws s =
     (case find_prefix ws s of None \<Rightarrow> s | Some w \<Rightarrow> strip_prefixes ws (drop (length w) s))"
  by pat_completeness auto
termination
  by (relation "measure (\<lambda>(ws, s). length s)") (auto dest: find_prefix_SomeD)

declare strip_prefixes.simps [simp del]

definition str_trim_start :: "string \<Rightarrow> string" where
  "str_trim_start s = strip_prefixes ws_seqs s"

definition str_trim_end :: "string \<Rightarrow> string" where
  "str_trim_end s = rev (strip_prefixes (map rev ws_seqs) (rev s))"

definition str_trim :: "string \<Rightarrow> string" where
  "str_trim s = str_trim_end (str_trim_start s)"

lemma strip_prefixes_id: "find_prefix ws s = None \<Longrightarrow> strip_prefixes ws s = s"
  by (simp add: strip_prefixes.simps)

lemma find_prefix_None_hd:
  "(\<And>w. w \<in> set ws \<Longrightarrow> w \<noteq> [] \<Longrightarrow> hd w \<noteq> c) \<Longrightarrow> find_prefix ws (c # s) = None"
  by (auto simp: find_prefix_def find_None_iff neq_Nil_conv) (metis list.sel(1) list.distinct(1))

lemma find_prefix_Nil [simp]: "find_prefix ws [] = None"
  by (auto simp: find_prefix_def find_None_iff)

text \<open>A string that starts and ends with graphic ASCII characters is left alone by \<open>trim\<close>.\<close>

definition graphic :: "char \<Rightarrow> bool" where
  "graphic c \<longleftrightarrow> 33 \<le> (of_char c :: nat) \<and> (of_char c :: nat) \<le> 126"

lemma ws_hd_not_graphic: "w \<in> set ws_seqs \<Longrightarrow> \<not> graphic (hd w)"
  by (auto simp: ws_seqs_def graphic_def)

lemma ws_last_not_graphic: "w \<in> set ws_seqs \<Longrightarrow> \<not> graphic (hd (rev w))"
  by (auto simp: ws_seqs_def graphic_def)

lemma trim_graphic:
  assumes "s \<noteq> []" "graphic (hd s)" "graphic (last s)"
  shows "str_trim s = s"
proof -
  have "find_prefix ws_seqs s = None"
    using assms(1,2) find_prefix_None_hd [of ws_seqs "hd s" "tl s"] ws_hd_not_graphic
    by (metis list.collapse)
  then have start: "str_trim_start s = s"
    by (simp add: str_trim_start_def strip_prefixes_id)
  have "find_prefix (map rev ws_seqs) (last s # tl (rev s)) = None"
    by (rule find_prefix_None_hd) (use assms(3) ws_last_not_graphic in fastforce)
  moreover have "last s # tl (rev s) = rev s"
    using assms(1) by (metis hd_rev list.collapse rev_is_Nil_conv)
  ultimately show ?thesis
    by (simp add: str_trim_def start str_trim_end_def strip_prefixes_id)
qed

lemma trim_all_graphic: "list_all graphic s \<Longrightarrow> str_trim s = s"
proof (cases "s = []")
  case True
  then show ?thesis
    by (simp add: str_trim_def str_trim_start_def str_trim_end_def strip_prefixes_id)
next
  case False
  assume "list_all graphic s"
  with False show ?thesis
    by (intro trim_graphic) (auto simp: list_all_iff)
qed

lemma hexdigit_graphic: "is_hexdigit c \<Longrightarrow> graphic c"
  by (auto simp: is_hexdigit_def graphic_def Let_def)

lemma trim_hex: "list_all is_hexdigit s \<Longrightarrow> str_trim s = s"
  by (rule trim_all_graphic) (auto simp: list_all_iff hexdigit_graphic)

text \<open>\<open>split(c)\<close>: the segments between the separators, at least one.\<close>

fun split_on :: "char \<Rightarrow> string \<Rightarrow> string list" where
  "split_on c [] = [[]]"
| "split_on c (x # xs) =
     (if x = c then [] # split_on c xs
      else (case split_on c xs of [] \<Rightarrow> [[x]] | s # ss \<Rightarrow> (x # s) # ss))"

fun join_with :: "string \<Rightarrow> string list \<Rightarrow> string" where
  "join_with sep [] = []"
| "join_with sep [s] = s"
| "join_with sep (s # t # ts) = s @ sep @ join_with sep (t # ts)"

lemma split_on_not_Nil [simp]: "split_on c s \<noteq> []"
  by (induction s) (auto split: list.splits)

lemma split_on_no_sep: "t \<in> set (split_on c s) \<Longrightarrow> c \<notin> set t"
proof (induction s arbitrary: t)
  case (Cons x xs)
  then show ?case by (cases "split_on c xs") (auto split: if_splits)
qed simp

lemma join_split: "join_with [c] (split_on c s) = s"
proof (induction s)
  case (Cons x xs)
  obtain t ts where ts: "split_on c xs = t # ts" by (cases "split_on c xs") auto
  with Cons show ?case by (cases ts) auto
qed simp

lemma split_on_append_sep: "split_on c (s @ c # t) = split_on c s @ split_on c t"
proof (induction s)
  case (Cons x xs)
  then show ?case by (cases "split_on c xs") auto
qed simp

lemma split_on_no_sep_single: "c \<notin> set s \<Longrightarrow> split_on c s = [s]"
  by (induction s) auto

text \<open>
  \<open>str::lines\<close>: lines end in a newline, a carriage return right before that newline is
  dropped, and a last line without a newline is kept as it is, unless it is empty.
\<close>

definition chomp_cr :: "string \<Rightarrow> string" where
  "chomp_cr l = (if l \<noteq> [] \<and> last l = CHR 0x0D then butlast l else l)"

definition str_lines :: "string \<Rightarrow> string list" where
  "str_lines s = (let ls = split_on (CHR 0x0A) s
                  in map chomp_cr (butlast ls) @ (if last ls = [] then [] else [last ls]))"

text \<open>Decimal numbers, as \<open>Display\<close> prints them.\<close>

fun dec_string :: "nat \<Rightarrow> string" where
  "dec_string n = (if n < 10 then [char_of (48 + n)] else dec_string (n div 10) @ [char_of (48 + n mod 10)])"

declare dec_string.simps [simp del]

definition ends_with :: "string \<Rightarrow> string \<Rightarrow> bool" where
  "ends_with s t \<longleftrightarrow> length t \<le> length s \<and> drop (length s - length t) s = t"

definition starts_with :: "string \<Rightarrow> string \<Rightarrow> bool" where
  "starts_with s t \<longleftrightarrow> take (length t) s = t"

end
