(* ===== verification/OrdMap.thy ===== *)
theory OrdMap
  imports Prelude
begin

text \<open>
  The ordered containers of the standard library that the program keeps its state in:
  \<open>BTreeMap\<close> as the list of its entries in ascending key order, \<open>BTreeSet\<close> as the
  ascending list of its elements. The interface its clients rely on is the locale
  \<open>ordered_map\<close>; it is interpreted on the sorted association lists of the model.
  A directory of files is such a map too, from the file's key to its bytes, and listing the
  directory visits it in ascending order.
\<close>

section \<open>Maps\<close>

type_synonym ('k, 'v) omap = "('k \<times> 'v) list"

abbreviation om_get :: "('k, 'v) omap \<Rightarrow> 'k \<Rightarrow> 'v option" where
  "om_get m k \<equiv> map_of m k"

fun om_insert :: "'k::linorder \<Rightarrow> 'v \<Rightarrow> ('k, 'v) omap \<Rightarrow> ('k, 'v) omap" where
  "om_insert k v [] = [(k, v)]"
| "om_insert k v ((k', v') # m) =
     (if k < k' then (k, v) # (k', v') # m
      else if k = k' then (k, v) # m
      else (k', v') # om_insert k v m)"

definition om_delete :: "'k \<Rightarrow> ('k, 'v) omap \<Rightarrow> ('k, 'v) omap" where
  "om_delete k m = filter (\<lambda>(k', v). k' \<noteq> k) m"

definition om_keys :: "('k, 'v) omap \<Rightarrow> 'k list" where
  "om_keys m = map fst m"

definition om_mem :: "('k, 'v) omap \<Rightarrow> 'k \<Rightarrow> bool" where
  "om_mem m k \<longleftrightarrow> map_of m k \<noteq> None"

definition om_wf :: "('k::linorder, 'v) omap \<Rightarrow> bool" where
  "om_wf m \<longleftrightarrow> sorted_wrt (<) (map fst m)"

lemma om_get_insert: "om_get (om_insert k v m) = (om_get m)(k \<mapsto> v)"
  by (induction k v m rule: om_insert.induct) (auto simp: fun_eq_iff)

lemma om_get_delete: "om_get (om_delete k m) = (om_get m)(k := None)"
  unfolding om_delete_def by (induction m) (auto simp: fun_eq_iff)

lemma set_fst_om_insert: "fst ` set (om_insert k v m) = insert k (fst ` set m)"
  by (induction k v m rule: om_insert.induct) auto

lemma om_wf_Nil [simp]: "om_wf []"
  by (simp add: om_wf_def)

lemma om_wf_insert: "om_wf m \<Longrightarrow> om_wf (om_insert k v m)"
proof (induction k v m rule: om_insert.induct)
  case (2 k v k' v' m)
  have "fst ` set (om_insert k v m) = insert k (fst ` set m)" by (rule set_fst_om_insert)
  with 2 show ?case by (auto simp: om_wf_def not_less_iff_gr_or_eq)
qed (simp add: om_wf_def)

lemma om_wf_delete: "om_wf m \<Longrightarrow> om_wf (om_delete k m)"
  unfolding om_wf_def om_delete_def by (induction m) auto

lemma om_wf_distinct: "om_wf m \<Longrightarrow> distinct (map fst m)"
  by (simp add: om_wf_def strict_sorted_iff)

lemma om_mem_iff: "om_mem m k \<longleftrightarrow> k \<in> fst ` set m"
  by (simp add: om_mem_def map_of_eq_None_iff)

lemma set_om_keys: "set (om_keys m) = {k. om_mem m k}"
  by (auto simp: om_keys_def om_mem_iff)

lemma om_insert_snoc:
  "\<forall>k'\<in>set (map fst m). k' < k \<Longrightarrow> om_insert k v m = m @ [(k, v)]"
proof (induction k v m rule: om_insert.induct)
  case (2 k v k' v' m)
  then show ?case by (auto simp: not_less_iff_gr_or_eq)
qed simp

lemma set_om_insert: "om_wf m \<Longrightarrow> set (om_insert k v m) = insert (k, v) {p \<in> set m. fst p \<noteq> k}"
proof (induction k v m rule: om_insert.induct)
  case (2 k v k' v' m)
  then show ?case by (auto simp: om_wf_def)
qed simp

lemma om_mem_insert: "om_mem (om_insert k v m) k' \<longleftrightarrow> k' = k \<or> om_mem m k'"
  by (simp add: om_mem_def om_get_insert)

lemma om_get_mem: "om_wf m \<Longrightarrow> om_get m k = Some v \<longleftrightarrow> (k, v) \<in> set m"
  by (simp add: om_wf_distinct)

section \<open>The interface of an ordered map\<close>

locale ordered_map =
  fixes get :: "'m \<Rightarrow> 'k::linorder \<Rightarrow> 'v option"
    and ins :: "'k \<Rightarrow> 'v \<Rightarrow> 'm \<Rightarrow> 'm"
    and items :: "'m \<Rightarrow> ('k \<times> 'v) list"
    and wf :: "'m \<Rightarrow> bool"
  assumes get_ins: "wf m \<Longrightarrow> get (ins k v m) = (get m)(k \<mapsto> v)"
    and wf_ins: "wf m \<Longrightarrow> wf (ins k v m)"
    and items_sorted: "wf m \<Longrightarrow> sorted_wrt (<) (map fst (items m))"
    and get_items: "wf m \<Longrightarrow> get m k = map_of (items m) k"
begin

lemma wf_ins_all: "wf m \<Longrightarrow> wf (fold (\<lambda>(k, v). ins k v) kvs m)"
  by (induction kvs arbitrary: m) (auto simp: wf_ins)

text \<open>Inserting a list of entries: the last entry of a key wins, other keys keep theirs.\<close>

lemma get_ins_all:
  "wf m \<Longrightarrow> get (fold (\<lambda>(k, v). ins k v) kvs m) = get m ++ map_of (rev kvs)"
proof (induction kvs arbitrary: m)
  case (Cons p kvs)
  obtain k v where p: "p = (k, v)" by (cases p)
  have "get (fold (\<lambda>(k, v). ins k v) kvs (ins k v m)) = get (ins k v m) ++ map_of (rev kvs)"
    by (rule Cons.IH) (rule wf_ins [OF Cons.prems])
  with p get_ins [OF Cons.prems] show ?case by (auto simp: map_add_def map_of_append fun_eq_iff split: option.splits)
qed simp

lemma get_Some_iff: "wf m \<Longrightarrow> get m k = Some v \<longleftrightarrow> (k, v) \<in> set (items m)"
  using items_sorted [of m] by (simp add: get_items strict_sorted_iff)

lemma items_mem: "wf m \<Longrightarrow> k \<in> fst ` set (items m) \<longleftrightarrow> get m k \<noteq> None"
  by (simp add: get_items map_of_eq_None_iff)

text \<open>Two maps with the same lookups list the same entries.\<close>

lemma items_eqI:
  assumes "wf m" "wf m'" "\<And>k. get m k = get m' k"
  shows "items m = items m'"
proof (rule map_sorted_distinct_set_unique [where f = fst])
  have eq: "set (items m) = set (items m')"
    using assms get_Some_iff by (metis (no_types, opaque_lifting) subrelI subset_antisym)
  have d: "distinct (map fst (items m))" "distinct (map fst (items m'))"
    using assms items_sorted by (auto simp: strict_sorted_iff)
  show "inj_on fst (set (items m) \<union> set (items m'))"
    using eq d(1) by (simp add: distinct_map)
  show "sorted (map fst (items m))" "distinct (map fst (items m))"
    "sorted (map fst (items m'))" "distinct (map fst (items m'))" "set (items m) = set (items m')"
    using assms items_sorted eq d by (auto simp: strict_sorted_iff)
qed

end

interpretation om: ordered_map om_get om_insert "\<lambda>m. m" om_wf
  using om_wf_def by unfold_locales (blast intro: om_get_insert om_wf_insert)+

section \<open>Sets\<close>

type_synonym 'a oset = "'a list"

fun os_insert :: "'a::linorder \<Rightarrow> 'a oset \<Rightarrow> 'a oset" where
  "os_insert x [] = [x]"
| "os_insert x (y # ys) =
     (if x < y then x # y # ys else if x = y then y # ys else y # os_insert x ys)"

definition os_wf :: "'a::linorder oset \<Rightarrow> bool" where
  "os_wf s \<longleftrightarrow> sorted_wrt (<) s"

definition os_of_list :: "'a::linorder list \<Rightarrow> 'a oset" where
  "os_of_list xs = fold os_insert xs []"

lemma set_os_insert [simp]: "set (os_insert x s) = insert x (set s)"
  by (induction s) auto

lemma os_wf_Nil [simp]: "os_wf []"
  by (simp add: os_wf_def)

lemma os_wf_single [simp]: "os_wf [x]"
  by (simp add: os_wf_def)

lemma os_wf_insert [simp]: "os_wf s \<Longrightarrow> os_wf (os_insert x s)"
  by (induction s) (auto simp: os_wf_def not_less_iff_gr_or_eq)

lemma os_insert_absorb: "os_wf s \<Longrightarrow> x \<in> set s \<Longrightarrow> os_insert x s = s"
  by (induction s) (auto simp: os_wf_def)

lemma os_insert_not_Nil [simp]: "os_insert x s \<noteq> []"
  by (cases s) auto

lemma os_wf_distinct: "os_wf s \<Longrightarrow> distinct s"
  by (simp add: os_wf_def strict_sorted_iff)

lemma os_wf_fold: "os_wf s \<Longrightarrow> os_wf (fold os_insert xs s)"
  by (induction xs arbitrary: s) simp_all

lemma set_os_fold: "set (fold os_insert xs s) = set xs \<union> set s"
  by (induction xs arbitrary: s) auto

lemma os_wf_of_list [simp]: "os_wf (os_of_list xs)"
  by (simp add: os_of_list_def os_wf_fold)

lemma set_os_of_list [simp]: "set (os_of_list xs) = set xs"
  by (simp add: os_of_list_def set_os_fold)

lemma os_eqI: "os_wf s \<Longrightarrow> os_wf t \<Longrightarrow> set s = set t \<Longrightarrow> s = t"
  by (simp add: os_wf_def strict_sorted_equal)

lemma os_of_list_id: "os_wf s \<Longrightarrow> os_of_list s = s"
  by (rule os_eqI) simp_all

end
