(* ===== verification/Core.thy ===== *)
theory Core
  imports OrdMap
begin

text \<open>
  The data model (\<open>src/src/lib.rs\<close>, and the structs of \<open>tree.rs\<close>, \<open>commit.rs\<close> and
  \<open>vault.rs\<close> that third-party code serialises): content hashes, library errors, trees,
  commits, the vault configuration. The third-party functions the program calls (BLAKE3, the
  hex codec, XChaCha20-Poly1305, Argon2, ed25519, FastCDC, serde\_json) are the fields of the
  record \<open>ext\<close>, an argument of every definition that uses one; their documented behaviour is
  stated by the predicates at the end of this theory and is a named hypothesis wherever it is
  needed.
\<close>

section \<open>Errors\<close>

datatype soal_error =
    Io string
  | Serde
  | Crypto string
  | InvalidHash
  | HashMismatch (expected: string) (actual: string)
  | VaultNotFound string
  | ChunkNotFound string
  | CommitNotFound string
  | TreeNotFound string
  | CidCollision (collided: string)
  | InvalidPath string
  | Verify string
  | Other string

text \<open>\<open>Display\<close> of an error, as \<open>thiserror\<close> derives it; a JSON error prints by its library.\<close>

fun error_text :: "soal_error \<Rightarrow> string" where
  "error_text (Io e) = ''IO error: '' @ e"
| "error_text Serde = ''Serialization error: ''"
| "error_text (Crypto e) = ''Crypto error: '' @ e"
| "error_text InvalidHash = ''Invalid hash''"
| "error_text (HashMismatch e a) = ''Hash mismatch: expected '' @ e @ '', got '' @ a"
| "error_text (VaultNotFound e) = ''Vault not found: '' @ e"
| "error_text (ChunkNotFound e) = ''Chunk not found: '' @ e"
| "error_text (CommitNotFound e) = ''Commit not found: '' @ e"
| "error_text (TreeNotFound e) = ''Tree not found: '' @ e"
| "error_text (CidCollision h) = ''CID collision: existing blob under '' @ h @ '' has different bytes''"
| "error_text (InvalidPath e) = ''Invalid path: '' @ e"
| "error_text (Verify e) = ''Verification failed: '' @ e"
| "error_text (Other e) = e"

type_synonym 'a result = "(soal_error, 'a) res"

section \<open>Content hashes\<close>

text \<open>\<open>ContentHash([u8; 32])\<close> with its derived order; the length is an invariant of the type.\<close>

datatype content_hash = CH (hash_bytes: bytes)

instantiation content_hash :: linorder
begin

definition less_eq_content_hash :: "content_hash \<Rightarrow> content_hash \<Rightarrow> bool" where
  "less_eq_content_hash a b \<longleftrightarrow> hash_bytes a \<le> hash_bytes b"

definition less_content_hash :: "content_hash \<Rightarrow> content_hash \<Rightarrow> bool" where
  "less_content_hash a b \<longleftrightarrow> hash_bytes a < hash_bytes b"

instance
  by standard (auto simp: less_eq_content_hash_def less_content_hash_def content_hash.expand)

end

definition wf_hash :: "content_hash \<Rightarrow> bool" where
  "wf_hash h \<longleftrightarrow> length (hash_bytes h) = 32"

section \<open>Trees, commits and the vault configuration\<close>

datatype tree_entry =
    File (te_size: u64) (te_chunks: "content_hash list")
  | Dir (te_hash: content_hash)

record tree =
  entries :: "(string, tree_entry) omap"

record commit =
  c_tree :: content_hash
  c_parents :: "content_hash list"
  c_author :: string
  c_timestamp :: u64
  c_message :: string
  c_protocol_version :: u16
  c_signature :: "string option"

record vault_config =
  vc_name :: string
  vc_encryption_enabled :: bool
  vc_min_replicas :: u8
  vc_created_at :: u64
  vc_vault_id :: string
  vc_config_seq :: u64
  vc_members :: "string list"
  vc_owner :: "string option"
  vc_config_sig :: "string option"
  vc_key_wrapped :: bool
  vc_key_hex :: "string option"

section \<open>Third-party functions\<close>

record ext =
  x_blake3 :: "bytes \<Rightarrow> bytes"
  x_hex_enc :: "bytes \<Rightarrow> string"
  x_hex_dec :: "string \<Rightarrow> bytes option"
  x_seal :: "bytes \<Rightarrow> bytes \<Rightarrow> bytes \<Rightarrow> bytes \<Rightarrow> bytes option" \<comment> \<open>key, nonce, associated data, message\<close>
  x_open :: "bytes \<Rightarrow> bytes \<Rightarrow> bytes \<Rightarrow> bytes \<Rightarrow> bytes option" \<comment> \<open>key, nonce, associated data, ciphertext\<close>
  x_argon2 :: "string \<Rightarrow> bytes \<Rightarrow> u32 \<Rightarrow> u32 \<Rightarrow> u32 \<Rightarrow> bytes option"
  x_public :: "bytes \<Rightarrow> bytes" \<comment> \<open>public key of a secret key\<close>
  x_pk_display :: "bytes \<Rightarrow> string"
  x_pk_parse :: "string \<Rightarrow> bytes option"
  x_pk_valid :: "bytes \<Rightarrow> bool" \<comment> \<open>\<open>PublicKey::from_bytes\<close> succeeds\<close>
  x_sign :: "bytes \<Rightarrow> bytes \<Rightarrow> bytes"
  x_verify :: "bytes \<Rightarrow> bytes \<Rightarrow> bytes \<Rightarrow> bool" \<comment> \<open>public key, message, signature\<close>
  x_fastcdc :: "bytes \<Rightarrow> u32 \<Rightarrow> u32 \<Rightarrow> u32 \<Rightarrow> (nat \<times> nat) list" \<comment> \<open>offset and length of each cut\<close>
  x_tree_json :: "tree \<Rightarrow> bytes option" \<comment> \<open>\<open>serde_json::to_vec\<close>\<close>
  x_tree_of_json :: "bytes \<Rightarrow> tree option"
  x_legacy_json ::
    "content_hash \<times> content_hash list \<times> string \<times> u64 \<times> string \<Rightarrow> bytes option"
  x_commit_of_json :: "bytes \<Rightarrow> commit option"
  x_config_json ::
    "u64 \<times> u64 \<times> bool \<times> bool \<times> string list \<times> u8 \<times> string \<times> string option \<times> string
      \<Rightarrow> bytes option" \<comment> \<open>the signed fields, in the order of their names\<close>

section \<open>Operations of \<open>ContentHash\<close>\<close>

definition hash_of :: "ext \<Rightarrow> bytes \<Rightarrow> content_hash" where
  "hash_of X data = CH (x_blake3 X data)"

definition zero_hash :: content_hash where
  "zero_hash = CH (replicate 32 0)"

definition to_hex :: "ext \<Rightarrow> content_hash \<Rightarrow> string" where
  "to_hex X h = x_hex_enc X (hash_bytes h)"

definition from_hex :: "ext \<Rightarrow> string \<Rightarrow> content_hash result" where
  "from_hex X s0 =
     (let s = str_trim s0 in
      if length s \<noteq> 64 \<or> \<not> list_all is_hexdigit s then Err InvalidHash
      else case x_hex_dec X s of
             None \<Rightarrow> Err InvalidHash
           | Some bs \<Rightarrow> if length bs \<noteq> 32 then Err InvalidHash else Ok (CH bs))"

definition hash_mismatch :: "ext \<Rightarrow> content_hash \<Rightarrow> content_hash \<Rightarrow> soal_error" where
  "hash_mismatch X e a = HashMismatch (to_hex X e) (to_hex X a)"

section \<open>Documented behaviour of the third-party functions\<close>

text \<open>
  BLAKE3 returns 32 bytes. \<open>hex::encode\<close> writes two lower-case digits per byte,
  \<open>hex::decode\<close> reads an even number of digits of either case and nothing else.
\<close>

definition hash_law :: "ext \<Rightarrow> bool" where
  "hash_law X \<longleftrightarrow> (\<forall>bs. length (x_blake3 X bs) = 32)"

definition hex_law :: "ext \<Rightarrow> bool" where
  "hex_law X \<longleftrightarrow>
     (\<forall>bs. length (x_hex_enc X bs) = 2 * length bs
         \<and> list_all is_hexdigit (x_hex_enc X bs)
         \<and> ascii_lower (x_hex_enc X bs) = x_hex_enc X bs)
   \<and> (\<forall>s bs. x_hex_dec X s = Some bs \<longleftrightarrow> list_all is_hexdigit s \<and> x_hex_enc X bs = ascii_lower s)"

lemma hash_lawD [simp]: "hash_law X \<Longrightarrow> length (x_blake3 X bs) = 32"
  by (simp add: hash_law_def)

lemma wf_hash_of [simp]: "hash_law X \<Longrightarrow> wf_hash (hash_of X bs)"
  by (simp add: wf_hash_def hash_of_def)

lemma hex_length: "hex_law X \<Longrightarrow> length (x_hex_enc X bs) = 2 * length bs"
  by (simp add: hex_law_def)

lemma hex_digits: "hex_law X \<Longrightarrow> list_all is_hexdigit (x_hex_enc X bs)"
  by (simp add: hex_law_def)

lemma hex_dec_enc: "hex_law X \<Longrightarrow> x_hex_dec X (x_hex_enc X bs) = Some bs"
  unfolding hex_law_def by metis

lemma hex_dec_SomeD: "hex_law X \<Longrightarrow> x_hex_dec X s = Some bs \<Longrightarrow> length s = 2 * length bs"
  unfolding hex_law_def ascii_lower_def by (metis length_map)

lemma hex_enc_inj: "hex_law X \<Longrightarrow> x_hex_enc X a = x_hex_enc X b \<longleftrightarrow> a = b"
  by (metis hex_dec_enc option.inject)

lemma hex_trim: "hex_law X \<Longrightarrow> str_trim (x_hex_enc X bs) = x_hex_enc X bs"
  by (simp add: trim_hex hex_digits)

lemma length_to_hex: "hex_law X \<Longrightarrow> wf_hash h \<Longrightarrow> length (to_hex X h) = 64"
  by (simp add: to_hex_def wf_hash_def hex_length)

lemma to_hex_inj: "hex_law X \<Longrightarrow> to_hex X a = to_hex X b \<longleftrightarrow> a = b"
  by (simp add: to_hex_def hex_enc_inj content_hash.expand) (metis content_hash.expand)

lemma from_to_hex: "hex_law X \<Longrightarrow> wf_hash h \<Longrightarrow> from_hex X (to_hex X h) = Ok h"
  by (simp add: from_hex_def to_hex_def hex_trim hex_length hex_digits hex_dec_enc wf_hash_def)

lemma from_hex_wf: "from_hex X s = Ok h \<Longrightarrow> wf_hash h"
  by (auto simp: from_hex_def wf_hash_def Let_def split: if_splits option.splits)

lemma from_hex_not_Panic [simp]: "from_hex X s \<noteq> Panic"
  by (auto simp: from_hex_def Let_def split: option.splits)

text \<open>
  \<open>from_hex\<close> accepts exactly the trimmed 64-digit strings, in either case, and the hash it
  returns prints as the lower-case form of its argument.
\<close>

lemma from_hex_iff:
  assumes "hex_law X"
  shows "from_hex X s = Ok h \<longleftrightarrow>
    wf_hash h \<and> list_all is_hexdigit (str_trim s) \<and> to_hex X h = ascii_lower (str_trim s)"
proof
  assume h: "from_hex X s = Ok h"
  then obtain bs where bs: "x_hex_dec X (str_trim s) = Some bs" "h = CH bs" "length bs = 32"
    by (auto simp: from_hex_def Let_def split: if_splits option.splits)
  with h assms show "wf_hash h \<and> list_all is_hexdigit (str_trim s) \<and> to_hex X h = ascii_lower (str_trim s)"
    by (auto simp: hex_law_def to_hex_def wf_hash_def)
next
  assume a: "wf_hash h \<and> list_all is_hexdigit (str_trim s) \<and> to_hex X h = ascii_lower (str_trim s)"
  then have dec: "x_hex_dec X (str_trim s) = Some (hash_bytes h)"
    using assms by (simp add: hex_law_def to_hex_def)
  moreover have "length (str_trim s) = 64"
    using hex_dec_SomeD [OF assms dec] a by (simp add: wf_hash_def)
  ultimately show "from_hex X s = Ok h"
    using a by (simp add: from_hex_def wf_hash_def)
qed

end
