(* ===== verification/Cbor.thy ===== *)
theory Cbor
  imports Core
begin

text \<open>
  The deterministic CBOR layer of \<open>src/src/codec.rs\<close>: the writers (\<open>push_uint\<close> and the
  \<open>write_*\<close> helpers) as the bytes they append, and the reader \<open>Cursor\<close> with its state
  passed explicitly. Main facts: what a writer appends a reader returns; a reader never moves
  backwards or past the end; the encoding of an integer is the shortest one the reader accepts.
\<close>

unbundle bit_operations_syntax

section \<open>Writers\<close>

text \<open>\<open>(major << 5) | ai\<close>.\<close>

definition head_byte :: "u8 \<Rightarrow> u8 \<Rightarrow> u8" where
  "head_byte major ai = push_bit 5 major OR ai"

definition push_uint :: "u8 \<Rightarrow> u64 \<Rightarrow> bytes" where
  "push_uint major v =
     (if v < 24 then [head_byte major (ucast v)]
      else if v \<le> 255 then [head_byte major 24, ucast v]
      else if v \<le> 65535 then head_byte major 25 # be_of_nat 2 (unat (ucast v :: u16))
      else if v \<le> 4294967295 then head_byte major 26 # be_of_nat 4 (unat (ucast v :: u32))
      else head_byte major 27 # be_of_nat 8 (unat v))"

definition write_u64 :: "u64 \<Rightarrow> bytes" where
  "write_u64 v = push_uint 0 v"

definition write_bstr :: "bytes \<Rightarrow> bytes" where
  "write_bstr data = push_uint 2 (word_of_nat (length data)) @ data"

definition write_tstr :: "string \<Rightarrow> bytes" where
  "write_tstr s = push_uint 3 (word_of_nat (length s)) @ as_bytes s"

definition write_array_header :: "nat \<Rightarrow> bytes" where
  "write_array_header n = push_uint 4 (word_of_nat n)"

definition write_map_header :: "nat \<Rightarrow> bytes" where
  "write_map_header n = push_uint 5 (word_of_nat n)"

section \<open>The cursor\<close>

record cursor =
  cu_data :: bytes
  cu_pos :: nat

definition cursor_new :: "bytes \<Rightarrow> cursor" where
  "cursor_new data = \<lparr>cu_data = data, cu_pos = 0\<rparr>"

text \<open>
  \<open>self.pos + n\<close> is a \<open>usize\<close> addition. When it overflows, a build with overflow checks
  panics at the addition; a build without them wraps to a sum below \<open>pos\<close>, passes the length
  test and panics at the slice \<open>pos..pos + n\<close> whose start is past its end. Either way the
  call panics.
\<close>

definition take_n :: "nat \<Rightarrow> cursor \<Rightarrow> (bytes \<times> cursor) result" where
  "take_n n c =
     (if cu_pos c + n \<ge> 2 ^ 64 then Panic
      else if cu_pos c + n > length (cu_data c) then Err (Verify ''CBOR truncated'')
      else Ok (take n (drop (cu_pos c) (cu_data c)), c\<lparr>cu_pos := cu_pos c + n\<rparr>))"

definition take_u8 :: "cursor \<Rightarrow> (u8 \<times> cursor) result" where
  "take_u8 c = tryr (take_n 1 c) (\<lambda>(s, c). Ok (s ! 0, c))"

definition read_uint :: "cursor \<Rightarrow> ((u8 \<times> u64) \<times> cursor) result" where
  "read_uint c =
     tryr (take_u8 c) (\<lambda>(b, c).
       let major = drop_bit 5 b; ai = b AND 31 in
       if ai < 24 then Ok ((major, ucast ai), c)
       else if ai = 24 then tryr (take_u8 c) (\<lambda>(x, c). Ok ((major, ucast x), c))
       else if ai = 25 then tryr (take_n 2 c) (\<lambda>(x, c). Ok ((major, word_of_nat (nat_of_be x)), c))
       else if ai = 26 then tryr (take_n 4 c) (\<lambda>(x, c). Ok ((major, word_of_nat (nat_of_be x)), c))
       else if ai = 27 then tryr (take_n 8 c) (\<lambda>(x, c). Ok ((major, word_of_nat (nat_of_be x)), c))
       else Err (Verify ''indefinite/reserved CBOR not allowed''))"

definition expect_major_uint :: "u8 \<Rightarrow> cursor \<Rightarrow> (u64 \<times> cursor) result" where
  "expect_major_uint want c =
     tryr (read_uint c) (\<lambda>((major, v), c).
       if major \<noteq> want then
         Err (Verify (''CBOR major type '' @ dec_string (unat major) @ '', expected '' @ dec_string (unat want)))
       else Ok (v, c))"

definition read_bstr :: "cursor \<Rightarrow> (bytes \<times> cursor) result" where
  "read_bstr c = tryr (expect_major_uint 2 c) (\<lambda>(len, c). take_n (unat len) c)"

definition read_tstr :: "cursor \<Rightarrow> (string \<times> cursor) result" where
  "read_tstr c =
     tryr (expect_major_uint 3 c) (\<lambda>(len, c).
       tryr (take_n (unat len) c) (\<lambda>(bs, c).
         case from_utf8 bs of
           None \<Rightarrow> Err (Verify ''CBOR tstr not UTF-8'')
         | Some s \<Rightarrow> Ok (s, c)))"

definition read_array_header :: "cursor \<Rightarrow> (nat \<times> cursor) result" where
  "read_array_header c = tryr (expect_major_uint 4 c) (\<lambda>(v, c). Ok (unat v, c))"

definition read_map_header :: "cursor \<Rightarrow> (nat \<times> cursor) result" where
  "read_map_header c = tryr (expect_major_uint 5 c) (\<lambda>(v, c). Ok (unat v, c))"

definition read_u64_value :: "cursor \<Rightarrow> (u64 \<times> cursor) result" where
  "read_u64_value c = expect_major_uint 0 c"

definition cursor_finish :: "cursor \<Rightarrow> unit result" where
  "cursor_finish c =
     (if cu_pos c \<noteq> length (cu_data c) then Err (Verify ''trailing CBOR bytes'') else Ok ())"

text \<open>
  \<open>Vec::with_capacity(n)\<close> for elements of \<open>elt\<close> bytes panics (capacity overflow) when the
  allocation would pass \<open>isize::MAX\<close> bytes.
\<close>

definition with_capacity :: "nat \<Rightarrow> nat \<Rightarrow> unit result" where
  "with_capacity elt n = (if n * elt > 2 ^ 63 - 1 then Panic else Ok ())"

section \<open>Reading what was written\<close>

text \<open>A cursor that has consumed \<open>pre\<close> and has \<open>rest\<close> in front of it.\<close>

definition cur :: "bytes \<Rightarrow> bytes \<Rightarrow> cursor" where
  "cur pre rest = \<lparr>cu_data = pre @ rest, cu_pos = length pre\<rparr>"

named_theorems cbor_read \<open>readers applied to the bytes of the matching writer\<close>

lemma cursor_new_cur: "cursor_new data = cur [] data"
  by (simp add: cursor_new_def cur_def)

lemma take_cur [cbor_read]:
  "length s = n \<Longrightarrow> length pre + (length s + length r) < 2 ^ 64 \<Longrightarrow>
    take_n n (cur pre (s @ r)) = Ok (s, cur (pre @ s) r)"
  by (auto simp: take_n_def cur_def)

lemma take_u8_cur [cbor_read]:
  "Suc (length pre + length r) < 2 ^ 64 \<Longrightarrow> take_u8 (cur pre (b # r)) = Ok (b, cur (pre @ [b]) r)"
  using take_cur [of "[b]" 1 pre r] by (simp add: take_u8_def)

lemma finish_cur [cbor_read]: "cursor_finish (cur pre []) = Ok ()"
  by (simp add: cursor_finish_def cur_def)

text \<open>The initial byte: major type in the high three bits, additional information below.\<close>

lemma take_bit_small: "unat w < 2 ^ n \<Longrightarrow> take_bit n w = w"
  by (simp add: word_unat_eq_iff unsigned_take_bit_eq take_bit_nat_eq_self)

lemma head_byte_major:
  assumes "m < 8" "w < 32"
  shows "drop_bit 5 (head_byte m w) = m"
proof -
  have w: "take_bit 5 w = w" using assms(2) by (intro take_bit_small) (simp add: word_less_nat_alt)
  have m: "take_bit 3 m = m" using assms(1) by (intro take_bit_small) (simp add: word_less_nat_alt)
  have "drop_bit 5 (take_bit 5 w) = 0" by (simp add: drop_bit_take_bit)
  then have "drop_bit 5 w = 0" by (simp only: w)
  moreover have "drop_bit 5 (push_bit 5 m) = m"
    using m by (simp add: word_unat_eq_iff unsigned_take_bit_eq unsigned_drop_bit_eq unsigned_push_bit_eq
        drop_bit_take_bit) (simp add: push_bit_eq_mult drop_bit_eq_div)
  ultimately show ?thesis by (simp add: head_byte_def drop_bit_or)
qed

lemma head_byte_info:
  assumes "w < 32"
  shows "head_byte m w AND 31 = w"
proof -
  have w: "take_bit 5 w = w" using assms by (intro take_bit_small) (simp add: word_less_nat_alt)
  have "head_byte m w AND 31 = take_bit 5 (head_byte m w)"
    by (simp add: take_bit_eq_mask mask_eq_exp_minus_1)
  also have "\<dots> = w" using w by (simp add: head_byte_def take_bit_or take_bit_push_bit)
  finally show ?thesis .
qed

lemma unat_ucast_u8: "unat (ucast (v :: u64) :: u8) = unat v mod 256"
  by (simp add: unsigned_ucast_eq take_bit_eq_mod)

lemma unat_ucast_u16: "unat (ucast (v :: u64) :: u16) = unat v mod 65536"
  by (simp add: unsigned_ucast_eq take_bit_eq_mod)

lemma unat_ucast_u32: "unat (ucast (v :: u64) :: u32) = unat v mod 4294967296"
  by (simp add: unsigned_ucast_eq take_bit_eq_mod)

lemma unat_ucast_up8: "unat (ucast (b :: u8) :: u64) = unat b"
proof -
  have "unat b < 256" by (rule unat_byte_less)
  then show ?thesis by (simp add: unsigned_ucast_eq take_bit_eq_mod)
qed

lemma ucast_ucast_u8: "v \<le> 255 \<Longrightarrow> ucast (ucast (v :: u64) :: u8) = v"
  by (simp add: word_unat_eq_iff unat_ucast_up8 unat_ucast_u8 word_le_nat_alt)

lemma word_of_nat_unat_mod: "unat (v :: u64) < n \<Longrightarrow> word_of_nat (unat v mod n) = v"
  by simp

lemma read_uint_cur [cbor_read]:
  assumes "m < 8" "length pre + (length (push_uint m v) + length r) < 2 ^ 64"
  shows "read_uint (cur pre (push_uint m v @ r)) = Ok ((m, v), cur (pre @ push_uint m v) r)"
proof -
  note read = read_uint_def push_uint_def head_byte_major head_byte_info Let_def
  consider (a) "v < 24" | (b) "\<not> v < 24" "v \<le> 255" | (c) "\<not> v < 24" "\<not> v \<le> 255" "v \<le> 65535"
    | (d) "\<not> v < 24" "\<not> v \<le> 255" "\<not> v \<le> 65535" "v \<le> 4294967295"
    | (e) "\<not> v < 24" "\<not> v \<le> 255" "\<not> v \<le> 65535" "\<not> v \<le> 4294967295" by blast
  then show ?thesis
  proof cases
    case a
    then have v: "(ucast v :: u8) < 24" "(ucast v :: u8) < 32" "v \<le> 255"
      by (simp_all add: word_less_nat_alt unat_ucast_u8 word_le_nat_alt)
    then show ?thesis
      using assms a by (simp add: read take_u8_cur ucast_ucast_u8)
  next
    case b
    then show ?thesis using assms by (simp add: read take_u8_cur ucast_ucast_u8)
  next
    case c
    then have "unat v < 65536" by (simp add: word_le_nat_alt)
    with c show ?thesis
      using assms take_cur [where s = "be_of_nat 2 (unat (ucast v :: u16))" and n = 2]
      by (simp add: read take_u8_cur nat_of_be_of_nat unat_ucast_u16)
  next
    case d
    then have "unat v < 4294967296" by (simp add: word_le_nat_alt)
    with d show ?thesis
      using assms take_cur [where s = "be_of_nat 4 (unat (ucast v :: u32))" and n = 4]
      by (simp add: read take_u8_cur nat_of_be_of_nat unat_ucast_u32)
  next
    case e
    have "unat v < 2 ^ 64" using unsigned_less [of v] by simp
    with e show ?thesis
      using assms take_cur [where s = "be_of_nat 8 (unat v)" and n = 8]
      by (simp add: read take_u8_cur nat_of_be_of_nat)
  qed
qed


lemma expect_major_cur [cbor_read]:
  "m < 8 \<Longrightarrow> length pre + (length (push_uint m v) + length r) < 2 ^ 64 \<Longrightarrow>
    expect_major_uint m (cur pre (push_uint m v @ r)) = Ok (v, cur (pre @ push_uint m v) r)"
  by (simp add: expect_major_uint_def read_uint_cur)

lemma read_u64_cur [cbor_read]:
  "length pre + (length (write_u64 v) + length r) < 2 ^ 64 \<Longrightarrow>
    read_u64_value (cur pre (write_u64 v @ r)) = Ok (v, cur (pre @ write_u64 v) r)"
  by (simp add: read_u64_value_def write_u64_def expect_major_cur)

lemma read_map_header_cur [cbor_read]:
  "n < 2 ^ 64 \<Longrightarrow> length pre + (length (write_map_header n) + length r) < 2 ^ 64 \<Longrightarrow>
    read_map_header (cur pre (write_map_header n @ r)) = Ok (n, cur (pre @ write_map_header n) r)"
  by (simp add: read_map_header_def write_map_header_def expect_major_cur unat_of_nat)

lemma read_array_header_cur [cbor_read]:
  "n < 2 ^ 64 \<Longrightarrow> length pre + (length (write_array_header n) + length r) < 2 ^ 64 \<Longrightarrow>
    read_array_header (cur pre (write_array_header n @ r)) = Ok (n, cur (pre @ write_array_header n) r)"
  by (simp add: read_array_header_def write_array_header_def expect_major_cur unat_of_nat)

lemma read_bstr_cur [cbor_read]:
  assumes "length pre + (length (write_bstr d) + length r) < 2 ^ 64"
  shows "read_bstr (cur pre (write_bstr d @ r)) = Ok (d, cur (pre @ write_bstr d) r)"
  using assms take_cur [of d "length d" "pre @ push_uint 2 (word_of_nat (length d))" r]
  by (simp add: read_bstr_def write_bstr_def expect_major_cur unat_of_nat)

lemma read_tstr_cur [cbor_read]:
  assumes "length pre + (length (write_tstr t) + length r) < 2 ^ 64" "utf8_str t"
  shows "read_tstr (cur pre (write_tstr t @ r)) = Ok (t, cur (pre @ write_tstr t) r)"
  using assms take_cur [of "as_bytes t" "length t" "pre @ push_uint 3 (word_of_nat (length t))" r]
  by (simp add: read_tstr_def write_tstr_def expect_major_cur unat_of_nat from_utf8_as_bytes)

lemmas write_len_defs = write_u64_def write_bstr_def write_tstr_def write_array_header_def write_map_header_def

section \<open>What a reader accepts\<close>

text \<open>A reader keeps the data, moves forward, and stays within it.\<close>

definition advances :: "cursor \<Rightarrow> cursor \<Rightarrow> bool" where
  "advances c c' \<longleftrightarrow> cu_data c' = cu_data c \<and> cu_pos c \<le> cu_pos c' \<and> cu_pos c' \<le> length (cu_data c)"

definition consumed :: "cursor \<Rightarrow> cursor \<Rightarrow> bytes" where
  "consumed c c' = take (cu_pos c' - cu_pos c) (drop (cu_pos c) (cu_data c))"

lemma advances_trans: "advances a b \<Longrightarrow> advances b c \<Longrightarrow> advances a c"
  by (auto simp: advances_def)

lemma take_n_Ok_iff:
  "take_n n c = Ok (s, c') \<longleftrightarrow>
     cu_pos c + n < 2 ^ 64 \<and> cu_pos c + n \<le> length (cu_data c)
     \<and> s = take n (drop (cu_pos c) (cu_data c)) \<and> c' = c\<lparr>cu_pos := cu_pos c + n\<rparr>"
  by (auto simp: take_n_def)

lemma take_n_advances:
  "take_n n c = Ok (s, c') \<Longrightarrow>
    advances c c' \<and> cu_pos c' = cu_pos c + n \<and> consumed c c' = s \<and> length s = n"
  by (auto simp: take_n_Ok_iff advances_def consumed_def)

lemma take_u8_advances:
  assumes "take_u8 c = Ok (b, c')"
  shows "advances c c' \<and> cu_pos c' = cu_pos c + 1 \<and> consumed c c' = [b]"
proof -
  from assms obtain s where s: "take_n 1 c = Ok (s, c')" "b = s ! 0"
    by (auto simp: take_u8_def elim!: tryr_OkE)
  have t: "advances c c'" "cu_pos c' = cu_pos c + 1" "consumed c c' = s" "length s = 1"
    using take_n_advances [OF s(1)] by blast+
  obtain x where "s = [x]" using t(4) by (cases s) auto
  with s(2) t(1-3) show ?thesis by (metis nth_Cons_0)
qed

lemma consumed_append:
  assumes "advances a b" "advances b c"
  shows "consumed a c = consumed a b @ consumed b c"
proof -
  have "cu_pos c - cu_pos a = (cu_pos b - cu_pos a) + (cu_pos c - cu_pos b)"
    using assms by (auto simp: advances_def)
  moreover have "cu_data b = cu_data a" "cu_pos a + (cu_pos b - cu_pos a) = cu_pos b"
    using assms by (auto simp: advances_def)
  ultimately show ?thesis
    unfolding consumed_def by (simp only: take_add drop_drop add.commute [of "cu_pos a"])
qed

lemma head_byte_split: "head_byte (drop_bit 5 b) (b AND 31) = b"
proof -
  have "b AND 31 = take_bit 5 b" by (simp add: take_bit_eq_mask mask_eq_exp_minus_1)
  then show ?thesis 
    by (auto intro!: bit_word_eqI simp: head_byte_def bit_or_iff bit_push_bit_iff bit_drop_bit_eq bit_take_bit_iff)
qed

lemma drop5_less: "drop_bit 5 (b :: u8) < 8"
proof -
  have "unat b < 256" by (rule unat_byte_less)
  then have "unat b div 32 < 8" by simp
  then show ?thesis
    by (simp only: word_less_nat_alt unsigned_drop_bit_eq) (simp add: drop_bit_eq_div take_bit_eq_mod)
qed

lemma length_push_uint:
  "length (push_uint m v) =
    (if v < 24 then 1 else if v \<le> 255 then 2 else if v \<le> 65535 then 3 else if v \<le> 4294967295 then 5 else 9)"
  by (simp add: push_uint_def)

lemma push_uint_not_Nil [simp]: "push_uint m v \<noteq> []"
  by (simp add: push_uint_def)

text \<open>The argument bytes of an integer: their value fits the width, and prints back as them.\<close>

lemma be_value:
  assumes "length x = k" "k \<le> 8" "v = (word_of_nat (nat_of_be x) :: u64)"
  shows "unat v = nat_of_be x" "unat v < 256 ^ k" "be_of_nat k (unat v) = x"
proof -
  have lt: "nat_of_be x < 256 ^ k" using nat_of_be_less [of x] assms(1) by simp
  have "(256::nat) ^ k \<le> 256 ^ 8" using assms(2) by (intro power_increasing) simp_all
  with lt have "nat_of_be x < 2 ^ 64" by simp
  then show eq: "unat v = nat_of_be x" using assms(3) by (simp add: unat_of_nat)
  show "unat v < 256 ^ k" using lt eq by simp
  show "be_of_nat k (unat v) = x" using eq assms(1) be_of_nat_of_be [of x] by simp
qed

text \<open>
  Whatever \<open>read_uint\<close> accepts, \<open>push_uint\<close> of the value read is no longer than the bytes
  consumed, and where it is as long it is those very bytes.
\<close>

definition shortest_for :: "u8 \<Rightarrow> u64 \<Rightarrow> bytes \<Rightarrow> bool" where
  "shortest_for m v bs \<longleftrightarrow> length (push_uint m v) \<le> length bs
     \<and> (length (push_uint m v) = length bs \<longrightarrow> bs = push_uint m v)"

lemma shortest_for_imm:
  assumes "b = head_byte m w" "w < 24" "v = (ucast w :: u64)"
  shows "shortest_for m v [b]"
proof -
  have "unat v = unat w" using assms(3) by (simp add: unat_ucast_up8)
  then have "v < 24" "ucast v = w"
    using assms(2) unat_byte_less [of w] by (simp_all add: word_less_nat_alt word_unat_eq_iff unat_ucast_u8)
  with assms(1) show ?thesis by (simp add: shortest_for_def push_uint_def)
qed

lemma shortest_for_one:
  assumes "b = head_byte m 24" "v = (ucast (x :: u8) :: u64)"
  shows "shortest_for m v [b, x]"
proof -
  have u: "unat v = unat x" using assms(2) by (simp add: unat_ucast_up8)
  then have "v \<le> 255" "ucast v = x"
    using unat_byte_less [of x] by (simp_all add: word_le_nat_alt word_unat_eq_iff unat_ucast_u8)
  with assms(1) show ?thesis by (auto simp: shortest_for_def push_uint_def)
qed

lemma shortest_for_be:
  assumes "length x = k" "b = head_byte m w" "v = (word_of_nat (nat_of_be x) :: u64)"
    and "k = 2 \<and> w = 25 \<or> k = 4 \<and> w = 26 \<or> k = 8 \<and> w = 27"
  shows "shortest_for m v (b # x)"
proof -
  have "k \<le> 8" using assms(4) by auto
  note val = be_value [OF assms(1) this assms(3)]
  from assms(4) show ?thesis
  proof (elim disjE conjE)
    assume k: "k = 2" "w = 25"
    with val have "v \<le> 65535" by (simp add: word_le_nat_alt)
    moreover from this have "unat (ucast v :: u16) = unat v"
      by (simp add: unat_ucast_u16 word_le_nat_alt)
    ultimately show ?thesis using k val assms(1,2)
      by (auto simp: shortest_for_def push_uint_def)
  next
    assume k: "k = 4" "w = 26"
    with val have "v \<le> 4294967295" by (simp add: word_le_nat_alt)
    moreover from this have "unat (ucast v :: u32) = unat v"
      by (simp add: unat_ucast_u32 word_le_nat_alt)
    ultimately show ?thesis using k val assms(1,2)
      by (auto simp: shortest_for_def push_uint_def)
  next
    assume k: "k = 8" "w = 27"
    then show ?thesis using val assms(1,2)
      by (auto simp: shortest_for_def push_uint_def)
  qed
qed

lemma read_uint_shortest:
  assumes "read_uint c = Ok ((m, v), c')"
  shows "advances c c' \<and> cu_pos c < cu_pos c' \<and> m < 8 \<and> shortest_for m v (consumed c c')"
proof -
  obtain b c1 where b: "take_u8 c = Ok (b, c1)"
    using assms by (auto simp: read_uint_def elim!: tryr_OkE)
  note hb = take_u8_advances [OF b]
  define ai where "ai = b AND 31"
  have split: "b = head_byte (drop_bit 5 b) ai" by (simp only: ai_def head_byte_split)
  have rest: "(if ai < 24 then Ok ((drop_bit 5 b, ucast ai), c1)
       else if ai = 24 then tryr (take_u8 c1) (\<lambda>(x, c). Ok ((drop_bit 5 b, ucast x), c))
       else if ai = 25 then tryr (take_n 2 c1) (\<lambda>(x, c). Ok ((drop_bit 5 b, word_of_nat (nat_of_be x)), c))
       else if ai = 26 then tryr (take_n 4 c1) (\<lambda>(x, c). Ok ((drop_bit 5 b, word_of_nat (nat_of_be x)), c))
       else if ai = 27 then tryr (take_n 8 c1) (\<lambda>(x, c). Ok ((drop_bit 5 b, word_of_nat (nat_of_be x)), c))
       else Err (Verify ''indefinite/reserved CBOR not allowed'')) = Ok ((m, v), c')"
    using assms unfolding read_uint_def b tryr.simps prod.case Let_def ai_def .
  have imm: ?thesis if "ai < 24" "m = drop_bit 5 b" "v = ucast ai" "c' = c1"
    using that hb drop5_less [of b] shortest_for_imm [OF split that(1,3)] by simp
  have one: ?thesis if "ai = 24" "take_u8 c1 = Ok (x, c')" "m = drop_bit 5 b" "v = ucast x" for x
  proof -
    note x = take_u8_advances [OF that(2)]
    have adv: "advances c c'" using hb x advances_trans by blast
    have "consumed c c' = [b, x]" using hb x by (simp add: consumed_append [of c c1 c'])
    moreover have "shortest_for m v [b, x]"
      by (rule shortest_for_one) (use split that in simp_all)
    ultimately show ?thesis using adv hb x that(3) drop5_less [of b] by simp
  qed
  have be: ?thesis if k: "k = 2 \<and> ai = 25 \<or> k = 4 \<and> ai = 26 \<or> k = 8 \<and> ai = 27"
    and x: "tryr (take_n k c1) (\<lambda>(x, c). Ok ((drop_bit 5 b, word_of_nat (nat_of_be x)), c)) = Ok ((m, v), c')" for k
  proof -
    obtain x where x: "take_n k c1 = Ok (x, c')" "m = drop_bit 5 b" "v = word_of_nat (nat_of_be x)"
      using x by (auto elim!: tryr_OkE)
    note t = take_n_advances [OF x(1)]
    have adv: "advances c c'" using hb t advances_trans by blast
    have "consumed c c' = b # x" using hb t by (simp add: consumed_append [of c c1 c'])
    moreover have "shortest_for m v (b # x)"
      by (rule shortest_for_be [OF _ _ x(3) k]) (use split x(2) t in simp_all)
    ultimately show ?thesis using adv hb t x(2) drop5_less [of b] by simp
  qed
  show ?thesis
  proof (cases "ai < 24")
    case True
    with rest imm show ?thesis by simp
  next
    case False
    note r = rest [unfolded if_not_P [OF False]]
    show ?thesis
    proof (cases "ai = 24")
      case True
      with r one show ?thesis by (auto elim!: tryr_OkE)
    next
      case False
      note r = r [unfolded if_not_P [OF False]]
      show ?thesis
        by (cases "ai = 25"; cases "ai = 26"; cases "ai = 27") (use r be in simp_all)
    qed
  qed
qed

lemma push_uint_max: "length (push_uint m v) \<le> 9"
  by (simp add: length_push_uint)

end
