(* ===== verification/Wire.thy ===== *)
theory Wire
  imports Cbor
begin

text \<open>
  Domain frames and content identifiers (\<open>src/src/codec.rs\<close>): the wire form of a typed object is
  a 16-byte domain tag followed by its body, its CID the hash of the whole.
\<close>

section \<open>Domains\<close>

definition DOMAIN_TREE :: bytes where
  "DOMAIN_TREE = as_bytes ''soal/tree/v1'' @ [0, 0, 0, 0]"

definition DOMAIN_COMMIT :: bytes where
  "DOMAIN_COMMIT = as_bytes ''soal/commit/v1'' @ [0, 0]"

definition DOMAIN_CONFIG :: bytes where
  "DOMAIN_CONFIG = as_bytes ''soal/config/v1'' @ [0, 0]"

definition DOMAIN_HEAD :: bytes where
  "DOMAIN_HEAD = as_bytes ''soal/head/v1'' @ [0, 0, 0, 0]"

definition DOMAIN_INVITE :: bytes where
  "DOMAIN_INVITE = as_bytes ''soal/invite/v1'' @ [0, 0]"

definition PROTOCOL_VERSION :: u64 where
  "PROTOCOL_VERSION = 1"

definition MAX_COMMIT_PARENTS :: nat where
  "MAX_COMMIT_PARENTS = 16"

definition MAX_TREE_ENTRIES :: nat where
  "MAX_TREE_ENTRIES = 1000000"

definition MAX_MESSAGE_BYTES :: nat where
  "MAX_MESSAGE_BYTES = 64 * 1024"

definition MAX_BLOB_BYTES :: nat where
  "MAX_BLOB_BYTES = 16 * 1024 * 1024"

definition MAX_JOB_COMMITS :: nat where
  "MAX_JOB_COMMITS = 10000"

definition MAX_SKEW_SECS :: u64 where
  "MAX_SKEW_SECS = 300"

section \<open>Framing\<close>

definition frame :: "bytes \<Rightarrow> bytes \<Rightarrow> bytes" where
  "frame domain body = domain @ body"

definition cid_of :: "ext \<Rightarrow> bytes \<Rightarrow> content_hash" where
  "cid_of X wire = hash_of X wire"

definition unframe :: "bytes \<Rightarrow> bytes \<Rightarrow> bytes result" where
  "unframe domain wire =
     (if length wire < 16 then Err (Verify ''wire too short for domain frame'')
      else if take 16 wire \<noteq> domain then Err (Verify ''domain mismatch'')
      else Ok (drop 16 wire))"

definition verify_framed :: "ext \<Rightarrow> bytes \<Rightarrow> content_hash \<Rightarrow> bytes \<Rightarrow> bytes result" where
  "verify_framed X domain expect wire =
     (let actual = cid_of X wire in
      if actual \<noteq> expect then Err (hash_mismatch X expect actual)
      else unframe domain wire)"

definition frame_cid :: "ext \<Rightarrow> bytes \<Rightarrow> bytes \<Rightarrow> content_hash \<times> bytes" where
  "frame_cid X domain body = (let wire = frame domain body in (cid_of X wire, wire))"

text \<open>\<open>data.len() >= 16 && data[..16] == domain\<close>, the test of the dual readers.\<close>

definition has_domain :: "bytes \<Rightarrow> bytes \<Rightarrow> bool" where
  "has_domain domain data \<longleftrightarrow> length data \<ge> 16 \<and> take 16 data = domain"

definition domains :: "bytes list" where
  "domains = [DOMAIN_TREE, DOMAIN_COMMIT, DOMAIN_CONFIG, DOMAIN_HEAD, DOMAIN_INVITE]"

lemma length_domain [simp]:
  "length DOMAIN_TREE = 16" "length DOMAIN_COMMIT = 16" "length DOMAIN_CONFIG = 16"
  "length DOMAIN_HEAD = 16" "length DOMAIN_INVITE = 16"
  by (simp_all add: DOMAIN_TREE_def DOMAIN_COMMIT_def DOMAIN_CONFIG_def DOMAIN_HEAD_def DOMAIN_INVITE_def)

lemma unframe_frame: "length d = 16 \<Longrightarrow> unframe d (frame d b) = Ok b"
  by (simp add: unframe_def frame_def)

lemma unframe_Ok: "length d = 16 \<Longrightarrow> unframe d w = Ok b \<longleftrightarrow> w = frame d b"
  by (auto simp: unframe_def frame_def split: if_splits) (metis append_take_drop_id same_append_eq)

lemma unframe_not_Panic [simp]: "unframe d w \<noteq> Panic"
  by (simp add: unframe_def)

lemma has_domain_frame: "length d = 16 \<Longrightarrow> has_domain d w \<longleftrightarrow> (\<exists>b. w = frame d b)"
  by (auto simp: has_domain_def frame_def intro: exI [of _ "drop 16 w"])

lemma frame_inj: "length d = 16 \<Longrightarrow> length e = 16 \<Longrightarrow> frame d a = frame e b \<longleftrightarrow> d = e \<and> a = b"
  by (auto simp: frame_def)

lemma map_eq_as_bytes: "as_bytes s = map byte_of_char s"
  by (simp add: as_bytes_def)

lemma domains_distinct: "distinct domains"
  by (simp add: domains_def DOMAIN_TREE_def DOMAIN_COMMIT_def DOMAIN_CONFIG_def DOMAIN_HEAD_def
      DOMAIN_INVITE_def as_bytes_def byte_of_char_def)

section \<open>The contract of a codec\<close>

text \<open>
  What the rest of the program relies on: decoding what was encoded gives the value back, in the
  normal form \<open>norm\<close> the decoder produces. Hence equal bytes mean equal normal forms. The bound
  is \<open>isize::MAX\<close>, which no byte vector reaches.
\<close>

locale wire_codec =
  fixes ok :: "'a \<Rightarrow> bool"
    and enc :: "'a \<Rightarrow> bytes result"
    and dec :: "bytes \<Rightarrow> 'a result"
    and norm :: "'a \<Rightarrow> 'a"
  assumes dec_enc: "ok x \<Longrightarrow> enc x = Ok b \<Longrightarrow> length b < 2 ^ 63 \<Longrightarrow> dec b = Ok (norm x)"
begin

lemma enc_unique:
  assumes "ok x" "ok y" "enc x = Ok b" "enc y = Ok b" "length b < 2 ^ 63"
  shows "norm x = norm y"
  using dec_enc [OF assms(1,3,5)] dec_enc [OF assms(2,4,5)] by simp

end

text \<open>The objects named by their content id carry a domain in front.\<close>

locale framed_codec = wire_codec +
  fixes dom :: bytes
  assumes enc_domain: "enc x = Ok b \<Longrightarrow> has_domain dom b"
    and dec_domain: "dec b = Ok x \<Longrightarrow> has_domain dom b"
begin

lemma foreign_rejected: "has_domain d b \<Longrightarrow> d \<noteq> dom \<Longrightarrow> dec b \<noteq> Ok x"
  using dec_domain by (auto simp: has_domain_def)

lemma kinds_apart: "enc x = Ok b \<Longrightarrow> has_domain d b \<Longrightarrow> d = dom"
  using enc_domain by (auto simp: has_domain_def)

end

end
