(* ===== verification/TreePath.thy ===== *)
theory TreePath
  imports Core
begin

text \<open>
  Logical vault paths (\<open>src/src/tree.rs\<close>): normalisation, validation (INV-PATH-01), the name of
  a conflict copy, and the join with a target directory. Validation is shown to accept exactly
  the relative, slash-separated paths without empty, dot or dot-dot segments; conflict names
  stay valid; a successful join stays below its target.
\<close>

section \<open>Normalisation and validation\<close>

abbreviation slash :: char where
  "slash \<equiv> CHR 0x2F"

abbreviation backslash :: char where
  "backslash \<equiv> CHR 0x5C"

definition trim_matches :: "char \<Rightarrow> string \<Rightarrow> string" where
  "trim_matches c s = rev (dropWhile (\<lambda>x. x = c) (rev (dropWhile (\<lambda>x. x = c) s)))"

definition normalize_path :: "string \<Rightarrow> string" where
  "normalize_path path =
     (let s = map (\<lambda>c. if c = backslash then slash else c) path;
          s = strip_prefixes [''./''] s
      in trim_matches slash s)"

definition check_segment :: "string \<Rightarrow> unit \<Rightarrow> unit result" where
  "check_segment seg u =
     (if seg = [] then Err (InvalidPath ''empty path segment'')
      else if seg = ''.'' \<or> seg = ''..'' then Err (InvalidPath (''illegal segment '' @ [CHR 0x27] @ seg @ [CHR 0x27]))
      else Ok ())"

definition validate_path :: "string \<Rightarrow> unit result" where
  "validate_path path =
     (if path = [] then Err (InvalidPath ''empty path'')
      else if CHR 0x00 \<in> set path then Err (InvalidPath ''NUL in path'')
      else if backslash \<in> set path then Err (InvalidPath ''backslash not allowed'')
      else if starts_with path [slash] then Err (InvalidPath ''absolute path not allowed'')
      else if length path \<ge> 2 \<and> path ! 1 = CHR '':'' \<and> is_alpha (path ! 0) then
        Err (InvalidPath ''drive-absolute path not allowed'')
      else for_res check_segment (split_on slash path) ())"

definition normalize_and_validate :: "string \<Rightarrow> string result" where
  "normalize_and_validate path =
     (if CHR 0x00 \<in> set path then Err (InvalidPath ''NUL in path'')
      else if backslash \<in> set path then Err (InvalidPath ''backslash not allowed'')
      else let n = normalize_path path in tryr (validate_path n) (\<lambda>_. Ok n))"

text \<open>What a valid path is.\<close>

definition drive_prefix :: "string \<Rightarrow> bool" where
  "drive_prefix p \<longleftrightarrow> length p \<ge> 2 \<and> p ! 1 = CHR '':'' \<and> is_alpha (p ! 0)"

definition legal_segment :: "string \<Rightarrow> bool" where
  "legal_segment s \<longleftrightarrow> s \<noteq> [] \<and> s \<noteq> ''.'' \<and> s \<noteq> ''..''"

definition valid_path :: "string \<Rightarrow> bool" where
  "valid_path p \<longleftrightarrow> CHR 0x00 \<notin> set p \<and> backslash \<notin> set p \<and> \<not> drive_prefix p
     \<and> list_all legal_segment (split_on slash p)"

lemma check_segments_Ok: "for_res check_segment segs u = Ok v \<longleftrightarrow> list_all legal_segment segs"
  by (induction segs arbitrary: u) (auto simp: check_segment_def legal_segment_def)

lemma valid_path_not_Nil: "valid_path p \<Longrightarrow> p \<noteq> []"
  by (auto simp: valid_path_def legal_segment_def)

lemma valid_path_hd: "valid_path p \<Longrightarrow> hd p \<noteq> slash"
  by (cases p) (auto simp: valid_path_def legal_segment_def)

lemma split_on_last: "last s = c \<Longrightarrow> s \<noteq> [] \<Longrightarrow> [] \<in> set (split_on c s)"
  by (metis append_butlast_last_id in_set_conv_decomp split_on.simps(1) split_on_append_sep)

lemma valid_path_last: "valid_path p \<Longrightarrow> last p \<noteq> slash"
  using split_on_last [of p slash] valid_path_not_Nil [of p]
  by (auto simp: valid_path_def legal_segment_def list_all_iff)

theorem validate_path_iff: "validate_path p = Ok u \<longleftrightarrow> valid_path p"
proof
  assume "validate_path p = Ok u"
  then show "valid_path p"
    by (auto simp: validate_path_def valid_path_def drive_prefix_def check_segments_Ok split: if_splits)
next
  assume v: "valid_path p"
  then have "\<not> starts_with p [slash]" "p \<noteq> []"
    using valid_path_hd [OF v] valid_path_not_Nil [OF v] by (auto simp: starts_with_def neq_Nil_conv)
  with v show "validate_path p = Ok u"
    by (auto simp: validate_path_def valid_path_def drive_prefix_def check_segments_Ok)
qed

lemma validate_path_not_Panic: "validate_path p \<noteq> Panic"
proof -
  have "for_res check_segment segs u \<noteq> Panic" for segs u
    by (induction segs arbitrary: u) (auto simp: check_segment_def)
  then show ?thesis by (auto simp: validate_path_def)
qed

text \<open>A valid path is a fixed point of normalisation.\<close>

lemma trim_matches_id:
  assumes "s \<noteq> []" "hd s \<noteq> c" "last s \<noteq> c"
  shows "trim_matches c s = s"
proof -
  have "dropWhile (\<lambda>x. x = c) s = s" using assms by (cases s) auto
  moreover have "dropWhile (\<lambda>x. x = c) (rev s) = rev s"
    using assms by (cases s rule: rev_cases) auto
  ultimately show ?thesis by (simp add: trim_matches_def)
qed

lemma no_dot_prefix: "valid_path p \<Longrightarrow> find_prefix [''./''] p = None"
proof (rule ccontr)
  assume v: "valid_path p" and "find_prefix [''./''] p \<noteq> None"
  then obtain t where "p = ''.'' @ slash # t"
    by (auto dest: find_prefix_SomeD)
  then have "''.'' \<in> set (split_on slash p)"
    by (simp only: split_on_append_sep) simp
  with v show False by (auto simp: valid_path_def list_all_iff legal_segment_def)
qed

lemma normalize_valid: "valid_path p \<Longrightarrow> normalize_path p = p"
proof -
  assume v: "valid_path p"
  then have "map (\<lambda>c. if c = backslash then slash else c) p = p"
    by (auto simp: valid_path_def intro!: map_idI)
  moreover have "strip_prefixes [''./''] p = p"
    by (rule strip_prefixes_id) (rule no_dot_prefix [OF v])
  ultimately show ?thesis
    using valid_path_not_Nil [OF v] valid_path_hd [OF v] valid_path_last [OF v]
    by (simp add: normalize_path_def trim_matches_id)
qed

lemma normalize_and_validate_valid: "valid_path p \<Longrightarrow> normalize_and_validate p = Ok p"
  using validate_path_iff [of p "()"]
  by (simp add: normalize_and_validate_def normalize_valid) (simp add: valid_path_def)

lemma normalize_and_validate_Ok:
  "normalize_and_validate p = Ok q \<Longrightarrow> valid_path q \<and> q = normalize_path p"
  by (auto simp: normalize_and_validate_def Let_def validate_path_iff split: if_splits elim!: tryr_OkE)

section \<open>Conflict copies\<close>

definition str_rfind :: "char \<Rightarrow> string \<Rightarrow> nat option" where
  "str_rfind c s = (if c \<in> set s then Some (length s - 1 - length (takeWhile (\<lambda>x. x \<noteq> c) (rev s))) else None)"

definition split_dir :: "string \<Rightarrow> string \<times> string" where
  "split_dir path =
     (case str_rfind slash path of
        Some i \<Rightarrow> (take (i + 1) path, drop (i + 1) path)
      | None \<Rightarrow> ([], path))"

definition split_ext :: "string \<Rightarrow> string \<times> string" where
  "split_ext file =
     (case str_rfind (CHR ''.'') file of
        Some i \<Rightarrow> if i > 0 then (take i file, drop i file) else (file, [])
      | None \<Rightarrow> (file, []))"

definition conflict_path_name :: "string \<Rightarrow> string \<Rightarrow> string" where
  "conflict_path_name path from_label =
     (let (dir, file) = split_dir path; (stem, ext) = split_ext file
      in dir @ stem @ '' (conflict from '' @ from_label @ '')'' @ ext)"

text \<open>
  \<open>label.chars()\<close> on UTF-8: one character per byte that is not a continuation byte; a
  character outside ASCII becomes an underscore, as its first byte does here.
\<close>

definition label_char :: "char \<Rightarrow> char" where
  "label_char c = (if is_alpha c \<or> is_digit c \<or> c = CHR ''-'' \<or> c = CHR ''_'' then c else CHR ''_'')"

definition sanitize_conflict_label :: "string \<Rightarrow> string" where
  "sanitize_conflict_label label =
     (let s = take 32 (map label_char (filter (\<lambda>c. \<not> cont_byte (of_char c)) label))
      in if s = [] then ''remote'' else s)"

lemma last_occurrence:
  assumes "c \<in> set s"
  obtains a b where "s = a @ c # b" "c \<notin> set b"
    "length a = length s - 1 - length (takeWhile (\<lambda>x. x \<noteq> c) (rev s))"
proof -
  obtain a b where ab: "s = a @ c # b" "c \<notin> set b" using split_list_last [OF assms] by blast
  then have "takeWhile (\<lambda>x. x \<noteq> c) (rev s) = rev b"
    by (simp add: takeWhile_append takeWhile_eq_all_conv)
  with ab that show ?thesis by simp
qed

lemma str_rfind_SomeD:
  assumes "str_rfind c s = Some i"
  shows "s = take i s @ c # drop (i + 1) s \<and> c \<notin> set (drop (i + 1) s) \<and> i < length s"
proof -
  have c: "c \<in> set s" and i: "i = length s - 1 - length (takeWhile (\<lambda>x. x \<noteq> c) (rev s))"
    using assms by (auto simp: str_rfind_def split: if_splits)
  from last_occurrence [OF c] obtain a b where "s = a @ c # b" "c \<notin> set b" "length a = i"
    using i by blast
  then show ?thesis by auto
qed

lemma str_rfind_NoneD: "str_rfind c s = None \<Longrightarrow> c \<notin> set s"
  by (auto simp: str_rfind_def split: if_splits)

lemma split_dir_cases:
  assumes "split_dir p = (dir, file)"
  shows "p = dir @ file \<and> slash \<notin> set file \<and> (dir = [] \<or> (\<exists>d. dir = d @ [slash]))"
proof (cases "str_rfind slash p")
  case None
  with assms show ?thesis by (auto simp: split_dir_def dest: str_rfind_NoneD)
next
  case (Some i)
  note r = str_rfind_SomeD [OF Some]
  then have "take (i + 1) p = take i p @ [slash]"
    by (metis add.commute plus_1_eq_Suc take_Suc_conv_app_nth nth_append_length append_take_drop_id
        length_take min.absorb4 nat_less_le)
  with assms Some r show ?thesis by (auto simp: split_dir_def)
qed

lemma split_ext_cases:
  assumes "split_ext file = (stem, ex)" "file \<noteq> []"
  shows "file = stem @ ex \<and> stem \<noteq> []"
  using assms by (auto simp: split_ext_def split: option.splits if_splits)

lemma conflict_path_name_eq:
  assumes "split_dir p = (dir, file)" "split_ext file = (stem, ex)"
  shows "conflict_path_name p l = dir @ stem @ '' (conflict from '' @ l @ '')'' @ ex"
  using assms by (simp add: conflict_path_name_def)

definition label_ok :: "char \<Rightarrow> bool" where
  "label_ok c \<longleftrightarrow> is_alpha c \<or> is_digit c \<or> c = CHR ''-'' \<or> c = CHR ''_''"

lemma label_char_ok: "label_ok (label_char c)"
  by (simp add: label_ok_def label_char_def)

lemma label_not_ok: "\<not> label_ok (CHR 0x00)" "\<not> label_ok slash" "\<not> label_ok backslash"
  by (simp_all add: label_ok_def is_alpha_def is_digit_def)

lemma remote_ok: "list_all label_ok ''remote''"
  by (simp add: label_ok_def is_alpha_def)

lemma sanitized_chars: "list_all label_ok (sanitize_conflict_label l)"
proof -
  have "list_all label_ok (take 32 (map label_char xs))" for xs
    by (auto simp: list_all_iff label_char_ok dest!: in_set_takeD)
  then show ?thesis using remote_ok by (simp only: sanitize_conflict_label_def Let_def split: if_split) blast
qed

lemma sanitized_no:
  "CHR 0x00 \<notin> set (sanitize_conflict_label l)" "slash \<notin> set (sanitize_conflict_label l)"
  "backslash \<notin> set (sanitize_conflict_label l)"
  using sanitized_chars [of l] label_not_ok by (auto simp only: list_all_iff)

lemma sanitized_length: "length (sanitize_conflict_label l) \<le> 32"
  by (simp add: sanitize_conflict_label_def Let_def)

lemma drive_prefix_append: "length u \<ge> 2 \<Longrightarrow> drive_prefix (u @ z) = drive_prefix u"
  by (cases u; cases "tl u") (auto simp: drive_prefix_def)

text \<open>A conflict copy of a valid path has a valid path, longer than the original.\<close>

lemma conflict_path_valid:
  assumes v: "valid_path p"
  shows "valid_path (conflict_path_name p (sanitize_conflict_label l))"
proof -
  let ?L = "sanitize_conflict_label l"
  obtain dir fname where df: "split_dir p = (dir, fname)" by force
  obtain stem ex where se: "split_ext fname = (stem, ex)" by force
  note d = split_dir_cases [OF df]
  have nf: "fname \<noteq> []"
    using d v valid_path_last [OF v] valid_path_not_Nil [OF v] by auto
  note s = split_ext_cases [OF se nf]
  define x where "x = stem @ '' (conflict from '' @ ?L @ '')'' @ ex"
  have name: "conflict_path_name p ?L = dir @ x"
    by (simp add: conflict_path_name_eq [OF df se] x_def)
  have x: "slash \<notin> set x" "legal_segment x"
    using d s sanitized_no [of l] by (auto simp: x_def legal_segment_def append_eq_Cons_conv)
  have chars: "CHR 0x00 \<notin> set (dir @ x)" "backslash \<notin> set (dir @ x)"
    using v d s sanitized_no [of l] by (auto simp: x_def valid_path_def)
  have "list_all legal_segment (split_on slash (dir @ x))"
  proof (cases "dir = []")
    case True
    with x show ?thesis by (simp add: split_on_no_sep_single)
  next
    case False
    with d obtain e where e: "dir = e @ [slash]" by blast
    with v d have "list_all legal_segment (split_on slash e @ split_on slash fname)"
      by (simp add: valid_path_def flip: split_on_append_sep)
    with e x show ?thesis by (simp add: split_on_append_sep split_on_no_sep_single)
  qed
  moreover have "\<not> drive_prefix (dir @ x)"
  proof -
    have nd: "\<not> drive_prefix (dir @ stem @ ex)" using v d s by (simp add: valid_path_def)
    have "dir \<noteq> [] \<Longrightarrow> hd dir \<noteq> slash" using d valid_path_hd [OF v] by (cases dir) auto
    then consider "length (dir @ stem) \<ge> 2" | "dir = []" "length stem = 1"
      using s d by (cases dir; cases stem; cases "tl stem") (auto simp: neq_Nil_conv Suc_le_eq)
    then show ?thesis
    proof cases
      case 1
      note two = drive_prefix_append [OF 1]
      from nd show ?thesis unfolding x_def
        using two [of ex] two [of "'' (conflict from '' @ ?L @ '')'' @ ex"] by simp
    next
      case 2
      then show ?thesis by (auto simp: drive_prefix_def x_def length_Suc_conv)
    qed
  qed
  ultimately show ?thesis using chars by (simp add: valid_path_def name)
qed

lemma conflict_path_longer: "length p < length (conflict_path_name p l)"
proof -
  obtain dir fname where df: "split_dir p = (dir, fname)" by force
  obtain stem ex where se: "split_ext fname = (stem, ex)" by force
  have "length stem + length ex = length fname"
    using se by (auto simp: split_ext_def split: option.splits if_splits dest: str_rfind_SomeD)
  moreover have "length p = length dir + length fname" using split_dir_cases [OF df] by simp
  ultimately show ?thesis by (simp add: conflict_path_name_eq [OF df se])
qed

lemma conflict_path_neq: "conflict_path_name p l \<noteq> p"
  using conflict_path_longer [of p l] by auto

section \<open>Joining with a target directory\<close>

text \<open>
  \<open>std::path\<close> on Unix: the components of a path (repeated slashes and inner dots vanish),
  \<open>Path::join\<close>, and the parent as a list of components. What the file system answers depends
  on the components only; \<open>exists\<close> and \<open>canonicalize\<close> are the fields of the record \<open>fsq\<close>.
\<close>

datatype component = RootDir | CurDir | ParentDir | Normal string

type_synonym path = "component list"

record fsq =
  fs_exists :: "path \<Rightarrow> bool"
  fs_canon :: "path \<Rightarrow> path result"

definition seg_comp :: "string \<Rightarrow> path" where
  "seg_comp s = (if s = [] \<or> s = ''.'' then [] else if s = ''..'' then [ParentDir] else [Normal s])"

definition path_components :: "string \<Rightarrow> path" where
  "path_components s =
     (let segs = split_on slash s in
      (if s \<noteq> [] \<and> hd s = slash then [RootDir]
       else if hd segs = ''.'' then [CurDir]
       else seg_comp (hd segs)) @ concat (map seg_comp (tl segs)))"

definition path_join :: "string \<Rightarrow> string \<Rightarrow> string" where
  "path_join base p =
     (if p \<noteq> [] \<and> hd p = slash then p
      else if base = [] \<or> last base = slash then base @ p
      else base @ [slash] @ p)"

definition path_parent :: "path \<Rightarrow> path option" where
  "path_parent cs = (if cs = [] \<or> last cs = RootDir then None else Some (butlast cs))"

definition escapes :: soal_error where
  "escapes = InvalidPath ''path escapes target directory''"

definition safe_join :: "fsq \<Rightarrow> string \<Rightarrow> string \<Rightarrow> string result" where
  "safe_join F target_dir logical0 =
     tryr (normalize_and_validate logical0) (\<lambda>logical.
       let joined = path_join target_dir logical;
           jc = path_components joined; tc = path_components target_dir
       in if ParentDir \<in> set jc then Err escapes
          else if fs_exists F tc then
            tryr (fs_canon F tc) (\<lambda>base.
              if fs_exists F jc then
                tryr (fs_canon F jc) (\<lambda>full. if prefix base full then Ok joined else Err escapes)
              else case path_parent jc of
                None \<Rightarrow> Ok joined
              | Some parent \<Rightarrow>
                  if fs_exists F parent then
                    tryr (fs_canon F parent) (\<lambda>pc. if prefix base pc then Ok joined else Err escapes)
                  else Ok joined)
          else Ok joined)"

lemma seg_comp_legal: "list_all legal_segment segs \<Longrightarrow> concat (map seg_comp segs) = map Normal segs"
  by (induction segs) (auto simp: seg_comp_def legal_segment_def)

lemma path_components_abs:
  "s \<noteq> [] \<Longrightarrow> hd s = slash \<Longrightarrow> path_components s = RootDir # concat (map seg_comp (split_on slash s))"
  by (cases s) (auto simp: path_components_def seg_comp_def)

lemma path_components_split:
  "path_components (t @ slash # n) =
     (if t = [] then [RootDir] else path_components t) @ concat (map seg_comp (split_on slash n))"
proof (cases t)
  case Nil
  then show ?thesis by (simp add: path_components_abs seg_comp_def)
next
  case (Cons a t')
  obtain u us where u: "split_on slash t = u # us" by (cases "split_on slash t") auto
  have "split_on slash (t @ slash # n) = u # us @ split_on slash n"
    by (simp only: split_on_append_sep u append_Cons)
  moreover have "hd (t @ slash # n) = hd t" "t @ slash # n \<noteq> []" "t \<noteq> []" using Cons by simp_all
  ultimately show ?thesis by (simp only: path_components_def Let_def u) simp
qed

text \<open>Joining a valid logical path appends its segments to the components of the target.\<close>

lemma path_components_join:
  assumes v: "valid_path n"
  shows "path_components (path_join t n) = path_components t @ map Normal (split_on slash n)"
proof -
  have hd: "hd n \<noteq> slash" using valid_path_hd [OF v] .
  have segs: "concat (map seg_comp (split_on slash n)) = map Normal (split_on slash n)"
    using v by (intro seg_comp_legal) (simp add: valid_path_def)
  consider "t = []" | u where "t = u @ [slash]" | "t \<noteq> []" "last t \<noteq> slash"
    by (cases t rule: rev_cases) auto
  then show ?thesis
  proof cases
    case 1
    have "legal_segment (hd (split_on slash n))"
      using v by (cases "split_on slash n") (auto simp: valid_path_def)
    then have "path_components n = concat (map seg_comp (split_on slash n))"
      using hd by (cases "split_on slash n") (auto simp: path_components_def legal_segment_def)
    moreover have "path_components [] = []" by (simp add: path_components_def seg_comp_def)
    ultimately show ?thesis using 1 hd segs by (simp add: path_join_def)
  next
    case 2
    have "path_components (u @ [slash]) = (if u = [] then [RootDir] else path_components u)"
      using path_components_split [of u "[]"] by (simp add: seg_comp_def)
    with 2 show ?thesis
      using hd segs path_components_split [of u n] by (simp add: path_join_def)
  next
    case 3
    with hd show ?thesis using segs path_components_split [of t n] by (simp add: path_join_def)
  qed
qed

lemma safe_join_cases:
  assumes "safe_join F t l = Ok j"
  obtains n where "normalize_and_validate l = Ok n" "valid_path n" "j = path_join t n"
    "ParentDir \<notin> set (path_components j)"
proof -
  from assms obtain n where n: "normalize_and_validate l = Ok n"
    by (auto simp: safe_join_def elim: tryr_OkE)
  with assms have "j = path_join t n" "ParentDir \<notin> set (path_components j)"
    by (auto simp: safe_join_def Let_def split: if_splits option.splits elim!: tryr_OkE)
  with n normalize_and_validate_Ok [OF n] that show ?thesis by blast
qed

section \<open>Distinct paths have distinct conflict copies\<close>

lemma last_sep_unique:
  assumes "d @ x = d' @ x'" "c \<notin> set x" "c \<notin> set x'" "d = [] \<or> last d = c" "d' = [] \<or> last d' = c"
  shows "d = d' \<and> x = x'"
proof -
  have r: "takeWhile (\<lambda>y. y \<noteq> c) (rev (e @ y)) = rev y" if "c \<notin> set y" "e = [] \<or> last e = c" for e y
    using that by (cases e rule: rev_cases) (auto simp: takeWhile_append takeWhile_eq_all_conv)
  have "rev x = rev x'" using r [of x d] r [of x' d'] assms by simp
  then show ?thesis using assms(1) by simp
qed

lemma split_ext_dots:
  assumes "split_ext f = (stem, ex)"
  shows "ex = [] \<and> CHR ''.'' \<notin> set (drop 1 stem) \<or> (\<exists>e. ex = CHR ''.'' # e \<and> CHR ''.'' \<notin> set e)"
proof (cases "str_rfind (CHR ''.'') f")
  case None
  then show ?thesis using assms str_rfind_NoneD [OF None] in_set_dropD [of _ 1 f] by (auto simp: split_ext_def)
next
  case (Some i)
  note r = str_rfind_SomeD [OF Some]
  show ?thesis
  proof (cases "i = 0")
    case True
    then show ?thesis using assms Some r by (simp add: split_ext_def)
  next
    case False
    then have "ex = drop i f" using assms Some by (simp add: split_ext_def)
    then have "ex = CHR ''.'' # drop (i + 1) f" using r by (metis Cons_nth_drop_Suc Suc_eq_plus1 id_take_nth_drop append_same_eq same_append_eq append_eq_append_conv length_take list.inject append_take_drop_id)
    then show ?thesis using r by blast
  qed
qed

text \<open>Two paths never share a conflict copy.\<close>

lemma conflict_path_name_inj:
  assumes v: "valid_path p" "valid_path q" and l: "CHR ''.'' \<notin> set l" "slash \<notin> set l"
    and eq: "conflict_path_name p l = conflict_path_name q l"
  shows "p = q"
proof -
  define T where "T = '' (conflict from '' @ l @ '')''"
  obtain d f s x where p: "split_dir p = (d, f)" "split_ext f = (s, x)" by (metis surj_pair)
  obtain d' f' s' x' where q: "split_dir q = (d', f')" "split_ext f' = (s', x')" by (metis surj_pair)
  note dp = split_dir_cases [OF p(1)] and dq = split_dir_cases [OF q(1)]
  have nf: "f \<noteq> []" "f' \<noteq> []"
    using dp dq valid_path_last [OF v(1)] valid_path_last [OF v(2)] valid_path_not_Nil [OF v(1)] valid_path_not_Nil [OF v(2)] by auto
  note sp = split_ext_cases [OF p(2) nf(1)] and sq = split_ext_cases [OF q(2) nf(2)]
  have T: "slash \<notin> set T" "CHR ''.'' \<notin> set T" using l by (simp_all add: T_def)
  have "d @ (s @ T @ x) = d' @ (s' @ T @ x')"
    using eq unfolding conflict_path_name_eq [OF p] conflict_path_name_eq [OF q] T_def by simp
  then have "d = d' \<and> s @ T @ x = s' @ T @ x'"
    by (rule last_sep_unique [where c = slash]) (use dp dq sp sq T in auto)
  then have d: "d = d'" and e: "s @ T @ x = s' @ T @ x'" by auto
  have no: "a @ T \<noteq> b @ T @ CHR ''.'' # y" if "a \<noteq> []" "b \<noteq> []" "CHR ''.'' \<notin> set (drop 1 a)" for a b y
  proof
    assume "a @ T = b @ T @ CHR ''.'' # y"
    then have "drop 1 (a @ T) = drop 1 (b @ T @ CHR ''.'' # y)" by simp
    then have "drop 1 a @ T = drop 1 b @ T @ CHR ''.'' # y" using that by (cases a; cases b) simp_all
    then have "CHR ''.'' \<in> set (drop 1 a @ T)" by simp
    then show False using that(3) T(2) by simp
  qed
  note dots = split_ext_dots [OF p(2)] split_ext_dots [OF q(2)]
  consider "x = []" "x' = []" | y where "x = []" "x' = CHR ''.'' # y" | y where "x = CHR ''.'' # y" "x' = []"
    | y y' where "x = CHR ''.'' # y" "CHR ''.'' \<notin> set y" "x' = CHR ''.'' # y'" "CHR ''.'' \<notin> set y'"
    using dots by blast
  then have "s = s' \<and> x = x'"
  proof cases
    case 2
    then show ?thesis using e no [of s s' y] sp sq dots by auto
  next
    case (3 y)
    then have "s' @ T = s @ T @ CHR ''.'' # y" using e by simp
    then show ?thesis using 3 no [of s' s y] sp sq dots by auto
  next
    case (4 y y')
    have "(s @ T @ [CHR ''.'']) @ y = (s' @ T @ [CHR ''.'']) @ y'" using e 4 by simp
    then have "s @ T @ [CHR ''.''] = s' @ T @ [CHR ''.''] \<and> y = y'"
      by (rule last_sep_unique [where c = "CHR ''.''"]) (use 4 in auto)
    then show ?thesis using 4 by simp
  qed (use e in simp)
  then show ?thesis using d dp dq sp sq by simp
qed

lemma sanitized_no_dot: "CHR ''.'' \<notin> set (sanitize_conflict_label l)"
  using sanitized_chars [of l] by (auto simp: list_all_iff label_ok_def is_alpha_def is_digit_def)

section \<open>A joined path is below its target\<close>

lemma safe_join_inside:
  assumes "safe_join F t l = Ok j"
  shows "\<exists>n. normalize_and_validate l = Ok n \<and> j = path_join t n
      \<and> path_components j = path_components t @ map Normal (split_on slash n)"
    and "ParentDir \<notin> set (path_components j)"
    and "fs_exists F (path_components t) \<Longrightarrow> fs_exists F (path_components j) \<Longrightarrow>
      \<exists>base full. fs_canon F (path_components t) = Ok base \<and> fs_canon F (path_components j) = Ok full
        \<and> prefix base full"
proof -
  obtain n where n: "normalize_and_validate l = Ok n" "valid_path n" "j = path_join t n"
    "ParentDir \<notin> set (path_components j)"
    using assms by (rule safe_join_cases)
  then show "\<exists>n. normalize_and_validate l = Ok n \<and> j = path_join t n
      \<and> path_components j = path_components t @ map Normal (split_on slash n)" "ParentDir \<notin> set (path_components j)"
    using path_components_join [OF n(2), of t] by auto
  show "\<exists>base full. fs_canon F (path_components t) = Ok base \<and> fs_canon F (path_components j) = Ok full \<and> prefix base full"
    if "fs_exists F (path_components t)" "fs_exists F (path_components j)"
    using assms n that by (auto simp: safe_join_def Let_def split: if_splits elim!: tryr_OkE)
qed

end
