(* ===== verification/Merkle.thy ===== *)
theory Merkle
  imports TreePath
begin

text \<open>
  Directory trees (\<open>src/src/tree.rs\<close>): adding files and subdirectories, merging, merging with
  conflict copies, and listing the chunks. The merge of two trees is characterised path by
  path; conflict copies keep both sides of every divergence as long as the names of the copies
  are not taken.
\<close>

section \<open>Operations\<close>

definition tree_new :: tree where
  "tree_new = \<lparr>entries = []\<rparr>"

text \<open>\<open>normalize_and_validate(path).unwrap_or_else(|_| normalize_path(path))\<close>.\<close>

definition lenient_path :: "string \<Rightarrow> string" where
  "lenient_path path = (case normalize_and_validate path of Ok p \<Rightarrow> p | _ \<Rightarrow> normalize_path path)"

definition add_file :: "string \<Rightarrow> u64 \<Rightarrow> content_hash list \<Rightarrow> tree \<Rightarrow> tree" where
  "add_file path sz chunks t = t\<lparr>entries := om_insert (lenient_path path) (File sz chunks) (entries t)\<rparr>"

definition try_add_file :: "string \<Rightarrow> u64 \<Rightarrow> content_hash list \<Rightarrow> tree \<Rightarrow> tree result" where
  "try_add_file path sz chunks t =
     tryr (normalize_and_validate path) (\<lambda>path.
       Ok (t\<lparr>entries := om_insert path (File sz chunks) (entries t)\<rparr>))"

definition add_dir :: "string \<Rightarrow> content_hash \<Rightarrow> tree \<Rightarrow> tree" where
  "add_dir path h t = t\<lparr>entries := om_insert (lenient_path path) (Dir h) (entries t)\<rparr>"

definition merge_tree :: "tree \<Rightarrow> tree \<Rightarrow> tree" where
  "merge_tree other t = t\<lparr>entries := fold (\<lambda>(k, v). om_insert k v) (entries other) (entries t)\<rparr>"

definition merge_step ::
  "string \<Rightarrow> string \<times> tree_entry \<Rightarrow> (string, tree_entry) omap \<times> nat \<Rightarrow> (string, tree_entry) omap \<times> nat"
where
  "merge_step label = (\<lambda>(path, their_entry) (es, conflicts).
     case om_get es path of
       None \<Rightarrow> (om_insert path their_entry es, conflicts)
     | Some our_entry \<Rightarrow>
         if our_entry = their_entry then (es, conflicts)
         else (om_insert (conflict_path_name path label) their_entry es, conflicts + 1))"

definition merge_with_conflicts :: "tree \<Rightarrow> string \<Rightarrow> tree \<Rightarrow> tree \<times> nat" where
  "merge_with_conflicts theirs from_label ours =
     (let label = sanitize_conflict_label from_label;
          (es, conflicts) = fold (merge_step label) (entries theirs) (entries ours, 0)
      in (ours\<lparr>entries := es\<rparr>, conflicts))"

fun entry_chunks :: "tree_entry \<Rightarrow> content_hash list" where
  "entry_chunks (File sz chunks) = chunks"
| "entry_chunks (Dir h) = []"

definition all_chunk_hashes :: "tree \<Rightarrow> content_hash list" where
  "all_chunk_hashes t = concat (map (\<lambda>(path, entry). entry_chunks entry) (entries t))"

section \<open>The invariant of a tree\<close>

text \<open>
  \<open>wf_tree_rep\<close> is what Rust's types guarantee (a map in key order, strings of valid UTF-8,
  32-byte hashes); \<open>wf_tree\<close> adds the program's own invariant that every path is valid.
\<close>

fun wf_entry :: "tree_entry \<Rightarrow> bool" where
  "wf_entry (File sz chunks) \<longleftrightarrow> list_all wf_hash chunks"
| "wf_entry (Dir h) \<longleftrightarrow> wf_hash h"

definition wf_tree_rep :: "tree \<Rightarrow> bool" where
  "wf_tree_rep t \<longleftrightarrow> om_wf (entries t) \<and> list_all (\<lambda>(p, e). utf8_str p \<and> wf_entry e) (entries t)"

definition valid_tree :: "tree \<Rightarrow> bool" where
  "valid_tree t \<longleftrightarrow> list_all (\<lambda>(p, e). valid_path p) (entries t)"

definition wf_tree :: "tree \<Rightarrow> bool" where
  "wf_tree t \<longleftrightarrow> wf_tree_rep t \<and> valid_tree t"

lemma list_all_om_insert:
  "list_all P m \<Longrightarrow> P (k, v) \<Longrightarrow> list_all P (om_insert k v m)"
  by (induction k v m rule: om_insert.induct) auto

lemma wf_tree_new: "wf_tree tree_new"
  by (simp add: wf_tree_def wf_tree_rep_def valid_tree_def tree_new_def)

lemma try_add_file_Ok:
  "try_add_file p sz cs t = Ok t' \<Longrightarrow>
    valid_path (normalize_path p) \<and> t' = t\<lparr>entries := om_insert (normalize_path p) (File sz cs) (entries t)\<rparr>"
  by (auto simp: try_add_file_def dest: normalize_and_validate_Ok elim!: tryr_OkE)

lemma valid_try_add_file:
  "try_add_file p sz cs t = Ok t' \<Longrightarrow> valid_tree t \<Longrightarrow> valid_tree t'"
  by (auto dest!: try_add_file_Ok simp: valid_tree_def intro: list_all_om_insert)

text \<open>Looking a path up after each operation.\<close>

lemma get_try_add_file:
  "try_add_file p sz cs t = Ok t' \<Longrightarrow>
    om_get (entries t') = (om_get (entries t))(normalize_path p \<mapsto> File sz cs)"
  by (auto dest!: try_add_file_Ok simp: om_get_insert)

lemma get_merge_tree:
  assumes "om_wf (entries t)" "om_wf (entries u)"
  shows "om_get (entries (merge_tree u t)) = om_get (entries t) ++ om_get (entries u)"
proof -
  have "map_of (rev (entries u)) = map_of (entries u)"
    using om_wf_distinct [OF assms(2)] by (intro map_of_inject_set [THEN iffD2]) (simp_all flip: rev_map)
  with om.get_ins_all [OF assms(1)] show ?thesis by (simp add: merge_tree_def)
qed

section \<open>Merging with conflict copies\<close>

lemma merge_step_cases:
  "merge_step l (p, e) (es, n) =
    (if om_get es p = None then (om_insert p e es, n)
     else if om_get es p = Some e then (es, n)
     else (om_insert (conflict_path_name p l) e es, n + 1))"
  by (auto simp: merge_step_def split: option.splits)

lemma wf_merge_fold: "om_wf (fst s) \<Longrightarrow> om_wf (fst (fold (merge_step l) ts s))"
proof (induction ts arbitrary: s)
  case (Cons t ts)
  obtain p e es n where "t = (p, e)" "s = (es, n)" by (cases t; cases s)
  with Cons.prems have "om_wf (fst (merge_step l t s))"
    by (simp add: merge_step_cases om_wf_insert)
  from Cons.IH [OF this] show ?case by simp
qed simp

text \<open>An entry of ours stays, unless its path is the name of one of the conflict copies.\<close>

lemma merge_fold_keeps:
  "om_get (fst s) q = Some v \<Longrightarrow> q \<notin> (\<lambda>(p, e). conflict_path_name p l) ` set ts \<Longrightarrow>
    om_get (fst (fold (merge_step l) ts s)) q = Some v"
proof (induction ts arbitrary: s)
  case (Cons t ts)
  obtain p e es n where t: "t = (p, e)" "s = (es, n)" by (cases t; cases s)
  with Cons.prems have "om_get (fst (merge_step l t s)) q = Some v"
    by (auto simp: merge_step_cases om_get_insert)
  from Cons.IH [OF this] Cons.prems(2) show ?case by simp
qed simp

text \<open>
  An entry of theirs is at its own path or at the path of its conflict copy, when no two
  copies share a name and no copy is named as a path of theirs.
\<close>

lemma merge_fold_theirs:
  assumes "(p, e) \<in> set ts" "distinct (map fst ts)"
    and "inj_on (\<lambda>p. conflict_path_name p l) (fst ` set ts)"
    and "(\<lambda>p. conflict_path_name p l) ` fst ` set ts \<inter> fst ` set ts = {}"
  shows "om_get (fst (fold (merge_step l) ts s)) p = Some e
    \<or> om_get (fst (fold (merge_step l) ts s)) (conflict_path_name p l) = Some e"
  using assms
proof (induction ts arbitrary: s)
  case (Cons t ts)
  obtain p' e' es n where t: "t = (p', e')" "s = (es, n)" by (cases t; cases s)
  show ?case
  proof (cases "t = (p, e)")
    case True
    have p: "p \<in> fst ` set (t # ts)" using Cons.prems(1) by force
    have "p \<notin> (\<lambda>p. conflict_path_name p l) ` fst ` set (t # ts)"
      using Cons.prems(4) p by blast
    then have later1: "p \<notin> (\<lambda>(p, e). conflict_path_name p l) ` set ts" by (force simp: image_iff)
    have later2: "conflict_path_name p l \<notin> (\<lambda>(p, e). conflict_path_name p l) ` set ts"
    proof
      assume "conflict_path_name p l \<in> (\<lambda>(p, e). conflict_path_name p l) ` set ts"
      then obtain q f where q: "(q, f) \<in> set ts" "conflict_path_name p l = conflict_path_name q l" by auto
      then have "q \<in> fst ` set (t # ts)" by force
      from inj_onD [OF Cons.prems(3) q(2) p this] have "p = q" .
      with q True Cons.prems(2) show False by (force simp: image_iff)
    qed
    note later = later1 later2
    have "om_get (fst (merge_step l t s)) p = Some e
        \<or> om_get (fst (merge_step l t s)) (conflict_path_name p l) = Some e"
      using True t by (auto simp: merge_step_cases om_get_insert)
    with later show ?thesis by (auto intro: merge_fold_keeps)
  next
    case False
    with Cons.prems have "(p, e) \<in> set ts" by simp
    moreover have "inj_on (\<lambda>p. conflict_path_name p l) (fst ` set ts)"
      using Cons.prems(3) by (rule inj_on_subset) auto
    moreover have "(\<lambda>p. conflict_path_name p l) ` fst ` set ts \<inter> fst ` set ts = {}"
      using Cons.prems(4) by auto
    ultimately show ?thesis using Cons.prems(2) Cons.IH [of "merge_step l t s"] by simp
  qed
qed simp

text \<open>The entries of the merged tree come from one of the two trees.\<close>

lemma merge_fold_source:
  "om_wf (fst s) \<Longrightarrow> (q, v) \<in> set (fst (fold (merge_step l) ts s)) \<Longrightarrow>
    (q, v) \<in> set (fst s) \<or> (q, v) \<in> set ts \<or> (\<exists>p. (p, v) \<in> set ts \<and> q = conflict_path_name p l)"
proof (induction ts arbitrary: s)
  case (Cons t ts)
  obtain p e es n where t: "t = (p, e)" "s = (es, n)" by (cases t; cases s)
  have wf: "om_wf (fst (merge_step l t s))"
    using Cons.prems(1) t by (simp add: merge_step_cases om_wf_insert)
  have "(q, v) \<in> set (fst (fold (merge_step l) ts (merge_step l t s)))"
    using Cons.prems(2) by simp
  from Cons.IH [OF wf this] show ?case
    using t Cons.prems(1) by (auto simp: merge_step_cases set_om_insert split: if_splits)
qed simp

lemma merge_fold_count: "snd (fold (merge_step l) ts s) \<le> snd s + length ts"
proof (induction ts arbitrary: s)
  case (Cons t ts)
  obtain p e es n where t: "t = (p, e)" "s = (es, n)" by (cases t; cases s)
  have "snd (merge_step l t s) \<le> snd s + 1" using t by (simp add: merge_step_cases)
  with Cons.IH [of "merge_step l t s"] show ?case by simp
qed simp

text \<open>With free names the number of conflicts is the number of divergent paths.\<close>

lemma merge_fold_exact_count:
  assumes "distinct (map fst ts)" "(\<lambda>p. conflict_path_name p l) ` fst ` set ts \<inter> fst ` set ts = {}"
  shows "snd (fold (merge_step l) ts (es, n)) =
    n + length (filter (\<lambda>(p, e). om_get es p \<noteq> None \<and> om_get es p \<noteq> Some e) ts)"
  using assms
proof (induction ts arbitrary: es n)
  case (Cons t ts)
  obtain p e where t: "t = (p, e)" by (cases t)
  let ?s = "merge_step l t (es, n)"
  have same: "om_get (fst ?s) q = om_get es q" if "q \<in> fst ` set ts" for q
  proof -
    have "p \<in> fst ` set (t # ts)" using t by simp
    then have "conflict_path_name p l \<notin> fst ` set (t # ts)" using Cons.prems(2) by blast
    moreover have "q \<noteq> p" using that Cons.prems(1) t by auto
    moreover have "q \<in> fst ` set (t # ts)" using that by simp
    ultimately have "q \<noteq> conflict_path_name p l" "q \<noteq> p" by metis+
    then show ?thesis using t by (simp add: merge_step_cases om_get_insert)
  qed
  have "filter (\<lambda>(p, e). om_get (fst ?s) p \<noteq> None \<and> om_get (fst ?s) p \<noteq> Some e) ts =
      filter (\<lambda>(p, e). om_get es p \<noteq> None \<and> om_get es p \<noteq> Some e) ts"
  proof (rule filter_cong [OF refl])
    fix x assume "x \<in> set ts"
    then have "om_get (fst ?s) (fst x) = om_get es (fst x)" by (intro same) simp
    then show "(case x of (p, e) \<Rightarrow> om_get (fst ?s) p \<noteq> None \<and> om_get (fst ?s) p \<noteq> Some e) =
        (case x of (p, e) \<Rightarrow> om_get es p \<noteq> None \<and> om_get es p \<noteq> Some e)"
      by (simp add: case_prod_beta)
  qed
  moreover have "snd (fold (merge_step l) ts (fst ?s, snd ?s)) =
      snd ?s + length (filter (\<lambda>(p, e). om_get (fst ?s) p \<noteq> None \<and> om_get (fst ?s) p \<noteq> Some e) ts)"
    by (rule Cons.IH) (use Cons.prems in auto)
  ultimately show ?case using t by (auto simp: merge_step_cases)
qed simp

lemma merge_result:
  "merge_with_conflicts theirs label ours =
    (let s = fold (merge_step (sanitize_conflict_label label)) (entries theirs) (entries ours, 0)
     in (ours\<lparr>entries := fst s\<rparr>, snd s))"
  by (simp add: merge_with_conflicts_def Let_def split: prod.split)

lemma utf8_ok_append: "utf8_ok xs \<Longrightarrow> utf8_ok (xs @ ys) = utf8_ok ys"
  by (induction xs rule: utf8_ok.induct) (auto split: if_splits list.splits)

section \<open>What a merge keeps\<close>

lemma merge_conflicts_exact:
  assumes "wf_tree ours" "wf_tree theirs" "merge_with_conflicts theirs label ours = (m, n)"
    and clash: "(\<lambda>p. conflict_path_name p (sanitize_conflict_label label)) ` fst ` set (entries theirs)
      \<inter> (fst ` set (entries ours) \<union> fst ` set (entries theirs)) = {}"
  shows "om_get (entries ours) p = Some e \<Longrightarrow> om_get (entries m) p = Some e"
    and "om_get (entries theirs) p = Some e \<Longrightarrow> om_get (entries m) p = Some e
        \<or> om_get (entries m) (conflict_path_name p (sanitize_conflict_label label)) = Some e"
    and "n = length (filter (\<lambda>(p, e). om_get (entries ours) p \<noteq> None \<and> om_get (entries ours) p \<noteq> Some e) (entries theirs))"
    and "om_get (entries m) p = Some e \<Longrightarrow> e \<in> snd ` (set (entries ours) \<union> set (entries theirs))"
proof -
  define l where "l = sanitize_conflict_label label"
  define s where "s = fold (merge_step l) (entries theirs) (entries ours, 0)"
  have m: "entries m = fst s" "n = snd s"
    using assms(3) by (auto simp: merge_result s_def l_def Let_def)
  have wf: "om_wf (entries ours)" "om_wf (entries theirs)" and v: "list_all (\<lambda>(p, e). valid_path p) (entries theirs)"
    using assms(1,2) by (simp_all add: wf_tree_def wf_tree_rep_def valid_tree_def)
  have dist: "distinct (map fst (entries theirs))" using om_wf_distinct [OF wf(2)] .
  have inj: "inj_on (\<lambda>p. conflict_path_name p l) (fst ` set (entries theirs))"
  proof (rule inj_onI)
    fix p q
    assume "p \<in> fst ` set (entries theirs)" "q \<in> fst ` set (entries theirs)"
    then have "valid_path p" "valid_path q" using v by (auto simp: list_all_iff)
    then show "conflict_path_name p l = conflict_path_name q l \<Longrightarrow> p = q"
      unfolding l_def using sanitized_no_dot sanitized_no(2) by (rule conflict_path_name_inj)
  qed
  have c: "(\<lambda>p. conflict_path_name p l) ` fst ` set (entries theirs) \<inter> fst ` set (entries theirs) = {}"
    using clash by (auto simp: l_def)
  have get: "(p, e) \<in> set es" if "om_get es p = Some e" for es :: "(string \<times> tree_entry) list" and p e
    using that by (rule map_of_SomeD)
  show "om_get (entries m) p = Some e" if "om_get (entries ours) p = Some e"
    unfolding m s_def
    by (rule merge_fold_keeps) (use that get [OF that] clash in \<open>force simp: l_def image_iff\<close>)+
  show "om_get (entries m) p = Some e \<or> om_get (entries m) (conflict_path_name p (sanitize_conflict_label label)) = Some e"
    if "om_get (entries theirs) p = Some e"
    using merge_fold_theirs [OF get [OF that] dist inj c] by (simp add: m s_def l_def)
  show "n = length (filter (\<lambda>(p, e). om_get (entries ours) p \<noteq> None \<and> om_get (entries ours) p \<noteq> Some e) (entries theirs))"
    using merge_fold_exact_count [OF dist c] by (simp add: m s_def)
  have src: "(p, e) \<in> set (entries ours) \<or> (p, e) \<in> set (entries theirs) \<or> (\<exists>q. (q, e) \<in> set (entries theirs) \<and> p = conflict_path_name q l)"
    if "om_get (entries m) p = Some e"
    using merge_fold_source [of "(entries ours, 0)" p e l "entries theirs"] get [OF that] wf(1) by (simp add: m s_def)
  show "e \<in> snd ` (set (entries ours) \<union> set (entries theirs))" if "om_get (entries m) p = Some e"
    using src [OF that] by force
qed

end
