(* ===== verification/TreeCodec.thy ===== *)
theory TreeCodec
  imports Wire Merkle
begin

text \<open>
  The wire form of trees (\<open>encode_tree_body\<close>, \<open>decode_tree_body\<close> and their framed versions in
  \<open>src/src/codec.rs\<close>, \<open>Tree::hash\<close> and \<open>Tree::from_wire_or_json\<close> in \<open>tree.rs\<close>). The decoder's
  two loops are step functions over their local variables and the cursor. Every well-formed
  tree decodes from its encoding, every decoded tree is well formed, so the encoding is
  injective and a CID determines its tree up to a collision of the hash.
\<close>

section \<open>Encoding\<close>

definition enc_cids :: "content_hash list \<Rightarrow> bytes" where
  "enc_cids hs = concat (map (\<lambda>h. write_bstr (hash_bytes h)) hs)"

fun enc_entry :: "tree_entry \<Rightarrow> bytes" where
  "enc_entry (File sz chunks) =
     write_map_header 3 @
     write_u64 1 @ write_u64 0 @
     write_u64 2 @ write_u64 sz @
     write_u64 3 @ write_array_header (length chunks) @ enc_cids chunks"
| "enc_entry (Dir h) =
     write_map_header 2 @
     write_u64 1 @ write_u64 1 @
     write_u64 2 @ write_bstr (hash_bytes h)"

definition enc_entries :: "(string, tree_entry) omap \<Rightarrow> bytes" where
  "enc_entries es = concat (map (\<lambda>(path, entry). write_tstr path @ enc_entry entry) es)"

definition encode_tree_body :: "tree \<Rightarrow> bytes result" where
  "encode_tree_body t =
     (if length (entries t) > MAX_TREE_ENTRIES then Err (Verify ''tree exceeds MAX_TREE_ENTRIES'')
      else Ok (write_map_header 1 @ write_u64 1 @ write_map_header (length (entries t)) @ enc_entries (entries t)))"

definition encode_tree_wire :: "tree \<Rightarrow> bytes result" where
  "encode_tree_wire t = tryr (encode_tree_body t) (\<lambda>body. Ok (frame DOMAIN_TREE body))"

definition tree_cid :: "ext \<Rightarrow> tree \<Rightarrow> content_hash result" where
  "tree_cid X t = tryr (encode_tree_wire t) (\<lambda>w. Ok (cid_of X w))"

section \<open>Decoding\<close>

definition read_cid :: "string \<Rightarrow> cursor \<Rightarrow> (content_hash \<times> cursor) result" where
  "read_cid msg c = tryr (read_bstr c) (\<lambda>(b, c). if length b \<noteq> 32 then Err (Verify msg) else Ok (CH b, c))"

fun read_cids :: "string \<Rightarrow> nat \<Rightarrow> content_hash list \<Rightarrow> cursor \<Rightarrow> (content_hash list \<times> cursor) result" where
  "read_cids msg 0 acc c = Ok (acc, c)"
| "read_cids msg (Suc n) acc c = tryr (read_cid msg c) (\<lambda>(h, c). read_cids msg n (acc @ [h]) c)"

text \<open>The local variables of the loop over the keys of one entry.\<close>

record entry_st =
  es_type :: "u64 option"
  es_size :: "u64 option"
  es_chunks :: "content_hash list option"
  es_dir :: "content_hash option"
  es_last :: "u64 option"

definition entry_init :: entry_st where
  "entry_init = \<lparr>es_type = None, es_size = None, es_chunks = None, es_dir = None, es_last = None\<rparr>"

definition out_of_order :: "u64 option \<Rightarrow> u64 \<Rightarrow> bool" where
  "out_of_order last_k k = (case last_k of Some prev \<Rightarrow> k \<le> prev | None \<Rightarrow> False)"

definition entry_step :: "entry_st \<times> cursor \<Rightarrow> (entry_st \<times> cursor) result" where
  "entry_step = (\<lambda>(st, c).
     tryr (read_u64_value c) (\<lambda>(k, c).
       if out_of_order (es_last st) k then Err (Verify ''entry map keys not sorted'')
       else let st = st\<lparr>es_last := Some k\<rparr> in
         if k = 1 then tryr (read_u64_value c) (\<lambda>(v, c). Ok (st\<lparr>es_type := Some v\<rparr>, c))
         else if k = 2 then
           (if es_type st = Some 1 then
              tryr (read_cid ''Dir hash must be 32 bytes'' c) (\<lambda>(h, c). Ok (st\<lparr>es_dir := Some h\<rparr>, c))
            else tryr (read_u64_value c) (\<lambda>(v, c). Ok (st\<lparr>es_size := Some v\<rparr>, c)))
         else if k = 3 then
           tryr (read_array_header c) (\<lambda>(alen, c).
             tryr (with_capacity 32 alen) (\<lambda>_.
               tryr (read_cids ''chunk CID must be 32 bytes'' alen [] c) (\<lambda>(ch, c).
                 Ok (st\<lparr>es_chunks := Some ch\<rparr>, c))))
         else Err (Verify (''unknown TreeEntry key '' @ dec_string (unat k)))))"

definition entry_done :: "entry_st \<Rightarrow> tree_entry result" where
  "entry_done st =
     (if es_type st = Some 0 then
        tryr (ok_or (Verify ''File missing size'') (es_size st)) (\<lambda>sz.
          tryr (ok_or (Verify ''File missing chunks'') (es_chunks st)) (\<lambda>ch. Ok (File sz ch)))
      else if es_type st = Some 1 then
        tryr (ok_or (Verify ''Dir missing hash'') (es_dir st)) (\<lambda>h. Ok (Dir h))
      else Err (Verify ''TreeEntry missing/invalid type''))"

definition tree_step ::
  "tree \<times> string option \<times> cursor \<Rightarrow> (tree \<times> string option \<times> cursor) result"
where
  "tree_step = (\<lambda>(t, last_path, c).
     tryr (read_tstr c) (\<lambda>(path, c).
       if (case last_path of Some prev \<Rightarrow> path \<le> prev | None \<Rightarrow> False) then
         Err (Verify ''tree entry keys not strictly sorted'')
       else tryr (validate_path path) (\<lambda>_.
         tryr (read_map_header c) (\<lambda>(em, c).
           tryr (repeat_res entry_step em (entry_init, c)) (\<lambda>(st, c).
             tryr (entry_done st) (\<lambda>entry.
               Ok (t\<lparr>entries := om_insert path entry (entries t)\<rparr>, Some path, c)))))))"

definition decode_tree_body :: "bytes \<Rightarrow> tree result" where
  "decode_tree_body data =
     tryr (read_map_header (cursor_new data)) (\<lambda>(n, c).
       if n \<noteq> 1 then Err (Verify ''TreeBody must have exactly key 1'')
       else tryr (read_u64_value c) (\<lambda>(key, c).
         if key \<noteq> 1 then Err (Verify (''unexpected TreeBody key '' @ dec_string (unat key)))
         else tryr (read_map_header c) (\<lambda>(n_entries, c).
           if n_entries > MAX_TREE_ENTRIES then Err (Verify ''tree exceeds MAX_TREE_ENTRIES'')
           else tryr (repeat_res tree_step n_entries (tree_new, None, c)) (\<lambda>(t, last_path, c).
             tryr (cursor_finish c) (\<lambda>_. Ok t)))))"

definition decode_tree_wire :: "bytes \<Rightarrow> tree result" where
  "decode_tree_wire wire = tryr (unframe DOMAIN_TREE wire) decode_tree_body"

text \<open>\<open>Tree::from_bytes\<close> and the dual reader \<open>Tree::from_wire_or_json\<close>.\<close>

definition tree_from_bytes :: "ext \<Rightarrow> bytes \<Rightarrow> tree result" where
  "tree_from_bytes X data = ok_or Serde (x_tree_of_json X data)"

definition tree_from_wire_or_json :: "ext \<Rightarrow> bytes \<Rightarrow> tree result" where
  "tree_from_wire_or_json X data =
     (if has_domain DOMAIN_TREE data then decode_tree_wire data else tree_from_bytes X data)"

definition tree_canonical_bytes :: "ext \<Rightarrow> tree \<Rightarrow> bytes result" where
  "tree_canonical_bytes X t = ok_or Serde (x_tree_json X t)"

definition tree_legacy_hash :: "ext \<Rightarrow> tree \<Rightarrow> content_hash result" where
  "tree_legacy_hash X t = tryr (tree_canonical_bytes X t) (\<lambda>b. Ok (hash_of X b))"

section \<open>Round trip\<close>

lemma read_cid_cur [cbor_read]:
  "wf_hash h \<Longrightarrow> length pre + (length (write_bstr (hash_bytes h)) + length r) < 2 ^ 64 \<Longrightarrow>
    read_cid msg (cur pre (write_bstr (hash_bytes h) @ r)) = Ok (h, cur (pre @ write_bstr (hash_bytes h)) r)"
  by (simp add: read_cid_def cbor_read wf_hash_def)

lemma read_cids_cur [cbor_read]:
  "list_all wf_hash hs \<Longrightarrow> length pre + (length (enc_cids hs) + length r) < 2 ^ 64 \<Longrightarrow>
    read_cids msg (length hs) acc (cur pre (enc_cids hs @ r)) = Ok (acc @ hs, cur (pre @ enc_cids hs) r)"
proof (induction hs arbitrary: acc pre)
  case (Cons h hs)
  then show ?case by (simp add: enc_cids_def cbor_read)
qed (simp add: enc_cids_def)

lemma length_write_bstr: "length (write_bstr d) \<ge> length d"
  by (simp add: write_bstr_def)

lemma length_enc_cids: "list_all wf_hash hs \<Longrightarrow> 32 * length hs \<le> length (enc_cids hs)"
proof (induction hs)
  case (Cons h hs)
  then show ?case using length_write_bstr [of "hash_bytes h"] by (simp add: enc_cids_def wf_hash_def)
qed (simp add: enc_cids_def)

lemma decode_entry_cur:
  assumes "wf_entry e" "length pre + (length (enc_entry e) + length r) < 2 ^ 63"
  shows "tryr (read_map_header (cur pre (enc_entry e @ r))) (\<lambda>(em, c).
      tryr (repeat_res entry_step em (entry_init, c)) (\<lambda>(st, c).
        tryr (entry_done st) (\<lambda>e. Ok (e, c)))) = Ok (e, cur (pre @ enc_entry e) r)"
proof (cases e)
  case (File sz ch)
  have "32 * length ch \<le> length (enc_cids ch)" using assms(1) File by (intro length_enc_cids) simp
  with assms(2) File have len: "length ch * 32 < 2 ^ 63" by simp
  show ?thesis
    using assms File len
    by (simp add: cbor_read entry_step_def entry_init_def entry_done_def
        out_of_order_def with_capacity_def word_le_nat_alt)
next
  case (Dir h)
  with assms show ?thesis
    by (simp add: cbor_read entry_step_def entry_init_def entry_done_def
        out_of_order_def word_le_nat_alt)
qed


lemma tree_step_cur:
  assumes "utf8_str p" "valid_path p" "wf_entry e"
    and "\<And>q. last_path = Some q \<Longrightarrow> q < p"
    and "length pre + (length (write_tstr p) + (length (enc_entry e) + length r)) < 2 ^ 63"
  shows "tree_step (t, last_path, cur pre (write_tstr p @ enc_entry e @ r)) =
    Ok (t\<lparr>entries := om_insert p e (entries t)\<rparr>, Some p, cur (pre @ write_tstr p @ enc_entry e) r)"
proof -
  have v: "validate_path p = Ok ()" using assms(2) by (simp add: validate_path_iff)
  have ord: "\<not> (case last_path of Some prev \<Rightarrow> p \<le> prev | None \<Rightarrow> False)"
    using assms(4) by (auto split: option.splits)
  have rd: "read_tstr (cur pre (write_tstr p @ enc_entry e @ r)) =
      Ok (p, cur (pre @ write_tstr p) (enc_entry e @ r))"
    using assms(1,5) by (intro read_tstr_cur) simp_all
  have len: "length (pre @ write_tstr p) + (length (enc_entry e) + length r) < 2 ^ 63"
    using assms(5) by simp
  from decode_entry_cur [OF assms(3) len] obtain em c st c2 where
    "read_map_header (cur (pre @ write_tstr p) (enc_entry e @ r)) = Ok (em, c)"
    "repeat_res entry_step em (entry_init, c) = Ok (st, c2)" "entry_done st = Ok e"
    "c2 = cur (pre @ write_tstr p @ enc_entry e) r"
    by (auto elim!: tryr_OkE)
  with rd v ord show ?thesis by (simp add: tree_step_def)
qed

lemma decode_entries_cur:
  assumes "om_wf (entries t @ es)" "list_all (\<lambda>(p, e). utf8_str p \<and> valid_path p \<and> wf_entry e) es"
    and "last_path = (if entries t = [] then None else Some (fst (last (entries t))))"
    and "length pre + (length (enc_entries es) + length r) < 2 ^ 63"
  shows "\<exists>l. repeat_res tree_step (length es) (t, last_path, cur pre (enc_entries es @ r)) =
    Ok (t\<lparr>entries := entries t @ es\<rparr>, l, cur (pre @ enc_entries es) r)"
  using assms
proof (induction es arbitrary: t last_path pre)
  case (Cons x es)
  obtain p e where x: "x = (p, e)" by (cases x)
  have below: "\<forall>q\<in>set (map fst (entries t)). q < p"
    using Cons.prems(1) x by (auto simp: om_wf_def sorted_wrt_append)
  have enc: "enc_entries (x # es) = write_tstr p @ enc_entry e @ enc_entries es"
    by (simp add: enc_entries_def x)
  have step: "tree_step (t, last_path, cur pre (write_tstr p @ enc_entry e @ enc_entries es @ r)) =
      Ok (t\<lparr>entries := om_insert p e (entries t)\<rparr>, Some p,
          cur (pre @ write_tstr p @ enc_entry e) (enc_entries es @ r))"
    by (rule tree_step_cur)
      (use Cons.prems below x enc in \<open>auto split: if_splits intro: last_in_set\<close>)
  define t' where "t' = t\<lparr>entries := entries t @ [x]\<rparr>"
  have ins: "t\<lparr>entries := om_insert p e (entries t)\<rparr> = t'"
    using om_insert_snoc [OF below, of e] x by (simp add: t'_def)
  have "\<exists>l. repeat_res tree_step (length es) (t', Some p, cur (pre @ write_tstr p @ enc_entry e) (enc_entries es @ r)) =
      Ok (t'\<lparr>entries := entries t' @ es\<rparr>, l, cur ((pre @ write_tstr p @ enc_entry e) @ enc_entries es) r)"
    by (rule Cons.IH) (use Cons.prems enc x in \<open>auto simp: t'_def\<close>)
  then show ?case
    using step ins by (simp add: enc t'_def)
qed (simp add: enc_entries_def)

lemma decode_encode_tree_body:
  assumes "wf_tree t" "encode_tree_body t = Ok b" "length b < 2 ^ 63"
  shows "decode_tree_body b = Ok t"
proof -
  let ?n = "length (entries t)"
  have n: "?n \<le> MAX_TREE_ENTRIES"
    and b: "b = write_map_header 1 @ write_u64 1 @ write_map_header ?n @ enc_entries (entries t) @ []"
    using assms(2) by (auto simp: encode_tree_body_def split: if_splits)
  have n64: "?n < 2 ^ 64" using n by (simp add: MAX_TREE_ENTRIES_def)
  have es: "om_wf (entries tree_new @ entries t)"
    "list_all (\<lambda>(p, e). utf8_str p \<and> valid_path p \<and> wf_entry e) (entries t)"
    using assms(1) by (auto simp: wf_tree_def wf_tree_rep_def valid_tree_def tree_new_def list_all_iff)
  let ?pre = "write_map_header 1 @ write_u64 1 @ write_map_header ?n"
  have "\<exists>l. repeat_res tree_step ?n (tree_new, None, cur ?pre (enc_entries (entries t) @ [])) =
      Ok (tree_new\<lparr>entries := entries tree_new @ entries t\<rparr>, l, cur (?pre @ enc_entries (entries t)) [])"
    by (rule decode_entries_cur) (use es assms(3) b in \<open>auto simp: tree_new_def\<close>)
  then obtain l where "repeat_res tree_step ?n (tree_new, None, cur ?pre (enc_entries (entries t))) =
      Ok (t, l, cur (?pre @ enc_entries (entries t)) [])"
    by (auto simp: tree_new_def)
  with n n64 assms(3) b show ?thesis
    by (simp add: decode_tree_body_def cursor_new_cur cbor_read)
qed

lemma decode_encode_tree_wire:
  assumes "wf_tree t" "encode_tree_wire t = Ok w" "length w < 2 ^ 63"
  shows "decode_tree_wire w = Ok t"
proof -
  from assms(2) obtain b where b: "encode_tree_body t = Ok b" "w = frame DOMAIN_TREE b"
    by (auto simp: encode_tree_wire_def elim: tryr_OkE)
  moreover have "length b < 2 ^ 63" using assms(3) b by (simp add: frame_def)
  ultimately show ?thesis
    using decode_encode_tree_body [OF assms(1)] by (simp add: decode_tree_wire_def unframe_frame)
qed

section \<open>What the decoder accepts\<close>

lemma read_tstr_utf8: "read_tstr c = Ok (t, c') \<Longrightarrow> utf8_str t"
  by (auto simp: read_tstr_def split: option.splits dest: from_utf8_SomeD elim!: tryr_OkE)

lemma read_cid_wf: "read_cid msg c = Ok (h, c') \<Longrightarrow> wf_hash h"
  by (auto simp: read_cid_def wf_hash_def split: if_splits elim!: tryr_OkE)

lemma read_cids_wf:
  "read_cids msg n acc c = Ok (hs, c') \<Longrightarrow> list_all wf_hash acc \<Longrightarrow>
    list_all wf_hash hs \<and> length hs = length acc + n"
proof (induction n arbitrary: acc c)
  case (Suc n)
  from Suc.prems(1) obtain h c1 where h: "read_cid msg c = Ok (h, c1)"
    "read_cids msg n (acc @ [h]) c1 = Ok (hs, c')" by (auto elim!: tryr_OkE)
  then have "list_all wf_hash (acc @ [h])" using Suc.prems(2) read_cid_wf by simp
  from Suc.IH [OF h(2) this] show ?case by simp
qed simp

lemma read_cids_wf0: "read_cids msg n [] c = Ok (hs, c') \<Longrightarrow> list_all wf_hash hs"
  by (auto dest: read_cids_wf)

definition wf_entry_st :: "entry_st \<Rightarrow> bool" where
  "wf_entry_st st \<longleftrightarrow> (\<forall>ch. es_chunks st = Some ch \<longrightarrow> list_all wf_hash ch)
     \<and> (\<forall>h. es_dir st = Some h \<longrightarrow> wf_hash h)"

lemma entry_step_wf: "entry_step (st, c) = Ok (st', c') \<Longrightarrow> wf_entry_st st \<Longrightarrow> wf_entry_st st'"
  by (auto simp: entry_step_def wf_entry_st_def Let_def split: if_splits elim!: tryr_OkE)
    (blast intro: read_cid_wf read_cids_wf0)+

lemma entry_loop_wf:
  "repeat_res entry_step n (entry_init, c) = Ok (st, c') \<Longrightarrow> wf_entry_st st"
proof -
  assume r: "repeat_res entry_step n (entry_init, c) = Ok (st, c')"
  have "case (st, c') of (st, c) \<Rightarrow> wf_entry_st st"
  proof (rule repeat_res_inv [OF r])
    show "case (entry_init, c) of (st, c) \<Rightarrow> wf_entry_st st"
      by (simp add: wf_entry_st_def entry_init_def)
  qed (auto intro: entry_step_wf)
  then show ?thesis by simp
qed

lemma entry_done_wf: "entry_done st = Ok e \<Longrightarrow> wf_entry_st st \<Longrightarrow> wf_entry e"
  by (auto simp: entry_done_def wf_entry_st_def res_iff split: if_splits)

lemma wf_tree_insert:
  "wf_tree t \<Longrightarrow> utf8_str p \<Longrightarrow> valid_path p \<Longrightarrow> wf_entry e \<Longrightarrow>
    wf_tree (t\<lparr>entries := om_insert p e (entries t)\<rparr>)"
  by (auto simp: wf_tree_def wf_tree_rep_def valid_tree_def om_wf_insert intro!: list_all_om_insert)

lemma length_om_insert: "length (om_insert k v m) \<le> length m + 1"
  by (induction k v m rule: om_insert.induct) auto

lemma tree_step_wf:
  assumes "tree_step (t, l, c) = Ok (t', l', c')" "wf_tree t"
  shows "wf_tree t' \<and> length (entries t') \<le> length (entries t) + 1"
proof -
  from assms(1) obtain p c1 e st em c2 c3 where *: "read_tstr c = Ok (p, c1)" "valid_path p"
    "repeat_res entry_step em (entry_init, c2) = Ok (st, c3)" "entry_done st = Ok e"
    "t' = t\<lparr>entries := om_insert p e (entries t)\<rparr>"
    by (auto simp: tree_step_def validate_path_iff split: if_splits elim!: tryr_OkE)
  have "wf_entry e" by (rule entry_done_wf [OF *(4) entry_loop_wf [OF *(3)]])
  with * assms(2) read_tstr_utf8 [OF *(1)] show ?thesis
    by (simp add: wf_tree_insert) (use length_om_insert [of p e "entries t"] in simp)
qed

lemma tree_loop_wf:
  "repeat_res tree_step n (t, l, c) = Ok (t', l', c') \<Longrightarrow> wf_tree t \<Longrightarrow>
    wf_tree t' \<and> length (entries t') \<le> length (entries t) + n"
proof (induction n arbitrary: t l c)
  case (Suc n)
  from Suc.prems(1) obtain t1 l1 c1 where s: "tree_step (t, l, c) = Ok (t1, l1, c1)"
    "repeat_res tree_step n (t1, l1, c1) = Ok (t', l', c')" by (auto elim!: tryr_OkE)
  from tree_step_wf [OF s(1) Suc.prems(2)] Suc.IH [OF s(2)] show ?case by auto
qed simp

lemma decode_tree_body_wf:
  "decode_tree_body d = Ok t \<Longrightarrow> wf_tree t \<and> length (entries t) \<le> MAX_TREE_ENTRIES"
proof -
  assume "decode_tree_body d = Ok t"
  then obtain n c l c' where n: "n \<le> MAX_TREE_ENTRIES"
    "repeat_res tree_step n (tree_new, None, c) = Ok (t, l, c')"
    by (auto simp: decode_tree_body_def not_less split: if_splits elim!: tryr_OkE)
  from tree_loop_wf [OF n(2) wf_tree_new] n(1) show ?thesis by (simp add: tree_new_def)
qed

lemma decode_tree_wire_wf:
  "decode_tree_wire w = Ok t \<Longrightarrow> wf_tree t \<and> length (entries t) \<le> MAX_TREE_ENTRIES"
  by (auto simp: decode_tree_wire_def elim!: tryr_OkE dest: decode_tree_body_wf)

section \<open>Identifiers of trees\<close>

interpretation tw: framed_codec wf_tree encode_tree_wire decode_tree_wire "\<lambda>t. t" DOMAIN_TREE
proof unfold_locales
  show "decode_tree_wire b = Ok t" if "wf_tree t" "encode_tree_wire t = Ok b" "length b < 2 ^ 63" for t b
    using that by (rule decode_encode_tree_wire)
  show "has_domain DOMAIN_TREE b" if "encode_tree_wire t = Ok b" for t b
    using that by (auto simp: encode_tree_wire_def has_domain_frame elim!: tryr_OkE)
  show "has_domain DOMAIN_TREE b" if "decode_tree_wire b = Ok t" for t b
    using that by (auto simp: decode_tree_wire_def unframe_Ok has_domain_frame elim!: tryr_OkE)
qed

lemma encode_tree_wire_eq:
  "encode_tree_wire t = Ok w \<longleftrightarrow> length (entries t) \<le> MAX_TREE_ENTRIES
    \<and> w = frame DOMAIN_TREE (write_map_header 1 @ write_u64 1 @ write_map_header (length (entries t)) @ enc_entries (entries t))"
  by (auto simp: encode_tree_wire_def encode_tree_body_def split: if_splits)

lemma has_domain_encode_tree: "encode_tree_wire t = Ok w \<Longrightarrow> has_domain DOMAIN_TREE w"
  by (auto simp: encode_tree_wire_eq has_domain_frame)

lemma encode_tree_wire_not_Panic [simp]: "encode_tree_wire t \<noteq> Panic"
  by (auto simp: encode_tree_wire_def encode_tree_body_def)

lemma tree_cid_iff: "tree_cid X t = Ok h \<longleftrightarrow> (\<exists>w. encode_tree_wire t = Ok w \<and> h = hash_of X w)"
  by (auto simp: tree_cid_def cid_of_def tryr_eq_Ok)

end
