(* ===== verification/CommitCodec.thy ===== *)
theory CommitCodec
  imports TreeCodec
begin

text \<open>
  Commits (\<open>src/src/commit.rs\<close> and the commit section of \<open>src/src/codec.rs\<close>): construction,
  the signature field, the wire body with its seven keys, the sign preimage without the
  signature, and the decoder as a loop over its local variables. A commit does not come back
  from the wire unchanged: its author becomes the hex form of the 32-byte field, version 0
  becomes 1, an absent signature becomes 64 zero bytes. That normal form is computed here, and
  shown to have the same wire bytes, hence the same CID.
\<close>

section \<open>Construction and fields\<close>

definition commit_new ::
  "u64 \<Rightarrow> content_hash \<Rightarrow> content_hash list \<Rightarrow> string \<Rightarrow> string \<Rightarrow> commit" where
  "commit_new now tr parents author message =
     \<lparr>c_tree = tr, c_parents = parents, c_author = author, c_timestamp = now, c_message = message,
      c_protocol_version = ucast PROTOCOL_VERSION, c_signature = None\<rparr>"

definition zero_sig :: bytes where
  "zero_sig = replicate 64 0"

definition signature_bytes :: "ext \<Rightarrow> commit \<Rightarrow> bytes" where
  "signature_bytes X c =
     (case c_signature c of
        Some hex_sig \<Rightarrow>
          (case x_hex_dec X (str_trim hex_sig) of
             Some bs \<Rightarrow> if length bs = 64 then bs else zero_sig
           | None \<Rightarrow> zero_sig)
      | None \<Rightarrow> zero_sig)"

definition commit_is_signed :: "ext \<Rightarrow> commit \<Rightarrow> bool" where
  "commit_is_signed X c \<longleftrightarrow> signature_bytes X c \<noteq> zero_sig"

definition author_to_bytes :: "ext \<Rightarrow> string \<Rightarrow> bytes" where
  "author_to_bytes X author =
     (case from_hex X author of
        Ok h \<Rightarrow> hash_bytes h
      | _ \<Rightarrow> x_blake3 X (as_bytes ''soal-author:'' @ as_bytes author))"

definition author_from_bytes :: "ext \<Rightarrow> bytes \<Rightarrow> string" where
  "author_from_bytes X bs = x_hex_enc X bs"

text \<open>\<open>if commit.protocol_version == 0 { PROTOCOL_VERSION } else { ... as u64 }\<close>.\<close>

definition wire_version :: "commit \<Rightarrow> u64" where
  "wire_version c = (if c_protocol_version c = 0 then PROTOCOL_VERSION else ucast (c_protocol_version c))"

section \<open>Encoding\<close>

definition encode_commit_body :: "ext \<Rightarrow> commit \<Rightarrow> bytes result" where
  "encode_commit_body X c =
     (if length (c_parents c) > MAX_COMMIT_PARENTS then Err (Verify ''too many parents'')
      else Ok (write_map_header 7 @
        write_u64 1 @ write_bstr (hash_bytes (c_tree c)) @
        write_u64 2 @ write_array_header (length (c_parents c)) @ enc_cids (c_parents c) @
        write_u64 3 @ write_bstr (author_to_bytes X (c_author c)) @
        write_u64 4 @ write_u64 (c_timestamp c) @
        write_u64 5 @ write_tstr (c_message c) @
        write_u64 6 @ write_u64 (wire_version c) @
        write_u64 7 @ write_bstr (signature_bytes X c)))"

definition encode_commit_sign_body :: "ext \<Rightarrow> commit \<Rightarrow> bytes result" where
  "encode_commit_sign_body X c =
     (if length (c_parents c) > MAX_COMMIT_PARENTS then Err (Verify ''too many parents'')
      else Ok (write_map_header 6 @
        write_u64 1 @ write_bstr (hash_bytes (c_tree c)) @
        write_u64 2 @ write_array_header (length (c_parents c)) @ enc_cids (c_parents c) @
        write_u64 3 @ write_bstr (author_to_bytes X (c_author c)) @
        write_u64 4 @ write_u64 (c_timestamp c) @
        write_u64 5 @ write_tstr (c_message c) @
        write_u64 6 @ write_u64 (wire_version c)))"

definition commit_sign_message :: "ext \<Rightarrow> commit \<Rightarrow> bytes result" where
  "commit_sign_message X c = tryr (encode_commit_sign_body X c) (\<lambda>body. Ok (frame DOMAIN_COMMIT body))"

definition encode_commit_wire :: "ext \<Rightarrow> commit \<Rightarrow> bytes result" where
  "encode_commit_wire X c = tryr (encode_commit_body X c) (\<lambda>body. Ok (frame DOMAIN_COMMIT body))"

definition commit_cid :: "ext \<Rightarrow> commit \<Rightarrow> content_hash result" where
  "commit_cid X c = tryr (encode_commit_wire X c) (\<lambda>w. Ok (cid_of X w))"

section \<open>Decoding\<close>

record commit_st =
  cs_tree :: "content_hash option"
  cs_parents :: "content_hash list option"
  cs_author :: "string option"
  cs_timestamp :: "u64 option"
  cs_message :: "string option"
  cs_version :: "u16 option"
  cs_signature :: "bytes option"
  cs_last :: "u64 option"

definition commit_init :: commit_st where
  "commit_init = \<lparr>cs_tree = None, cs_parents = None, cs_author = None, cs_timestamp = None,
     cs_message = None, cs_version = None, cs_signature = None, cs_last = None\<rparr>"

text \<open>A byte string of an exact length, with the error of the caller.\<close>

definition read_fixed :: "nat \<Rightarrow> string \<Rightarrow> cursor \<Rightarrow> (bytes \<times> cursor) result" where
  "read_fixed n msg c = tryr (read_bstr c) (\<lambda>(b, c). if length b \<noteq> n then Err (Verify msg) else Ok (b, c))"

definition commit_step :: "ext \<Rightarrow> commit_st \<times> cursor \<Rightarrow> (commit_st \<times> cursor) result" where
  "commit_step X = (\<lambda>(st, c).
     tryr (read_u64_value c) (\<lambda>(k, c).
       if out_of_order (cs_last st) k then Err (Verify ''CommitBody keys not sorted'')
       else let st = st\<lparr>cs_last := Some k\<rparr> in
         if k = 1 then
           tryr (read_fixed 32 ''tree CID len'' c) (\<lambda>(b, c). Ok (st\<lparr>cs_tree := Some (CH b)\<rparr>, c))
         else if k = 2 then
           tryr (read_array_header c) (\<lambda>(alen, c).
             if alen > MAX_COMMIT_PARENTS then Err (Verify ''too many parents'')
             else tryr (read_cids ''parent CID len'' alen [] c) (\<lambda>(ps, c).
               Ok (st\<lparr>cs_parents := Some ps\<rparr>, c)))
         else if k = 3 then
           tryr (read_fixed 32 ''author len'' c) (\<lambda>(b, c).
             Ok (st\<lparr>cs_author := Some (author_from_bytes X b)\<rparr>, c))
         else if k = 4 then
           tryr (read_u64_value c) (\<lambda>(v, c). Ok (st\<lparr>cs_timestamp := Some v\<rparr>, c))
         else if k = 5 then
           tryr (read_tstr c) (\<lambda>(s, c). Ok (st\<lparr>cs_message := Some s\<rparr>, c))
         else if k = 6 then
           tryr (read_u64_value c) (\<lambda>(v, c).
             if v > 65535 then Err (Verify ''protocol_version overflow'')
             else Ok (st\<lparr>cs_version := Some (ucast v)\<rparr>, c))
         else if k = 7 then
           tryr (read_fixed 64 ''signature must be 64 bytes'' c) (\<lambda>(b, c).
             Ok (st\<lparr>cs_signature := Some b\<rparr>, c))
         else Err (Verify (''unknown CommitBody key '' @ dec_string (unat k)))))"

definition commit_done :: "ext \<Rightarrow> commit_st \<Rightarrow> commit result" where
  "commit_done X st =
     tryr (ok_or (Verify ''missing tree'') (cs_tree st)) (\<lambda>tr.
     tryr (ok_or (Verify ''missing parents'') (cs_parents st)) (\<lambda>parents.
     tryr (ok_or (Verify ''missing author'') (cs_author st)) (\<lambda>author.
     tryr (ok_or (Verify ''missing timestamp'') (cs_timestamp st)) (\<lambda>timestamp.
     tryr (ok_or (Verify ''missing message'') (cs_message st)) (\<lambda>message.
       Ok \<lparr>c_tree = tr, c_parents = parents, c_author = author, c_timestamp = timestamp,
           c_message = message,
           c_protocol_version = (case cs_version st of Some v \<Rightarrow> v | None \<Rightarrow> 1),
           c_signature = map_option (x_hex_enc X) (cs_signature st)\<rparr>)))))"

definition decode_commit_body :: "ext \<Rightarrow> bytes \<Rightarrow> commit result" where
  "decode_commit_body X data =
     tryr (read_map_header (cursor_new data)) (\<lambda>(n, c).
       if n \<noteq> 7 then Err (Verify (''CommitBody must have 7 keys, got '' @ dec_string n))
       else tryr (repeat_res (commit_step X) n (commit_init, c)) (\<lambda>(st, c).
         tryr (cursor_finish c) (\<lambda>_. commit_done X st)))"

definition decode_commit_wire :: "ext \<Rightarrow> bytes \<Rightarrow> commit result" where
  "decode_commit_wire X wire = tryr (unframe DOMAIN_COMMIT wire) (decode_commit_body X)"

text \<open>The dual reader and the legacy JSON hash.\<close>

definition commit_from_bytes :: "ext \<Rightarrow> bytes \<Rightarrow> commit result" where
  "commit_from_bytes X data = ok_or Serde (x_commit_of_json X data)"

definition commit_from_wire_or_json :: "ext \<Rightarrow> bytes \<Rightarrow> commit result" where
  "commit_from_wire_or_json X data =
     (if has_domain DOMAIN_COMMIT data then decode_commit_wire X data else commit_from_bytes X data)"

definition legacy_json_bytes :: "ext \<Rightarrow> commit \<Rightarrow> bytes result" where
  "legacy_json_bytes X c =
     ok_or Serde (x_legacy_json X (c_tree c, c_parents c, c_author c, c_timestamp c, c_message c))"

definition legacy_json_hash :: "ext \<Rightarrow> commit \<Rightarrow> content_hash result" where
  "legacy_json_hash X c = tryr (legacy_json_bytes X c) (\<lambda>b. Ok (hash_of X b))"

section \<open>Round trip up to the normal form\<close>

definition wf_commit :: "commit \<Rightarrow> bool" where
  "wf_commit c \<longleftrightarrow> wf_hash (c_tree c) \<and> list_all wf_hash (c_parents c) \<and> utf8_str (c_message c)"

definition commit_norm :: "ext \<Rightarrow> commit \<Rightarrow> commit" where
  "commit_norm X c = c\<lparr>
     c_author := author_from_bytes X (author_to_bytes X (c_author c)),
     c_protocol_version := (if c_protocol_version c = 0 then 1 else c_protocol_version c),
     c_signature := Some (x_hex_enc X (signature_bytes X c))\<rparr>"

lemma length_signature_bytes [simp]: "length (signature_bytes X c) = 64"
  by (auto simp: signature_bytes_def zero_sig_def split: option.splits)

lemma length_author_to_bytes: "hash_law X \<Longrightarrow> length (author_to_bytes X a) = 32"
  by (auto simp: author_to_bytes_def wf_hash_def split: res.splits dest: from_hex_wf)

lemma read_fixed_cur [cbor_read]:
  "length d = n \<Longrightarrow> length pre + (length (write_bstr d) + length r) < 2 ^ 64 \<Longrightarrow>
    read_fixed n msg (cur pre (write_bstr d @ r)) = Ok (d, cur (pre @ write_bstr d) r)"
  by (simp add: read_fixed_def cbor_read)

lemma unat_u16_less: "unat (v :: u16) < 65536"
  using unsigned_less [of v] by simp

lemma unat_ucast_16_64: "unat (ucast (v :: u16) :: u64) = unat v"
  using unat_u16_less [of v] by (simp add: unsigned_ucast_eq take_bit_eq_mod)

lemma wire_version_16:
  "\<not> wire_version c > 65535"
  "ucast (wire_version c) = (if c_protocol_version c = 0 then 1 else c_protocol_version c)"
  using unat_u16_less [of "c_protocol_version c"]
  by (auto simp: wire_version_def PROTOCOL_VERSION_def word_less_nat_alt word_unat_eq_iff
      unat_ucast_16_64 unat_ucast_u16)

text \<open>One lemma per key of the body.\<close>

named_theorems commit_read \<open>one round of the commit decoder on the bytes of one key\<close>

lemma commit_step_tree [commit_read]:
  "\<not> out_of_order (cs_last st) 1 \<Longrightarrow> wf_hash h \<Longrightarrow>
    length pre + (length (write_u64 1) + (length (write_bstr (hash_bytes h)) + length r)) < 2 ^ 64 \<Longrightarrow>
    commit_step X (st, cur pre (write_u64 1 @ write_bstr (hash_bytes h) @ r)) =
      Ok (st\<lparr>cs_last := Some 1, cs_tree := Some h\<rparr>, cur (pre @ write_u64 1 @ write_bstr (hash_bytes h)) r)"
  by (simp add: commit_step_def cbor_read wf_hash_def)

lemma commit_step_parents [commit_read]:
  "\<not> out_of_order (cs_last st) 2 \<Longrightarrow> list_all wf_hash hs \<Longrightarrow> length hs \<le> MAX_COMMIT_PARENTS \<Longrightarrow>
    length pre + (length (write_u64 2) + (length (write_array_header (length hs))
      + (length (enc_cids hs) + length r))) < 2 ^ 64 \<Longrightarrow>
    commit_step X (st, cur pre (write_u64 2 @ write_array_header (length hs) @ enc_cids hs @ r)) =
      Ok (st\<lparr>cs_last := Some 2, cs_parents := Some hs\<rparr>,
        cur (pre @ write_u64 2 @ write_array_header (length hs) @ enc_cids hs) r)"
  by (simp add: commit_step_def cbor_read MAX_COMMIT_PARENTS_def)

lemma commit_step_author [commit_read]:
  "\<not> out_of_order (cs_last st) 3 \<Longrightarrow> length a = 32 \<Longrightarrow>
    length pre + (length (write_u64 3) + (length (write_bstr a) + length r)) < 2 ^ 64 \<Longrightarrow>
    commit_step X (st, cur pre (write_u64 3 @ write_bstr a @ r)) =
      Ok (st\<lparr>cs_last := Some 3, cs_author := Some (author_from_bytes X a)\<rparr>,
        cur (pre @ write_u64 3 @ write_bstr a) r)"
  by (simp add: commit_step_def cbor_read)

lemma commit_step_timestamp [commit_read]:
  "\<not> out_of_order (cs_last st) 4 \<Longrightarrow>
    length pre + (length (write_u64 4) + (length (write_u64 v) + length r)) < 2 ^ 64 \<Longrightarrow>
    commit_step X (st, cur pre (write_u64 4 @ write_u64 v @ r)) =
      Ok (st\<lparr>cs_last := Some 4, cs_timestamp := Some v\<rparr>, cur (pre @ write_u64 4 @ write_u64 v) r)"
  by (simp add: commit_step_def cbor_read)

lemma commit_step_message [commit_read]:
  "\<not> out_of_order (cs_last st) 5 \<Longrightarrow> utf8_str m \<Longrightarrow>
    length pre + (length (write_u64 5) + (length (write_tstr m) + length r)) < 2 ^ 64 \<Longrightarrow>
    commit_step X (st, cur pre (write_u64 5 @ write_tstr m @ r)) =
      Ok (st\<lparr>cs_last := Some 5, cs_message := Some m\<rparr>, cur (pre @ write_u64 5 @ write_tstr m) r)"
  by (simp add: commit_step_def cbor_read)

lemma commit_step_version [commit_read]:
  "\<not> out_of_order (cs_last st) 6 \<Longrightarrow> \<not> v > 65535 \<Longrightarrow>
    length pre + (length (write_u64 6) + (length (write_u64 v) + length r)) < 2 ^ 64 \<Longrightarrow>
    commit_step X (st, cur pre (write_u64 6 @ write_u64 v @ r)) =
      Ok (st\<lparr>cs_last := Some 6, cs_version := Some (ucast v)\<rparr>, cur (pre @ write_u64 6 @ write_u64 v) r)"
  by (simp add: commit_step_def cbor_read)

lemma commit_step_signature [commit_read]:
  "\<not> out_of_order (cs_last st) 7 \<Longrightarrow> length s = 64 \<Longrightarrow>
    length pre + (length (write_u64 7) + (length (write_bstr s) + length r)) < 2 ^ 64 \<Longrightarrow>
    commit_step X (st, cur pre (write_u64 7 @ write_bstr s @ r)) =
      Ok (st\<lparr>cs_last := Some 7, cs_signature := Some s\<rparr>, cur (pre @ write_u64 7 @ write_bstr s) r)"
  by (simp add: commit_step_def cbor_read)

lemma out_of_order_simps [simp]:
  "\<not> out_of_order None k" "out_of_order (Some j) k \<longleftrightarrow> k \<le> j"
  by (simp_all add: out_of_order_def)

lemma decode_encode_commit_body:
  assumes "hash_law X" "wf_commit c" "encode_commit_body X c = Ok b" "length b < 2 ^ 63"
  shows "decode_commit_body X b = Ok (commit_norm X c)"
proof -
  have wf: "wf_hash (c_tree c)" "list_all wf_hash (c_parents c)" "utf8_str (c_message c)"
    using assms(2) by (auto simp: wf_commit_def)
  note fields = wf length_author_to_bytes [OF assms(1)] wire_version_16
  have n: "length (c_parents c) \<le> MAX_COMMIT_PARENTS" using assms(3)
    by (auto simp: encode_commit_body_def split: if_splits)
  have b: "b = write_map_header 7 @
        write_u64 1 @ write_bstr (hash_bytes (c_tree c)) @
        write_u64 2 @ write_array_header (length (c_parents c)) @ enc_cids (c_parents c) @
        write_u64 3 @ write_bstr (author_to_bytes X (c_author c)) @
        write_u64 4 @ write_u64 (c_timestamp c) @
        write_u64 5 @ write_tstr (c_message c) @
        write_u64 6 @ write_u64 (wire_version c) @
        write_u64 7 @ write_bstr (signature_bytes X c) @ []"
    using assms(3) by (auto simp: encode_commit_body_def split: if_splits)
  have l: "length (write_map_header 7) + (length (write_u64 1) + (length (write_bstr (hash_bytes (c_tree c)))
        + (length (write_u64 2) + (length (write_array_header (length (c_parents c)))
        + (length (enc_cids (c_parents c)) + (length (write_u64 3)
        + (length (write_bstr (author_to_bytes X (c_author c))) + (length (write_u64 4)
        + (length (write_u64 (c_timestamp c)) + (length (write_u64 5) + (length (write_tstr (c_message c))
        + (length (write_u64 6) + (length (write_u64 (wire_version c)) + (length (write_u64 7)
        + length (write_bstr (signature_bytes X c)))))))))))))))) < 2 ^ 63"
    using assms(4) by (simp add: b)
  show ?thesis
    unfolding b using l n fields
    by (simp add: decode_commit_body_def cursor_new_cur read_map_header_cur commit_read
        commit_step_signature [where r = "[]", simplified] commit_init_def
        word_le_nat_alt commit_done_def commit_norm_def finish_cur)
qed

lemma decode_encode_commit_wire:
  assumes "hash_law X" "wf_commit c" "encode_commit_wire X c = Ok w" "length w < 2 ^ 63"
  shows "decode_commit_wire X w = Ok (commit_norm X c)"
proof -
  from assms(3) obtain b where b: "encode_commit_body X c = Ok b" "w = frame DOMAIN_COMMIT b"
    by (auto simp: encode_commit_wire_def elim: tryr_OkE)
  moreover have "length b < 2 ^ 63" using assms(4) b by (simp add: frame_def)
  ultimately show ?thesis
    using decode_encode_commit_body [OF assms(1,2)] by (simp add: decode_commit_wire_def unframe_frame)
qed

interpretation cw: framed_codec "\<lambda>c. hash_law X \<and> wf_commit c" "encode_commit_wire X" "decode_commit_wire X"
  "commit_norm X" DOMAIN_COMMIT for X
proof unfold_locales
  show "decode_commit_wire X b = Ok (commit_norm X c)"
    if "hash_law X \<and> wf_commit c" "encode_commit_wire X c = Ok b" "length b < 2 ^ 63" for c b
    using that decode_encode_commit_wire by blast
  show "has_domain DOMAIN_COMMIT b" if "encode_commit_wire X c = Ok b" for c b
    using that by (auto simp: encode_commit_wire_def has_domain_frame elim!: tryr_OkE)
  show "has_domain DOMAIN_COMMIT b" if "decode_commit_wire X b = Ok c" for c b
    using that by (auto simp: decode_commit_wire_def unframe_Ok has_domain_frame elim!: tryr_OkE)
qed

section \<open>The normal form\<close>

lemma author_roundtrip:
  "hex_law X \<Longrightarrow> length a = 32 \<Longrightarrow> author_to_bytes X (author_from_bytes X a) = a"
  using from_to_hex [of X "CH a"]
  by (simp add: author_to_bytes_def author_from_bytes_def to_hex_def wf_hash_def)

lemma signature_roundtrip:
  "hex_law X \<Longrightarrow> length s = 64 \<Longrightarrow> c_signature c = Some (x_hex_enc X s) \<Longrightarrow> signature_bytes X c = s"
  by (simp add: signature_bytes_def hex_trim hex_dec_enc)

lemma signature_bytes_norm: "hex_law X \<Longrightarrow> signature_bytes X (commit_norm X c) = signature_bytes X c"
  by (rule signature_roundtrip) (simp_all add: commit_norm_def)

lemma author_bytes_norm:
  "hash_law X \<Longrightarrow> hex_law X \<Longrightarrow>
    author_to_bytes X (c_author (commit_norm X c)) = author_to_bytes X (c_author c)"
  by (simp add: commit_norm_def author_roundtrip length_author_to_bytes)

lemma wire_version_norm: "wire_version (commit_norm X c) = wire_version c"
  by (simp add: wire_version_def commit_norm_def PROTOCOL_VERSION_def)

lemma commit_norm_fields [simp]:
  "c_tree (commit_norm X c) = c_tree c" "c_parents (commit_norm X c) = c_parents c"
  "c_timestamp (commit_norm X c) = c_timestamp c" "c_message (commit_norm X c) = c_message c"
  by (simp_all add: commit_norm_def)

lemmas norm_bytes = signature_bytes_norm author_bytes_norm wire_version_norm

lemma encode_commit_body_norm:
  "hash_law X \<Longrightarrow> hex_law X \<Longrightarrow> encode_commit_body X (commit_norm X c) = encode_commit_body X c"
  by (simp add: encode_commit_body_def norm_bytes)

lemma commit_sign_message_norm:
  "hash_law X \<Longrightarrow> hex_law X \<Longrightarrow> commit_sign_message X (commit_norm X c) = commit_sign_message X c"
  by (simp add: commit_sign_message_def encode_commit_sign_body_def norm_bytes)

lemma commit_norm_idem:
  "hash_law X \<Longrightarrow> hex_law X \<Longrightarrow> commit_norm X (commit_norm X c) = commit_norm X c"
  by (simp add: commit_norm_def [of X "commit_norm X c"] norm_bytes)
    (simp add: commit_norm_def)

text \<open>The signature is not part of what is signed, and every other wire field is.\<close>

lemma sign_message_signature [simp]:
  "commit_sign_message X (c\<lparr>c_signature := s\<rparr>) = commit_sign_message X c"
  by (simp add: commit_sign_message_def encode_commit_sign_body_def wire_version_def)

text \<open>
  The first bytes of the full body are the sign body, up to the number of keys in its header.
\<close>

lemma sign_body_prefix:
  assumes "encode_commit_sign_body X c = Ok s"
  shows "encode_commit_body X c =
    Ok (write_map_header 7 @ drop 1 s @ write_u64 7 @ write_bstr (signature_bytes X c))"
proof -
  have "length (write_map_header 6) = 1" by (simp add: write_map_header_def length_push_uint)
  with assms show ?thesis
    by (auto simp: encode_commit_sign_body_def encode_commit_body_def split: if_splits)
qed

lemma commit_wire_inj:
  assumes "hash_law X" "wf_commit c" "wf_commit d"
    and "encode_commit_wire X c = Ok w" "encode_commit_wire X d = Ok w" "length w < 2 ^ 63"
  shows "commit_norm X c = commit_norm X d"
  using decode_encode_commit_wire [OF assms(1,2,4,6)] decode_encode_commit_wire [OF assms(1,3,5,6)]
  by simp

text \<open>Equal sign messages mean equal commits up to the signature.\<close>

lemma commit_sign_message_inj:
  assumes "hash_law X" "wf_commit c" "wf_commit d"
    and "commit_sign_message X c = Ok m" "commit_sign_message X d = Ok m" "length m < 2 ^ 62"
  shows "commit_norm X (c\<lparr>c_signature := None\<rparr>) = commit_norm X (d\<lparr>c_signature := None\<rparr>)"
proof -
  let ?c = "c\<lparr>c_signature := None\<rparr>" and ?d = "d\<lparr>c_signature := None\<rparr>"
  have same: "encode_commit_sign_body X ?c = encode_commit_sign_body X c"
    "encode_commit_sign_body X ?d = encode_commit_sign_body X d"
    by (simp_all add: encode_commit_sign_body_def wire_version_def)
  obtain s where s: "encode_commit_sign_body X ?c = Ok s" "encode_commit_sign_body X ?d = Ok s"
      "m = frame DOMAIN_COMMIT s"
    using assms(4,5) same by (auto simp: commit_sign_message_def frame_def elim!: tryr_OkE)
  define b where "b = write_map_header 7 @ drop 1 s @ write_u64 7 @ write_bstr zero_sig"
  have b: "encode_commit_body X ?c = Ok b" "encode_commit_body X ?d = Ok b"
    using sign_body_prefix [OF s(1)] sign_body_prefix [OF s(2)] by (simp_all add: b_def signature_bytes_def)
  have "length b < 2 ^ 63"
    using assms(6) s(3) by (simp add: b_def frame_def write_map_header_def write_u64_def write_bstr_def
        length_push_uint zero_sig_def)
  then show ?thesis
    using decode_encode_commit_body [OF assms(1) _ b(1)] decode_encode_commit_body [OF assms(1) _ b(2)] assms(2,3)
    by (simp add: wf_commit_def)
qed

lemma commit_sign_message_fields:
  assumes "hash_law X" "hex_law X" "wf_commit c" "wf_commit d"
    and "commit_sign_message X c = Ok m" "commit_sign_message X d = Ok m" "length m < 2 ^ 62"
  shows "c_tree c = c_tree d \<and> c_parents c = c_parents d \<and> c_timestamp c = c_timestamp d
    \<and> c_message c = c_message d \<and> author_to_bytes X (c_author c) = author_to_bytes X (c_author d)
    \<and> wire_version c = wire_version d"
proof -
  let ?c = "c\<lparr>c_signature := None\<rparr>" and ?d = "d\<lparr>c_signature := None\<rparr>"
  have n: "commit_norm X ?c = commit_norm X ?d"
    by (rule commit_sign_message_inj [OF assms(1,3-7)])
  have ver: "wire_version ?c = wire_version ?d" by (metis n wire_version_norm)
  have auth: "author_to_bytes X (c_author ?c) = author_to_bytes X (c_author ?d)"
    by (metis n author_bytes_norm [OF assms(1,2)])
  show ?thesis
    using ver auth commit_norm_fields [of X ?c] commit_norm_fields [of X ?d] unfolding n
    by (simp add: wire_version_def cong: if_cong)
qed

section \<open>What the commit decoder accepts\<close>

lemma read_fixed_length: "read_fixed n msg c = Ok (b, c') \<Longrightarrow> length b = n"
  by (auto simp: read_fixed_def split: if_splits elim!: tryr_OkE)

text \<open>The fields as far as they have been read are well formed, key by key.\<close>

definition commit_st_ok :: "ext \<Rightarrow> commit_st \<Rightarrow> bool" where
  "commit_st_ok X st \<longleftrightarrow>
     pred_option wf_hash (cs_tree st)
   \<and> pred_option (\<lambda>ps. list_all wf_hash ps \<and> length ps \<le> MAX_COMMIT_PARENTS) (cs_parents st)
   \<and> pred_option (\<lambda>a. \<exists>b. length b = 32 \<and> a = author_from_bytes X b) (cs_author st)
   \<and> pred_option utf8_str (cs_message st)
   \<and> pred_option (\<lambda>s. length s = 64) (cs_signature st)"

text \<open>Which keys have been read: after \<open>j\<close> rounds the last key is at least \<open>j\<close>.\<close>

definition key_read :: "commit_st \<Rightarrow> nat \<Rightarrow> bool" where
  "key_read st i \<longleftrightarrow>
     (i = 1 \<longrightarrow> cs_tree st \<noteq> None) \<and> (i = 2 \<longrightarrow> cs_parents st \<noteq> None) \<and> (i = 3 \<longrightarrow> cs_author st \<noteq> None)
   \<and> (i = 4 \<longrightarrow> cs_timestamp st \<noteq> None) \<and> (i = 5 \<longrightarrow> cs_message st \<noteq> None)
   \<and> (i = 6 \<longrightarrow> cs_version st \<noteq> None) \<and> (i = 7 \<longrightarrow> cs_signature st \<noteq> None)"

definition keys_upto :: "nat \<Rightarrow> commit_st \<Rightarrow> bool" where
  "keys_upto j st \<longleftrightarrow>
     (let l = (case cs_last st of None \<Rightarrow> 0 | Some k \<Rightarrow> unat k) in
      j \<le> l \<and> l \<le> 7 \<and> (l = j \<longrightarrow> (\<forall>i \<le> j. key_read st i)))"

text \<open>The seven ways a round can succeed.\<close>

lemma commit_step_cases:
  assumes "commit_step X (st, c) = Ok (st', c')"
  shows "\<exists>k. \<not> out_of_order (cs_last st) k \<and>
    (k = 1 \<and> (\<exists>b. length b = 32 \<and> st' = st\<lparr>cs_last := Some k, cs_tree := Some (CH b)\<rparr>)
   \<or> k = 2 \<and> (\<exists>ps. list_all wf_hash ps \<and> length ps \<le> MAX_COMMIT_PARENTS
        \<and> st' = st\<lparr>cs_last := Some k, cs_parents := Some ps\<rparr>)
   \<or> k = 3 \<and> (\<exists>b. length b = 32 \<and> st' = st\<lparr>cs_last := Some k, cs_author := Some (author_from_bytes X b)\<rparr>)
   \<or> k = 4 \<and> (\<exists>v. st' = st\<lparr>cs_last := Some k, cs_timestamp := Some v\<rparr>)
   \<or> k = 5 \<and> (\<exists>m. utf8_str m \<and> st' = st\<lparr>cs_last := Some k, cs_message := Some m\<rparr>)
   \<or> k = 6 \<and> (\<exists>v. st' = st\<lparr>cs_last := Some k, cs_version := Some v\<rparr>)
   \<or> k = 7 \<and> (\<exists>s. length s = 64 \<and> st' = st\<lparr>cs_last := Some k, cs_signature := Some s\<rparr>))"
proof -
  obtain k c1 where k: "read_u64_value c = Ok (k, c1)" "\<not> out_of_order (cs_last st) k"
    using assms by (auto simp: commit_step_def split: if_splits elim!: tryr_OkE)
  note step = assms [unfolded commit_step_def, simplified k tryr.simps prod.case if_False Let_def]
  have cases: "k = 1 \<or> k = 2 \<or> k = 3 \<or> k = 4 \<or> k = 5 \<or> k = 6 \<or> k = 7"
    using step by (auto split: if_splits)
  have two: "list_all wf_hash ps \<and> length ps \<le> MAX_COMMIT_PARENTS"
    if "read_cids msg n [] d = Ok (ps, d')" "\<not> n > MAX_COMMIT_PARENTS" for msg n d ps d'
    using read_cids_wf [OF that(1)] that(2) by simp
  show ?thesis
  proof (rule exI [of _ k], rule conjI [OF k(2)])
    show "k = 1 \<and> (\<exists>b. length b = 32 \<and> st' = st\<lparr>cs_last := Some k, cs_tree := Some (CH b)\<rparr>)
   \<or> k = 2 \<and> (\<exists>ps. list_all wf_hash ps \<and> length ps \<le> MAX_COMMIT_PARENTS
        \<and> st' = st\<lparr>cs_last := Some k, cs_parents := Some ps\<rparr>)
   \<or> k = 3 \<and> (\<exists>b. length b = 32 \<and> st' = st\<lparr>cs_last := Some k, cs_author := Some (author_from_bytes X b)\<rparr>)
   \<or> k = 4 \<and> (\<exists>v. st' = st\<lparr>cs_last := Some k, cs_timestamp := Some v\<rparr>)
   \<or> k = 5 \<and> (\<exists>m. utf8_str m \<and> st' = st\<lparr>cs_last := Some k, cs_message := Some m\<rparr>)
   \<or> k = 6 \<and> (\<exists>v. st' = st\<lparr>cs_last := Some k, cs_version := Some v\<rparr>)
   \<or> k = 7 \<and> (\<exists>s. length s = 64 \<and> st' = st\<lparr>cs_last := Some k, cs_signature := Some s\<rparr>)"
      using cases
    proof (elim disjE)
      assume k2: "k = 2"
      with step obtain n d ps where "read_cids ''parent CID len'' n [] d = Ok (ps, c')"
        "\<not> n > MAX_COMMIT_PARENTS" "st' = st\<lparr>cs_last := Some k, cs_parents := Some ps\<rparr>"
        by (auto split: if_splits elim!: tryr_OkE)
      with two k2 show ?thesis by blast
    qed (use step in \<open>auto split: if_splits elim!: tryr_OkE dest: read_fixed_length read_tstr_utf8\<close>)
  qed
qed

lemma commit_step_ok:
  assumes "commit_step X (st, c) = Ok (st', c')" "commit_st_ok X st"
  shows "commit_st_ok X st'"
  using commit_step_cases [OF assms(1)] assms(2)
  by (elim exE conjE disjE) (auto simp: commit_st_ok_def wf_hash_def)

lemma commit_step_read:
  assumes "commit_step X (st, c) = Ok (st', c')"
  shows "\<exists>k. cs_last st' = Some k \<and> 1 \<le> unat k \<and> unat k \<le> 7 \<and> \<not> out_of_order (cs_last st) k
    \<and> key_read st' (unat k) \<and> (\<forall>i. key_read st i \<longrightarrow> key_read st' i)"
  using commit_step_cases [OF assms] by (elim exE conjE disjE) (auto simp: key_read_def)

lemma commit_step_keys:
  assumes "commit_step X (st, c) = Ok (st', c')" "keys_upto j st"
  shows "keys_upto (Suc j) st'"
proof -
  from commit_step_read [OF assms(1)] obtain k where k: "cs_last st' = Some k" "1 \<le> unat k" "unat k \<le> 7"
    "\<not> out_of_order (cs_last st) k" "key_read st' (unat k)" "\<forall>i. key_read st i \<longrightarrow> key_read st' i" by blast
  define l where "l = (case cs_last st of None \<Rightarrow> 0 | Some k \<Rightarrow> unat k)"
  have l: "j \<le> l" "l = j \<longrightarrow> (\<forall>i \<le> j. key_read st i)"
    using assms(2) by (auto simp: keys_upto_def l_def Let_def)
  have "l < unat k"
    using k(2,4) by (auto simp: l_def word_le_nat_alt split: option.splits)
  with l k show ?thesis by (auto simp: keys_upto_def le_Suc_eq)
qed

lemma commit_steps_keys:
  "repeat_res (commit_step X) n (st, c) = Ok (st', c') \<Longrightarrow> keys_upto j st \<Longrightarrow> keys_upto (j + n) st'"
proof (induction n arbitrary: j st c)
  case (Suc n)
  from Suc.prems(1) obtain s1 c1 where s: "commit_step X (st, c) = Ok (s1, c1)"
    "repeat_res (commit_step X) n (s1, c1) = Ok (st', c')" by (auto elim!: tryr_OkE)
  have "keys_upto (Suc j) s1" by (rule commit_step_keys [OF s(1) Suc.prems(2)])
  from Suc.IH [OF s(2) this] show ?case by simp
qed simp

lemma commit_steps_ok:
  assumes "repeat_res (commit_step X) n (commit_init, c) = Ok (st, c')"
  shows "commit_st_ok X st"
proof -
  have "(\<lambda>(st, c). commit_st_ok X st) (st, c')"
    by (rule repeat_res_inv [OF assms])
      (auto intro: commit_step_ok, simp add: commit_init_def commit_st_ok_def)
  then show ?thesis by simp
qed

lemma decode_commit_body_Ok:
  assumes "decode_commit_body X b = Ok c"
  shows "wf_commit c" "length (c_parents c) \<le> MAX_COMMIT_PARENTS"
    "\<exists>a. length a = 32 \<and> c_author c = author_from_bytes X a"
    "\<exists>s. length s = 64 \<and> c_signature c = Some (x_hex_enc X s)"
proof -
  obtain cu st cu' where st: "repeat_res (commit_step X) 7 (commit_init, cu) = Ok (st, cu')"
    and d: "commit_done X st = Ok c"
    using assms unfolding decode_commit_body_def by (auto simp del: repeat_res_numeral split: if_splits elim!: tryr_OkE)
  note ok = commit_steps_ok [OF st]
  have "keys_upto 7 st" using commit_steps_keys [OF st, of 0] by (simp add: keys_upto_def commit_init_def key_read_def)
  then have "key_read st 7" by (auto simp: keys_upto_def Let_def)
  then obtain s where s: "cs_signature st = Some s" by (auto simp: key_read_def)
  obtain t ps a ts m where f: "cs_tree st = Some t" "cs_parents st = Some ps" "cs_author st = Some a"
    "cs_timestamp st = Some ts" "cs_message st = Some m"
    using d by (auto simp: commit_done_def ok_or_eq_Ok elim!: tryr_OkE)
  show "wf_commit c" "length (c_parents c) \<le> MAX_COMMIT_PARENTS"
    "\<exists>a. length a = 32 \<and> c_author c = author_from_bytes X a"
    "\<exists>s. length s = 64 \<and> c_signature c = Some (x_hex_enc X s)"
    using d ok s f by (auto simp: commit_done_def commit_st_ok_def wf_commit_def)
qed

text \<open>A decoded commit is in normal form, unless its wire version is 0.\<close>

lemma decode_commit_body_norm:
  assumes "hash_law X" "hex_law X" "decode_commit_body X b = Ok c" "c_protocol_version c \<noteq> 0"
  shows "commit_norm X c = c"
proof -
  obtain a s where a: "length a = 32" "c_author c = author_from_bytes X a"
    and s: "length s = 64" "c_signature c = Some (x_hex_enc X s)"
    using decode_commit_body_Ok [OF assms(3)] by blast
  have "signature_bytes X c = s" by (rule signature_roundtrip [OF assms(2) s])
  moreover have "author_to_bytes X (c_author c) = a" using a author_roundtrip [OF assms(2)] by simp
  ultimately show ?thesis using assms(4) a s by (simp add: commit_norm_def)
qed

end
