(* ===== verification/HeadAnn.thy ===== *)
theory HeadAnn
  imports CommitCodec
begin

text \<open>
  Head announcements (the gossip section of \<open>src/src/codec.rs\<close>): the record, its nine-key wire
  form, the sign preimage that leaves out the display name and the signature, the decoder, and
  the vault's topic and id. The decoder returns what was encoded; the preimage binds every
  signed field.
\<close>

section \<open>The announcement\<close>

definition VAULT_ID_LEN :: nat where
  "VAULT_ID_LEN = 16"

record head_ann =
  ha_protocol_version :: u64
  ha_vault_id :: bytes
  ha_vault_name :: string
  ha_head :: content_hash
  ha_timestamp :: u64
  ha_node_id :: bytes
  ha_seq :: u64
  ha_config_seq :: u64
  ha_signature :: bytes

definition vault_id_hex :: "ext \<Rightarrow> head_ann \<Rightarrow> string" where
  "vault_id_hex X a = x_hex_enc X (ha_vault_id a)"

definition node_id_hex :: "ext \<Rightarrow> head_ann \<Rightarrow> string" where
  "node_id_hex X a = x_hex_enc X (ha_node_id a)"

definition head_hex :: "ext \<Rightarrow> head_ann \<Rightarrow> string" where
  "head_hex X a = to_hex X (ha_head a)"

definition ann_is_signed :: "head_ann \<Rightarrow> bool" where
  "ann_is_signed a \<longleftrightarrow> ha_signature a \<noteq> zero_sig"

definition vault_topic_hash :: "ext \<Rightarrow> bytes \<Rightarrow> content_hash" where
  "vault_topic_hash X vault_id = hash_of X (as_bytes ''soal/v1/vault/'' @ vault_id)"

definition vault_id_from_hex :: "ext \<Rightarrow> string \<Rightarrow> bytes result" where
  "vault_id_from_hex X s0 =
     (let s = str_trim s0 in
      if length s \<noteq> VAULT_ID_LEN * 2 \<or> \<not> list_all is_hexdigit s then
        Err (Other ''vault_id must be 32 hex chars'')
      else tryr (ok_or (Other ''invalid vault_id hex'') (x_hex_dec X s)) (\<lambda>bs.
        if length bs \<noteq> VAULT_ID_LEN then Panic else Ok bs))"

section \<open>Encoding\<close>

text \<open>The header announces six pairs and seven follow; the bytes are only ever signed.\<close>

definition encode_head_sign_body :: "head_ann \<Rightarrow> bytes result" where
  "encode_head_sign_body a = Ok (
     write_map_header 6 @
     write_u64 1 @ write_u64 (ha_protocol_version a) @
     write_u64 2 @ write_bstr (ha_vault_id a) @
     write_u64 4 @ write_bstr (hash_bytes (ha_head a)) @
     write_u64 5 @ write_u64 (ha_timestamp a) @
     write_u64 6 @ write_bstr (ha_node_id a) @
     write_u64 7 @ write_u64 (ha_seq a) @
     write_u64 8 @ write_u64 (ha_config_seq a))"

definition head_sign_message :: "head_ann \<Rightarrow> bytes result" where
  "head_sign_message a = tryr (encode_head_sign_body a) (\<lambda>body. Ok (frame DOMAIN_HEAD body))"

definition encode_head_announcement :: "head_ann \<Rightarrow> bytes result" where
  "encode_head_announcement a =
     (if length (ha_vault_name a) > 1024 then Err (Verify ''vault_name too long'')
      else let buf =
        write_map_header 9 @
        write_u64 1 @ write_u64 (ha_protocol_version a) @
        write_u64 2 @ write_bstr (ha_vault_id a) @
        write_u64 3 @ write_tstr (ha_vault_name a) @
        write_u64 4 @ write_bstr (hash_bytes (ha_head a)) @
        write_u64 5 @ write_u64 (ha_timestamp a) @
        write_u64 6 @ write_bstr (ha_node_id a) @
        write_u64 7 @ write_u64 (ha_seq a) @
        write_u64 8 @ write_u64 (ha_config_seq a) @
        write_u64 9 @ write_bstr (ha_signature a)
      in if length buf > MAX_MESSAGE_BYTES then
           Err (Verify ''head announcement exceeds MAX_MESSAGE_BYTES'')
         else Ok buf)"

section \<open>Decoding\<close>

record head_st =
  hs_version :: "u64 option"
  hs_vault_id :: "bytes option"
  hs_name :: "string option"
  hs_head :: "content_hash option"
  hs_timestamp :: "u64 option"
  hs_node_id :: "bytes option"
  hs_seq :: "u64 option"
  hs_config_seq :: "u64 option"
  hs_signature :: "bytes option"
  hs_last :: "u64 option"

definition head_init :: head_st where
  "head_init = \<lparr>hs_version = None, hs_vault_id = None, hs_name = None, hs_head = None,
     hs_timestamp = None, hs_node_id = None, hs_seq = None, hs_config_seq = None,
     hs_signature = None, hs_last = None\<rparr>"

definition head_step :: "head_st \<times> cursor \<Rightarrow> (head_st \<times> cursor) result" where
  "head_step = (\<lambda>(st, c).
     tryr (read_u64_value c) (\<lambda>(k, c).
       if out_of_order (hs_last st) k then Err (Verify ''HeadAnnBody keys not sorted'')
       else let st = st\<lparr>hs_last := Some k\<rparr> in
         if k = 1 then tryr (read_u64_value c) (\<lambda>(v, c). Ok (st\<lparr>hs_version := Some v\<rparr>, c))
         else if k = 2 then
           tryr (read_fixed VAULT_ID_LEN ''vault_id must be 16 bytes'' c) (\<lambda>(b, c).
             Ok (st\<lparr>hs_vault_id := Some b\<rparr>, c))
         else if k = 3 then tryr (read_tstr c) (\<lambda>(s, c). Ok (st\<lparr>hs_name := Some s\<rparr>, c))
         else if k = 4 then
           tryr (read_fixed 32 ''head CID must be 32 bytes'' c) (\<lambda>(b, c).
             Ok (st\<lparr>hs_head := Some (CH b)\<rparr>, c))
         else if k = 5 then tryr (read_u64_value c) (\<lambda>(v, c). Ok (st\<lparr>hs_timestamp := Some v\<rparr>, c))
         else if k = 6 then
           tryr (read_fixed 32 ''node_id must be 32 bytes'' c) (\<lambda>(b, c).
             Ok (st\<lparr>hs_node_id := Some b\<rparr>, c))
         else if k = 7 then tryr (read_u64_value c) (\<lambda>(v, c). Ok (st\<lparr>hs_seq := Some v\<rparr>, c))
         else if k = 8 then tryr (read_u64_value c) (\<lambda>(v, c). Ok (st\<lparr>hs_config_seq := Some v\<rparr>, c))
         else if k = 9 then
           tryr (read_fixed 64 ''signature must be 64 bytes'' c) (\<lambda>(b, c).
             Ok (st\<lparr>hs_signature := Some b\<rparr>, c))
         else Err (Verify (''unknown HeadAnnBody key '' @ dec_string (unat k)))))"

definition head_done :: "head_st \<Rightarrow> head_ann result" where
  "head_done st =
     tryr (ok_or (Verify ''missing protocol_version'') (hs_version st)) (\<lambda>version.
     tryr (ok_or (Verify ''missing vault_id'') (hs_vault_id st)) (\<lambda>vault_id.
     tryr (ok_or (Verify ''missing vault_name'') (hs_name st)) (\<lambda>name.
     tryr (ok_or (Verify ''missing head'') (hs_head st)) (\<lambda>head.
     tryr (ok_or (Verify ''missing timestamp'') (hs_timestamp st)) (\<lambda>timestamp.
     tryr (ok_or (Verify ''missing node_id'') (hs_node_id st)) (\<lambda>node_id.
     tryr (ok_or (Verify ''missing seq'') (hs_seq st)) (\<lambda>seq.
     tryr (ok_or (Verify ''missing config_seq'') (hs_config_seq st)) (\<lambda>config_seq.
     tryr (ok_or (Verify ''missing signature'') (hs_signature st)) (\<lambda>signature.
       Ok \<lparr>ha_protocol_version = version, ha_vault_id = vault_id, ha_vault_name = name,
           ha_head = head, ha_timestamp = timestamp, ha_node_id = node_id, ha_seq = seq,
           ha_config_seq = config_seq, ha_signature = signature\<rparr>)))))))))"

definition decode_head_announcement :: "bytes \<Rightarrow> head_ann result" where
  "decode_head_announcement data =
     (if length data > MAX_MESSAGE_BYTES then Err (Verify ''head announcement too large'')
      else tryr (read_map_header (cursor_new data)) (\<lambda>(n, c).
        if n \<noteq> 9 then Err (Verify (''HeadAnnBody must have 9 keys, got '' @ dec_string n))
        else tryr (repeat_res head_step n (head_init, c)) (\<lambda>(st, c).
          tryr (cursor_finish c) (\<lambda>_. head_done st))))"

section \<open>Round trip\<close>

text \<open>The array lengths and the string invariant of the Rust types.\<close>

definition wf_ann :: "head_ann \<Rightarrow> bool" where
  "wf_ann a \<longleftrightarrow> length (ha_vault_id a) = VAULT_ID_LEN \<and> wf_hash (ha_head a)
     \<and> length (ha_node_id a) = 32 \<and> length (ha_signature a) = 64 \<and> utf8_str (ha_vault_name a)"

named_theorems head_read \<open>one round of the announcement decoder on the bytes of one key\<close>

lemma head_step_uint [head_read]:
  "\<not> out_of_order (hs_last st) 1 \<Longrightarrow>
    length pre + (length (write_u64 1) + (length (write_u64 v) + length r)) < 2 ^ 64 \<Longrightarrow>
    head_step (st, cur pre (write_u64 1 @ write_u64 v @ r)) =
      Ok (st\<lparr>hs_last := Some 1, hs_version := Some v\<rparr>, cur (pre @ write_u64 1 @ write_u64 v) r)"
  "\<not> out_of_order (hs_last st) 5 \<Longrightarrow>
    length pre + (length (write_u64 5) + (length (write_u64 v) + length r)) < 2 ^ 64 \<Longrightarrow>
    head_step (st, cur pre (write_u64 5 @ write_u64 v @ r)) =
      Ok (st\<lparr>hs_last := Some 5, hs_timestamp := Some v\<rparr>, cur (pre @ write_u64 5 @ write_u64 v) r)"
  "\<not> out_of_order (hs_last st) 7 \<Longrightarrow>
    length pre + (length (write_u64 7) + (length (write_u64 v) + length r)) < 2 ^ 64 \<Longrightarrow>
    head_step (st, cur pre (write_u64 7 @ write_u64 v @ r)) =
      Ok (st\<lparr>hs_last := Some 7, hs_seq := Some v\<rparr>, cur (pre @ write_u64 7 @ write_u64 v) r)"
  "\<not> out_of_order (hs_last st) 8 \<Longrightarrow>
    length pre + (length (write_u64 8) + (length (write_u64 v) + length r)) < 2 ^ 64 \<Longrightarrow>
    head_step (st, cur pre (write_u64 8 @ write_u64 v @ r)) =
      Ok (st\<lparr>hs_last := Some 8, hs_config_seq := Some v\<rparr>, cur (pre @ write_u64 8 @ write_u64 v) r)"
  by (simp_all add: head_step_def cbor_read)

lemma head_step_bytes [head_read]:
  "\<not> out_of_order (hs_last st) 2 \<Longrightarrow> length b = VAULT_ID_LEN \<Longrightarrow>
    length pre + (length (write_u64 2) + (length (write_bstr b) + length r)) < 2 ^ 64 \<Longrightarrow>
    head_step (st, cur pre (write_u64 2 @ write_bstr b @ r)) =
      Ok (st\<lparr>hs_last := Some 2, hs_vault_id := Some b\<rparr>, cur (pre @ write_u64 2 @ write_bstr b) r)"
  "\<not> out_of_order (hs_last st) 4 \<Longrightarrow> wf_hash h \<Longrightarrow>
    length pre + (length (write_u64 4) + (length (write_bstr (hash_bytes h)) + length r)) < 2 ^ 64 \<Longrightarrow>
    head_step (st, cur pre (write_u64 4 @ write_bstr (hash_bytes h) @ r)) =
      Ok (st\<lparr>hs_last := Some 4, hs_head := Some h\<rparr>, cur (pre @ write_u64 4 @ write_bstr (hash_bytes h)) r)"
  "\<not> out_of_order (hs_last st) 6 \<Longrightarrow> length b = 32 \<Longrightarrow>
    length pre + (length (write_u64 6) + (length (write_bstr b) + length r)) < 2 ^ 64 \<Longrightarrow>
    head_step (st, cur pre (write_u64 6 @ write_bstr b @ r)) =
      Ok (st\<lparr>hs_last := Some 6, hs_node_id := Some b\<rparr>, cur (pre @ write_u64 6 @ write_bstr b) r)"
  by (simp_all add: head_step_def cbor_read wf_hash_def)

lemma head_step_signature:
  "\<not> out_of_order (hs_last st) 9 \<Longrightarrow> length b = 64 \<Longrightarrow>
    length pre + (length (write_u64 9) + length (write_bstr b)) < 2 ^ 64 \<Longrightarrow>
    head_step (st, cur pre (write_u64 9 @ write_bstr b)) =
      Ok (st\<lparr>hs_last := Some 9, hs_signature := Some b\<rparr>, cur (pre @ write_u64 9 @ write_bstr b) [])"
  using read_fixed_cur [of b 64 "pre @ write_u64 9" "[]" "''signature must be 64 bytes''"]
  by (simp add: head_step_def cbor_read)

lemma head_step_name [head_read]:
  "\<not> out_of_order (hs_last st) 3 \<Longrightarrow> utf8_str s \<Longrightarrow>
    length pre + (length (write_u64 3) + (length (write_tstr s) + length r)) < 2 ^ 64 \<Longrightarrow>
    head_step (st, cur pre (write_u64 3 @ write_tstr s @ r)) =
      Ok (st\<lparr>hs_last := Some 3, hs_name := Some s\<rparr>, cur (pre @ write_u64 3 @ write_tstr s) r)"
  by (simp add: head_step_def cbor_read)

lemma decode_encode_head_announcement:
  assumes "wf_ann a" "encode_head_announcement a = Ok b"
  shows "decode_head_announcement b = Ok a"
proof -
  have wf: "length (ha_vault_id a) = VAULT_ID_LEN" "wf_hash (ha_head a)" "length (ha_node_id a) = 32"
    "length (ha_signature a) = 64" "utf8_str (ha_vault_name a)"
    using assms(1) by (auto simp: wf_ann_def)
  have b: "b = write_map_header 9 @
        write_u64 1 @ write_u64 (ha_protocol_version a) @
        write_u64 2 @ write_bstr (ha_vault_id a) @
        write_u64 3 @ write_tstr (ha_vault_name a) @
        write_u64 4 @ write_bstr (hash_bytes (ha_head a)) @
        write_u64 5 @ write_u64 (ha_timestamp a) @
        write_u64 6 @ write_bstr (ha_node_id a) @
        write_u64 7 @ write_u64 (ha_seq a) @
        write_u64 8 @ write_u64 (ha_config_seq a) @
        write_u64 9 @ write_bstr (ha_signature a)"
    and l: "length b \<le> MAX_MESSAGE_BYTES"
    using assms(2) by (auto simp: encode_head_announcement_def Let_def split: if_splits)
  note len = l [unfolded b length_append MAX_MESSAGE_BYTES_def]
  have d: "decode_head_announcement b = tryr (read_map_header (cursor_new b)) (\<lambda>(n, c).
      if n \<noteq> 9 then Err (Verify (''HeadAnnBody must have 9 keys, got '' @ dec_string n))
      else tryr (repeat_res head_step n (head_init, c)) (\<lambda>(st, c).
        tryr (cursor_finish c) (\<lambda>_. head_done st)))"
    using l by (simp add: decode_head_announcement_def)
  show ?thesis
    using len wf unfolding d unfolding b
    by (simp add: cursor_new_cur read_map_header_cur head_read head_step_signature head_init_def
        word_le_nat_alt head_done_def finish_cur)
qed

interpretation aw: wire_codec wf_ann encode_head_announcement decode_head_announcement "\<lambda>a. a"
  by unfold_locales (rule decode_encode_head_announcement)

section \<open>What is signed\<close>

lemma head_sign_message_unsigned [simp]:
  "head_sign_message (a\<lparr>ha_vault_name := n, ha_signature := s\<rparr>) = head_sign_message a"
  "head_sign_message (a\<lparr>ha_signature := s\<rparr>) = head_sign_message a"
  by (simp_all add: head_sign_message_def encode_head_sign_body_def)

lemma write_u64_app_inj:
  assumes "length r < 2 ^ 63" "length r' < 2 ^ 63"
  shows "write_u64 v @ r = write_u64 v' @ r' \<longleftrightarrow> v = v' \<and> r = r'"
proof
  assume eq: "write_u64 v @ r = write_u64 v' @ r'"
  have l: "length (write_u64 v) \<le> 9" "length (write_u64 v') \<le> 9"
    by (simp_all add: write_u64_def length_push_uint)
  have "read_u64_value (cur [] (write_u64 v @ r)) = Ok (v, cur ([] @ write_u64 v) r)"
    "read_u64_value (cur [] (write_u64 v' @ r')) = Ok (v', cur ([] @ write_u64 v') r')"
    using assms l by (simp_all add: read_u64_cur del: append_Nil)
  with eq show "v = v' \<and> r = r'" by simp
qed simp

lemma write_bstr_app_inj:
  "length d = length d' \<Longrightarrow> write_bstr d @ r = write_bstr d' @ r' \<longleftrightarrow> d = d' \<and> r = r'"
  by (simp add: write_bstr_def)

lemma length_write_u64_le: "length (write_u64 v) \<le> 9"
  by (simp add: write_u64_def length_push_uint)

definition signed_fields :: "head_ann \<Rightarrow> u64 \<times> bytes \<times> content_hash \<times> u64 \<times> bytes \<times> u64 \<times> u64" where
  "signed_fields a = (ha_protocol_version a, ha_vault_id a, ha_head a, ha_timestamp a, ha_node_id a,
     ha_seq a, ha_config_seq a)"

lemma write_u64_snoc_inj: "write_u64 v = write_u64 v' \<longleftrightarrow> v = v'"
  using write_u64_app_inj [of "[]" "[]" v v'] by simp

lemma head_sign_body_inj:
  assumes "wf_ann a" "wf_ann b" "encode_head_sign_body a = encode_head_sign_body b"
  shows "signed_fields a = signed_fields b"
proof -
  have wf: "length (ha_vault_id a) = 16" "length (ha_vault_id b) = 16"
    "length (hash_bytes (ha_head a)) = 32" "length (hash_bytes (ha_head b)) = 32"
    "length (ha_node_id a) = 32" "length (ha_node_id b) = 32"
    using assms(1,2) by (simp_all add: wf_ann_def wf_hash_def VAULT_ID_LEN_def)
  have bstr: "length (write_bstr d) \<le> length d + 9" for d
    by (simp add: write_bstr_def length_push_uint)
  have small: "length (ha_vault_id a) \<le> 64" "length (hash_bytes (ha_head a)) \<le> 64" "length (ha_node_id a) \<le> 64"
    "length (ha_vault_id b) \<le> 64" "length (hash_bytes (ha_head b)) \<le> 64" "length (ha_node_id b) \<le> 64"
    using wf by simp_all
  note bounds = this [THEN add_le_mono1 [of _ _ 9], THEN order_trans [OF bstr], simplified]
    length_write_u64_le [of "ha_protocol_version a"] length_write_u64_le [of "ha_protocol_version b"]
    length_write_u64_le [of "ha_timestamp a"] length_write_u64_le [of "ha_timestamp b"]
    length_write_u64_le [of "ha_seq a"] length_write_u64_le [of "ha_seq b"]
    length_write_u64_le [of "ha_config_seq a"] length_write_u64_le [of "ha_config_seq b"]
    length_write_u64_le [of 1] length_write_u64_le [of 2] length_write_u64_le [of 4]
    length_write_u64_le [of 5] length_write_u64_le [of 6] length_write_u64_le [of 7] length_write_u64_le [of 8]
  from assms(3) wf bounds show ?thesis
    by (simp add: encode_head_sign_body_def signed_fields_def write_u64_app_inj write_bstr_app_inj
        write_u64_snoc_inj content_hash.expand)
qed

lemma head_sign_message_binds:
  assumes "wf_ann a" "wf_ann b" "head_sign_message a = head_sign_message b"
  shows "signed_fields a = signed_fields b"
  using assms by (intro head_sign_body_inj)
    (auto simp: head_sign_message_def encode_head_sign_body_def frame_def)

section \<open>What the announcement decoder accepts\<close>

definition head_st_ok :: "head_st \<Rightarrow> bool" where
  "head_st_ok st \<longleftrightarrow>
     pred_option (\<lambda>b. length b = VAULT_ID_LEN) (hs_vault_id st)
   \<and> pred_option utf8_str (hs_name st)
   \<and> pred_option wf_hash (hs_head st)
   \<and> pred_option (\<lambda>b. length b = 32) (hs_node_id st)
   \<and> pred_option (\<lambda>b. length b = 64) (hs_signature st)"

lemma head_step_ok:
  assumes "head_step (st, c) = Ok (st', c')" "head_st_ok st"
  shows "head_st_ok st'"
proof -
  obtain k c1 where k: "read_u64_value c = Ok (k, c1)" "\<not> out_of_order (hs_last st) k"
    using assms(1) by (auto simp: head_step_def split: if_splits elim!: tryr_OkE)
  note step = assms(1) [unfolded head_step_def, simplified k tryr.simps prod.case if_False Let_def]
  have "k = 1 \<or> k = 2 \<or> k = 3 \<or> k = 4 \<or> k = 5 \<or> k = 6 \<or> k = 7 \<or> k = 8 \<or> k = 9"
    using step by (auto split: if_splits)
  then show ?thesis
    using assms(2) by (elim disjE)
      (use step in \<open>auto simp: head_st_ok_def wf_hash_def elim!: tryr_OkE dest: read_fixed_length read_tstr_utf8\<close>)
qed

lemma decode_head_announcement_wf:
  assumes "decode_head_announcement b = Ok a"
  shows "wf_ann a"
proof -
  obtain cu st cu' where st: "repeat_res head_step 9 (head_init, cu) = Ok (st, cu')"
    and d: "head_done st = Ok a"
    using assms unfolding decode_head_announcement_def
    by (auto simp del: repeat_res_numeral split: if_splits elim!: tryr_OkE)
  have "(\<lambda>(st, c). head_st_ok st) (st, cu')"
    by (rule repeat_res_inv [OF st]) (auto intro: head_step_ok, simp add: head_init_def head_st_ok_def)
  with d show ?thesis
    by (auto simp: head_done_def head_st_ok_def wf_ann_def ok_or_eq_Ok elim!: tryr_OkE)
qed

section \<open>Vault ids\<close>

lemma vault_id_from_hex_roundtrip:
  "hex_law X \<Longrightarrow> length v = VAULT_ID_LEN \<Longrightarrow> vault_id_from_hex X (x_hex_enc X v) = Ok v"
  by (simp add: vault_id_from_hex_def hex_trim hex_length hex_digits hex_dec_enc)

lemma vault_id_from_hex_length: "vault_id_from_hex X s = Ok v \<Longrightarrow> length v = VAULT_ID_LEN"
  by (auto simp: vault_id_from_hex_def Let_def split: if_splits elim!: tryr_OkE)

lemma vault_id_from_hex_no_panic: "hex_law X \<Longrightarrow> vault_id_from_hex X s \<noteq> Panic"
  by (auto simp: vault_id_from_hex_def Let_def tryr_eq_Panic ok_or_eq_Ok VAULT_ID_LEN_def dest: hex_dec_SomeD)

end
