(* ===== verification/Identity.thy ===== *)
theory Identity
  imports HeadAnn
begin

text \<open>
  Signatures (\<open>src/src/identity.rs\<close>): the node's secret key file, signing and checking commits
  and head announcements, and the clock-skew test. The ed25519 functions are those of \<open>ext\<close>;
  what the program relies on is \<open>sign_law\<close>. The text a third-party error puts behind the
  program's own message is left out.
\<close>

section \<open>The key file\<close>

text \<open>A JSON file as its reader finds it: absent, unreadable, or holding a value.\<close>

datatype 'a json_file = NoFile | BadJson | Good 'a

definition load_secret_key :: "ext \<Rightarrow> string json_file \<Rightarrow> bytes result" where
  "load_secret_key X f =
     (case f of
        NoFile \<Rightarrow> Err (Other ''node identity not initialized'')
      | BadJson \<Rightarrow> Err Serde
      | Good secret_key_hex \<Rightarrow>
          tryr (ok_or (Other ''invalid secret key hex'') (x_hex_dec X (str_trim secret_key_hex))) (\<lambda>bs.
            if length bs \<noteq> 32 then Err (Other ''secret key must be 32 bytes'') else Ok bs))"

definition local_author_sync :: "ext \<Rightarrow> string json_file \<Rightarrow> string result" where
  "local_author_sync X f = tryr (load_secret_key X f) (\<lambda>sk. Ok (x_pk_display X (x_public X sk)))"

definition public_key_bytes :: "ext \<Rightarrow> bytes \<Rightarrow> bytes" where
  "public_key_bytes X sk = x_public X sk"

section \<open>Commits\<close>

definition sign_commit :: "ext \<Rightarrow> bytes \<Rightarrow> commit \<Rightarrow> commit result" where
  "sign_commit X sk c0 =
     (let c = c0\<lparr>c_author := x_pk_display X (x_public X sk),
                 c_protocol_version := ucast PROTOCOL_VERSION,
                 c_signature := None\<rparr>
      in tryr (commit_sign_message X c) (\<lambda>msg.
           Ok (c\<lparr>c_signature := Some (x_hex_enc X (x_sign X sk msg))\<rparr>)))"

definition verify_commit_signature :: "ext \<Rightarrow> commit \<Rightarrow> unit result" where
  "verify_commit_signature X c =
     (let sig = signature_bytes X c in
      if sig = zero_sig then Ok ()
      else let pk = author_to_bytes X (c_author c) in
        if \<not> x_pk_valid X pk then Err (Verify ''bad author pubkey'')
        else tryr (commit_sign_message X c) (\<lambda>msg.
          if x_verify X pk msg sig then Ok () else Err (Verify ''commit signature invalid'')))"

section \<open>Head announcements\<close>

definition sign_head_announcement ::
  "ext \<Rightarrow> u64 \<Rightarrow> bytes \<Rightarrow> bytes \<Rightarrow> string \<Rightarrow> content_hash \<Rightarrow> u64 \<Rightarrow> u64 \<Rightarrow> head_ann result"
where
  "sign_head_announcement X now sk vault_id vault_name head seq config_seq =
     (let a = \<lparr>ha_protocol_version = PROTOCOL_VERSION, ha_vault_id = vault_id,
               ha_vault_name = vault_name, ha_head = head, ha_timestamp = now,
               ha_node_id = x_public X sk, ha_seq = seq, ha_config_seq = config_seq,
               ha_signature = zero_sig\<rparr>
      in tryr (head_sign_message a) (\<lambda>msg. Ok (a\<lparr>ha_signature := x_sign X sk msg\<rparr>)))"

definition verify_head_announcement :: "ext \<Rightarrow> head_ann \<Rightarrow> unit result" where
  "verify_head_announcement X a =
     (if \<not> ann_is_signed a then Err (Verify ''head announcement unsigned'')
      else if ha_protocol_version a \<noteq> PROTOCOL_VERSION then
        Err (Verify (''unsupported head protocol_version '' @ dec_string (unat (ha_protocol_version a))))
      else if \<not> x_pk_valid X (ha_node_id a) then Err (Verify ''bad node_id pubkey'')
      else tryr (head_sign_message a) (\<lambda>msg.
        if x_verify X (ha_node_id a) msg (ha_signature a) then Ok ()
        else Err (Verify ''head announcement signature invalid'')))"

definition check_head_skew :: "head_ann \<Rightarrow> u64 \<Rightarrow> unit result" where
  "check_head_skew a now_secs =
     (let skew = abs_diff now_secs (ha_timestamp a) in
      if skew > MAX_SKEW_SECS then
        Err (Verify (''head timestamp skew '' @ dec_string (unat skew) @ ''s exceeds MAX_SKEW_SECS''))
      else Ok ())"

section \<open>Documented behaviour of the signature scheme\<close>

text \<open>
  The public key of a secret key is a valid 32-byte key that prints as its hex form, a
  signature has 64 bytes and verifies under the signer's public key.
\<close>

definition sign_law :: "ext \<Rightarrow> bool" where
  "sign_law X \<longleftrightarrow> (\<forall>sk. length sk = 32 \<longrightarrow>
     length (x_public X sk) = 32 \<and> x_pk_valid X (x_public X sk)
   \<and> x_pk_display X (x_public X sk) = x_hex_enc X (x_public X sk)
   \<and> (\<forall>m. length (x_sign X sk m) = 64 \<and> x_verify X (x_public X sk) m (x_sign X sk m)))"

lemma sign_lawD:
  assumes "sign_law X" "length sk = 32"
  shows "length (x_public X sk) = 32" "x_pk_valid X (x_public X sk)"
    "x_pk_display X (x_public X sk) = x_hex_enc X (x_public X sk)"
    "length (x_sign X sk m) = 64" "x_verify X (x_public X sk) m (x_sign X sk m)"
  using assms by (simp_all add: sign_law_def)

section \<open>What is signed verifies\<close>

lemma sign_commit_fields:
  assumes "sign_commit X sk c = Ok c'"
  shows "c_tree c' = c_tree c" "c_parents c' = c_parents c" "c_timestamp c' = c_timestamp c"
    "c_message c' = c_message c" "c_author c' = x_pk_display X (x_public X sk)"
    "c_protocol_version c' = 1"
  using assms by (auto simp: sign_commit_def Let_def PROTOCOL_VERSION_def elim!: tryr_OkE)

lemma sign_commit_signature:
  assumes "sign_law X" "hex_law X" "length sk = 32" "sign_commit X sk c = Ok c'"
  obtains m where "commit_sign_message X c' = Ok m" "signature_bytes X c' = x_sign X sk m"
    "author_to_bytes X (c_author c') = x_public X sk"
proof -
  obtain m where m: "commit_sign_message X c' = Ok m" "c_signature c' = Some (x_hex_enc X (x_sign X sk m))"
    using assms(4) by (auto simp: sign_commit_def Let_def elim!: tryr_OkE)
  note law = sign_lawD [OF assms(1,3)]
  have "signature_bytes X c' = x_sign X sk m"
    by (rule signature_roundtrip [OF assms(2) law(4) m(2)])
  moreover have "author_to_bytes X (c_author c') = x_public X sk"
    using author_roundtrip [OF assms(2) law(1)] law(3) sign_commit_fields(5) [OF assms(4)]
    by (simp add: author_from_bytes_def)
  ultimately show thesis using m(1) that by blast
qed

lemma sign_verify_commit:
  assumes "sign_law X" "hex_law X" "length sk = 32" "sign_commit X sk c = Ok c'"
  shows "verify_commit_signature X c' = Ok ()"
proof (rule sign_commit_signature [OF assms])
  fix m
  assume "commit_sign_message X c' = Ok m" "signature_bytes X c' = x_sign X sk m"
    "author_to_bytes X (c_author c') = x_public X sk"
  then show "verify_commit_signature X c' = Ok ()"
    using sign_lawD [OF assms(1,3)] by (simp add: verify_commit_signature_def Let_def)
qed

lemma verify_commit_norm:
  "hash_law X \<Longrightarrow> hex_law X \<Longrightarrow>
    verify_commit_signature X (commit_norm X c) = verify_commit_signature X c"
  by (simp add: verify_commit_signature_def norm_bytes commit_sign_message_norm Let_def)

text \<open>An accepted commit carries no signature, or one that its author's key verifies.\<close>

lemma verify_commit_Ok:
  "verify_commit_signature X c = Ok () \<longleftrightarrow>
    \<not> commit_is_signed X c
    \<or> (x_pk_valid X (author_to_bytes X (c_author c))
       \<and> (\<exists>m. commit_sign_message X c = Ok m
            \<and> x_verify X (author_to_bytes X (c_author c)) m (signature_bytes X c)))"
  by (auto simp: verify_commit_signature_def commit_is_signed_def Let_def tryr_eq_Ok)

lemma sign_head_Ok:
  "\<exists>m. sign_head_announcement X now sk v n h s cs = Ok \<lparr>ha_protocol_version = PROTOCOL_VERSION,
      ha_vault_id = v, ha_vault_name = n, ha_head = h, ha_timestamp = now, ha_node_id = x_public X sk,
      ha_seq = s, ha_config_seq = cs, ha_signature = x_sign X sk m\<rparr>
    \<and> head_sign_message \<lparr>ha_protocol_version = PROTOCOL_VERSION,
      ha_vault_id = v, ha_vault_name = n, ha_head = h, ha_timestamp = now, ha_node_id = x_public X sk,
      ha_seq = s, ha_config_seq = cs, ha_signature = x_sign X sk m\<rparr> = Ok m"
  by (simp add: sign_head_announcement_def head_sign_message_def encode_head_sign_body_def)

lemma sign_verify_head:
  assumes "sign_law X" "length sk = 32" "sign_head_announcement X now sk v n h s cs = Ok a"
    and "ha_signature a \<noteq> zero_sig"
  shows "verify_head_announcement X a = Ok ()"
  using sign_head_Ok [of X now sk v n h s cs] assms(3,4) sign_lawD [OF assms(1,2)]
  by (auto simp: verify_head_announcement_def ann_is_signed_def)

lemma sign_head_wf:
  assumes "sign_law X" "length sk = 32" "length v = VAULT_ID_LEN" "wf_hash h" "utf8_str n"
    and "sign_head_announcement X now sk v n h s cs = Ok a"
  shows "wf_ann a"
  using sign_head_Ok [of X now sk v n h s cs] assms sign_lawD [OF assms(1,2)]
  by (auto simp: wf_ann_def)

lemma verify_head_Ok:
  "verify_head_announcement X a = Ok () \<longleftrightarrow>
    ann_is_signed a \<and> ha_protocol_version a = PROTOCOL_VERSION \<and> x_pk_valid X (ha_node_id a)
    \<and> (\<exists>m. head_sign_message a = Ok m \<and> x_verify X (ha_node_id a) m (ha_signature a))"
  by (auto simp: verify_head_announcement_def tryr_eq_Ok)

lemma check_head_skew_Ok:
  "check_head_skew a now = Ok () \<longleftrightarrow>
    unat now \<le> unat (ha_timestamp a) + 300 \<and> unat (ha_timestamp a) \<le> unat now + 300"
  by (auto simp: check_head_skew_def Let_def MAX_SKEW_SECS_def word_less_nat_alt unat_abs_diff)

end
