(* ===== verification/Crypto.thy ===== *)
theory Crypto
  imports Core
begin

text \<open>
  Encryption at rest (\<open>src/src/crypto.rs\<close>): chunk encryption with a random or a content-derived
  nonce, and vault keys wrapped under another key or a passphrase. Random bytes are arguments;
  the cipher and Argon2 are functions of \<open>ext\<close>, whose law is \<open>aead_law\<close>. Error texts of the
  third-party crates are replaced by a fixed one.
\<close>

section \<open>Chunks\<close>

definition NONCE_LEN :: nat where
  "NONCE_LEN = 24"

definition encrypt :: "ext \<Rightarrow> bytes \<Rightarrow> bytes \<Rightarrow> bytes \<Rightarrow> bytes result" where
  "encrypt X nonce plain key =
     tryr (ok_or (Crypto ''aead::Error'') (x_seal X key nonce [] plain)) (\<lambda>ct. Ok (nonce @ ct))"

definition decrypt :: "ext \<Rightarrow> bytes \<Rightarrow> bytes \<Rightarrow> bytes result" where
  "decrypt X ciphertext key =
     (if length ciphertext < NONCE_LEN then Err (Crypto ''ciphertext too short'')
      else ok_or (Crypto ''aead::Error'')
             (x_open X key (take NONCE_LEN ciphertext) [] (drop NONCE_LEN ciphertext)))"

definition encrypt_deterministic :: "ext \<Rightarrow> bytes \<Rightarrow> bytes \<Rightarrow> bytes result" where
  "encrypt_deterministic X plain key =
     (let nonce = take NONCE_LEN (x_blake3 X plain)
      in tryr (ok_or (Crypto ''aead::Error'') (x_seal X key nonce [] plain)) (\<lambda>ct. Ok (nonce @ ct)))"

definition decrypt_chunk :: "ext \<Rightarrow> bytes \<Rightarrow> bytes \<Rightarrow> bytes result" where
  "decrypt_chunk X stored key = decrypt X stored key"

definition key_from_hex :: "ext \<Rightarrow> string \<Rightarrow> bytes result" where
  "key_from_hex X s =
     tryr (ok_or InvalidHash (x_hex_dec X (str_trim s))) (\<lambda>bs.
       if length bs \<noteq> 32 then Err (Other ''invalid key length'') else Ok bs)"

section \<open>Wrapped keys\<close>

definition wrap_key :: "ext \<Rightarrow> bytes \<Rightarrow> bytes \<Rightarrow> bytes \<Rightarrow> bytes \<Rightarrow> bytes result" where
  "wrap_key X nonce vault_key wkey aad =
     tryr (ok_or (Crypto ''aead::Error'') (x_seal X wkey nonce aad vault_key)) (\<lambda>ct. Ok (nonce @ ct))"

definition unwrap_key :: "ext \<Rightarrow> bytes \<Rightarrow> bytes \<Rightarrow> bytes \<Rightarrow> bytes result" where
  "unwrap_key X sealed wkey aad =
     (if length sealed < NONCE_LEN + 16 then Err (Crypto ''wrapped key too short'')
      else tryr (ok_or (Crypto ''aead::Error'')
                   (x_open X wkey (take NONCE_LEN sealed) aad (drop NONCE_LEN sealed))) (\<lambda>plain.
        if length plain \<noteq> 32 then Err (Crypto ''unwrapped key wrong length'') else Ok plain))"

definition wrap_aad :: "bytes \<Rightarrow> bytes" where
  "wrap_aad vault_id = vault_id @ as_bytes ''wrap/v1''"

definition ARGON2_M_KIB :: u32 where
  "ARGON2_M_KIB = 19456"

definition ARGON2_T_COST :: u32 where
  "ARGON2_T_COST = 2"

definition ARGON2_P_COST :: u32 where
  "ARGON2_P_COST = 1"

record wrapped_key =
  wk_kdf :: string
  wk_salt_hex :: string
  wk_m_kib :: u32
  wk_t_cost :: u32
  wk_p_cost :: u32
  wk_sealed_hex :: string

definition salt_bytes :: "ext \<Rightarrow> wrapped_key \<Rightarrow> bytes result" where
  "salt_bytes X w =
     tryr (ok_or InvalidHash (x_hex_dec X (str_trim (wk_salt_hex w)))) (\<lambda>b.
       if length b \<noteq> 16 then Err (Crypto ''wrapped key salt must be 16 bytes'') else Ok b)"

definition sealed_bytes :: "ext \<Rightarrow> wrapped_key \<Rightarrow> bytes result" where
  "sealed_bytes X w = ok_or InvalidHash (x_hex_dec X (str_trim (wk_sealed_hex w)))"

definition derive_key_from_passphrase ::
  "ext \<Rightarrow> string \<Rightarrow> bytes \<Rightarrow> u32 \<Rightarrow> u32 \<Rightarrow> u32 \<Rightarrow> bytes result"
where
  "derive_key_from_passphrase X passphrase salt m_kib t_cost p_cost =
     ok_or (Crypto ''argon2'') (x_argon2 X passphrase salt m_kib t_cost p_cost)"

definition wrap_vault_key_passphrase ::
  "ext \<Rightarrow> bytes \<Rightarrow> bytes \<Rightarrow> bytes \<Rightarrow> string \<Rightarrow> bytes \<Rightarrow> wrapped_key result"
where
  "wrap_vault_key_passphrase X salt nonce vault_key passphrase vault_id =
     tryr (derive_key_from_passphrase X passphrase salt ARGON2_M_KIB ARGON2_T_COST ARGON2_P_COST) (\<lambda>wrap.
     tryr (wrap_key X nonce vault_key wrap (wrap_aad vault_id)) (\<lambda>sealed.
       Ok \<lparr>wk_kdf = ''argon2id'', wk_salt_hex = x_hex_enc X salt, wk_m_kib = ARGON2_M_KIB,
           wk_t_cost = ARGON2_T_COST, wk_p_cost = ARGON2_P_COST, wk_sealed_hex = x_hex_enc X sealed\<rparr>))"

definition unwrap_vault_key_passphrase ::
  "ext \<Rightarrow> wrapped_key \<Rightarrow> string \<Rightarrow> bytes \<Rightarrow> bytes result"
where
  "unwrap_vault_key_passphrase X w passphrase vault_id =
     (if wk_kdf w \<noteq> ''argon2id'' then Err (Crypto (''unsupported wrap kdf: '' @ wk_kdf w))
      else tryr (salt_bytes X w) (\<lambda>salt.
        tryr (derive_key_from_passphrase X passphrase salt (wk_m_kib w) (wk_t_cost w) (wk_p_cost w)) (\<lambda>wrap.
          tryr (sealed_bytes X w) (\<lambda>sealed. unwrap_key X sealed wrap (wrap_aad vault_id)))))"

section \<open>Documented behaviour of the cipher\<close>

text \<open>Opening what was sealed returns the message; the tag adds 16 bytes.\<close>

definition aead_law :: "ext \<Rightarrow> bool" where
  "aead_law X \<longleftrightarrow> (\<forall>k n a m c. x_seal X k n a m = Some c \<longrightarrow>
     x_open X k n a c = Some m \<and> length c = length m + 16)"

lemma aead_lawD:
  "aead_law X \<Longrightarrow> x_seal X k n a m = Some c \<Longrightarrow> x_open X k n a c = Some m \<and> length c = length m + 16"
  by (simp add: aead_law_def)

section \<open>What is sealed opens\<close>

lemma decrypt_encrypt:
  "aead_law X \<Longrightarrow> length nonce = NONCE_LEN \<Longrightarrow> encrypt X nonce plain key = Ok c \<Longrightarrow>
    decrypt X c key = Ok plain"
  by (auto simp: encrypt_def decrypt_def ok_or_eq_Ok elim!: tryr_OkE dest: aead_lawD)

lemma encrypt_deterministic_eq:
  "encrypt_deterministic X plain key = encrypt X (take NONCE_LEN (x_blake3 X plain)) plain key"
  by (simp add: encrypt_deterministic_def encrypt_def Let_def)

lemma decrypt_encrypt_deterministic:
  "aead_law X \<Longrightarrow> hash_law X \<Longrightarrow> encrypt_deterministic X plain key = Ok c \<Longrightarrow>
    decrypt_chunk X c key = Ok plain"
  unfolding encrypt_deterministic_eq decrypt_chunk_def
  by (rule decrypt_encrypt) (simp_all add: NONCE_LEN_def)

text \<open>Hence two chunks with the same ciphertext have the same plaintext.\<close>

lemma encrypt_deterministic_inj:
  assumes "aead_law X" "hash_law X" "encrypt_deterministic X p key = Ok c"
    "encrypt_deterministic X q key = Ok c"
  shows "p = q"
  using decrypt_encrypt_deterministic [OF assms(1,2,3)] decrypt_encrypt_deterministic [OF assms(1,2,4)] by simp

lemma length_encrypt_deterministic:
  "aead_law X \<Longrightarrow> hash_law X \<Longrightarrow> encrypt_deterministic X p key = Ok c \<Longrightarrow> length c = length p + 40"
  by (auto simp: encrypt_deterministic_def Let_def ok_or_eq_Ok NONCE_LEN_def elim!: tryr_OkE dest: aead_lawD)

lemma unwrap_wrap_key:
  assumes "aead_law X" "length nonce = NONCE_LEN" "length vault_key = 32"
    and "wrap_key X nonce vault_key w aad = Ok sealed"
  shows "unwrap_key X sealed w aad = Ok vault_key"
  using assms by (auto simp: wrap_key_def unwrap_key_def ok_or_eq_Ok elim!: tryr_OkE dest: aead_lawD)

lemma unwrap_wrap_passphrase:
  assumes "aead_law X" "hex_law X" "length salt = 16" "length nonce = NONCE_LEN" "length vault_key = 32"
    and "wrap_vault_key_passphrase X salt nonce vault_key pass vid = Ok w"
  shows "unwrap_vault_key_passphrase X w pass vid = Ok vault_key"
proof -
  from assms(6) obtain wrap sealed where s:
    "derive_key_from_passphrase X pass salt ARGON2_M_KIB ARGON2_T_COST ARGON2_P_COST = Ok wrap"
    "wrap_key X nonce vault_key wrap (wrap_aad vid) = Ok sealed"
    "w = \<lparr>wk_kdf = ''argon2id'', wk_salt_hex = x_hex_enc X salt, wk_m_kib = ARGON2_M_KIB,
           wk_t_cost = ARGON2_T_COST, wk_p_cost = ARGON2_P_COST, wk_sealed_hex = x_hex_enc X sealed\<rparr>"
    by (auto simp: wrap_vault_key_passphrase_def elim!: tryr_OkE)
  with unwrap_wrap_key [OF assms(1,4,5) s(2)] assms(2,3) show ?thesis
    by (simp add: unwrap_vault_key_passphrase_def salt_bytes_def sealed_bytes_def hex_trim hex_dec_enc)
qed

end
