(* ===== verification/StateRes.thy ===== *)
theory StateRes
  imports Prelude
begin

text \<open>
  Fallible operations on a state that survives an error: what a Rust function has written to
  disk before it returns \<open>Err\<close> stays written. An operation maps a state to an outcome and
  the state it leaves in every case. The locale \<open>evolution\<close> carries any reflexive and transitive
  relation between states (an invariant kept, objects only added) through the combinators.
\<close>

section \<open>Operations\<close>

type_synonym ('s, 'e, 'a) op = "'s \<Rightarrow> ('e, 'a) res \<times> 's"

definition ret :: "'a \<Rightarrow> ('s, 'e, 'a) op" where
  "ret x = (\<lambda>s. (Ok x, s))"

definition fail :: "'e \<Rightarrow> ('s, 'e, 'a) op" where
  "fail e = (\<lambda>s. (Err e, s))"

text \<open>A function that only reads the state.\<close>

definition ask :: "('s \<Rightarrow> ('e, 'a) res) \<Rightarrow> ('s, 'e, 'a) op" where
  "ask f = (\<lambda>s. (f s, s))"

definition modify :: "('s \<Rightarrow> 's) \<Rightarrow> ('s, 'e, unit) op" where
  "modify f = (\<lambda>s. (Ok (), f s))"

text \<open>Sequence with \<open>?\<close>.\<close>

definition bindop :: "('s, 'e, 'a) op \<Rightarrow> ('a \<Rightarrow> ('s, 'e, 'b) op) \<Rightarrow> ('s, 'e, 'b) op" where
  "bindop m f = (\<lambda>s. case m s of
     (Ok x, t) \<Rightarrow> f x t
   | (Err e, t) \<Rightarrow> (Err e, t)
   | (Panic, t) \<Rightarrow> (Panic, t))"

text \<open>The outcome as a value, for callers that match on it or drop it; a panic still unwinds.\<close>

definition attempt :: "('s, 'e, 'a) op \<Rightarrow> ('s, 'e, ('e, 'a) res) op" where
  "attempt m = (\<lambda>s. case m s of (Panic, t) \<Rightarrow> (Panic, t) | (r, t) \<Rightarrow> (Ok r, t))"

fun for_op :: "('a \<Rightarrow> 'b \<Rightarrow> ('s, 'e, 'b) op) \<Rightarrow> 'a list \<Rightarrow> 'b \<Rightarrow> ('s, 'e, 'b) op" where
  "for_op f [] acc = ret acc"
| "for_op f (x # xs) acc = bindop (f x acc) (for_op f xs)"

lemma bindop_cong [fundef_cong]:
  assumes "s = s'" "m s' = m' s'" "\<And>x t. m' s' = (Ok x, t) \<Longrightarrow> f x t = f' x t"
  shows "bindop m f s = bindop m' f' s'"
  using assms by (auto simp: bindop_def split: prod.split res.split)

named_theorems op_simps \<open>outcome and state of a composed operation\<close>

lemma ret_apply [op_simps]: "ret x s = (Ok x, s)"
  by (simp add: ret_def)

lemma fail_apply [op_simps]: "fail e s = (Err e, s)"
  by (simp add: fail_def)

lemma ask_apply [op_simps]: "ask f s = (f s, s)"
  by (simp add: ask_def)

lemma modify_apply [op_simps]: "modify f s = (Ok (), f s)"
  by (simp add: modify_def)

lemma bindop_cases:
  "bindop m f s =
    (case fst (m s) of Ok x \<Rightarrow> f x (snd (m s)) | Err e \<Rightarrow> (Err e, snd (m s)) | Panic \<Rightarrow> (Panic, snd (m s)))"
  by (cases "m s") (simp add: bindop_def split: res.split)

lemma bindop_Ok_iff [op_simps]:
  "bindop m f s = (Ok y, u) \<longleftrightarrow> (\<exists>x t. m s = (Ok x, t) \<and> f x t = (Ok y, u))"
  by (cases "m s"; cases "fst (m s)") (simp_all add: bindop_def)

lemma attempt_Ok_iff [op_simps]: "attempt m s = (Ok r, t) \<longleftrightarrow> m s = (r, t) \<and> r \<noteq> Panic"
  by (cases "m s"; cases "fst (m s)") (auto simp: attempt_def)

lemma bindop_OkE:
  assumes "bindop m f s = (Ok y, u)"
  obtains x t where "m s = (Ok x, t)" "f x t = (Ok y, u)"
  using assms by (auto simp: bindop_Ok_iff)

lemma ask_Ok_iff: "ask f s = (r, t) \<longleftrightarrow> f s = r \<and> s = t"
  by (simp add: ask_def)

lemma bindop_step: "m s = (Ok x, t) \<Longrightarrow> bindop m f s = f x t"
  by (simp add: bindop_def)

lemma bindop_fails: "m s = (Err e, t) \<Longrightarrow> bindop m f s = (Err e, t)"
  by (simp add: bindop_def)

section \<open>How the state may change\<close>

definition steps :: "('s \<Rightarrow> 's \<Rightarrow> bool) \<Rightarrow> ('s, 'e, 'a) op \<Rightarrow> bool" where
  "steps R m \<longleftrightarrow> (\<forall>s. R s (snd (m s)))"

lemma stepsD: "steps R m \<Longrightarrow> m s = (r, t) \<Longrightarrow> R s t"
  unfolding steps_def by (drule spec [of _ s]) simp

lemma stepsI:
  assumes "\<And>s r t. m s = (r, t) \<Longrightarrow> R s t"
  shows "steps R m"
  unfolding steps_def using assms [OF prod.collapse [symmetric]] by blast

lemma steps_mono: "steps R m \<Longrightarrow> (\<And>s t. R s t \<Longrightarrow> R' s t) \<Longrightarrow> steps R' m"
  by (simp add: steps_def)

lemma steps_modify: "(\<And>s. R s (f s)) \<Longrightarrow> steps R (modify f)"
  by (simp add: steps_def modify_def)

locale evolution =
  fixes R :: "'s \<Rightarrow> 's \<Rightarrow> bool"
  assumes refl: "R s s"
    and trans: "R s t \<Longrightarrow> R t u \<Longrightarrow> R s u"
begin

lemma steps_ret: "steps R (ret x)"
  by (simp add: steps_def ret_def refl)

lemma steps_fail: "steps R (fail e)"
  by (simp add: steps_def fail_def refl)

lemma steps_ask: "steps R (ask f)"
  by (simp add: steps_def ask_def refl)

lemma steps_bind:
  assumes "steps R m" "\<And>x s t. m s = (Ok x, t) \<Longrightarrow> R t (snd (f x t))"
  shows "steps R (bindop m f)"
proof (rule stepsI)
  fix s r u
  assume run: "bindop m f s = (r, u)"
  obtain r0 t where m: "m s = (r0, t)" by (cases "m s")
  have st: "R s t" by (rule stepsD [OF assms(1) m])
  show "R s u"
  proof (cases r0)
    case (Ok x)
    then have "f x t = (r, u)" using run m by (simp add: bindop_def)
    then have "R t u" using assms(2) m Ok by (metis snd_conv)
    then show ?thesis by (rule trans [OF st])
  qed (use run m st in \<open>auto simp: bindop_def\<close>)
qed

lemma steps_bindI: "steps R m \<Longrightarrow> (\<And>x. steps R (f x)) \<Longrightarrow> steps R (bindop m f)"
  by (rule steps_bind) (auto simp: steps_def)

lemma steps_attempt: "steps R m \<Longrightarrow> steps R (attempt m)"
  by (rule stepsI) (auto simp: attempt_def split: prod.splits res.splits dest: stepsD)

lemma steps_for: "(\<And>x acc. x \<in> set xs \<Longrightarrow> steps R (f x acc)) \<Longrightarrow> steps R (for_op f xs acc)"
  by (induction xs arbitrary: acc) (auto intro!: steps_ret steps_bindI)

lemma steps_if: "(b \<Longrightarrow> steps R m) \<Longrightarrow> (\<not> b \<Longrightarrow> steps R n) \<Longrightarrow> steps R (if b then m else n)"
  by simp

lemmas steps_intros = steps_ret steps_fail steps_ask steps_bindI steps_attempt steps_if steps_for

end

text \<open>Keeping an invariant is one such relation.\<close>

definition keeps :: "('s \<Rightarrow> bool) \<Rightarrow> 's \<Rightarrow> 's \<Rightarrow> bool" where
  "keeps P s t \<longleftrightarrow> (P s \<longrightarrow> P t)"

interpretation keep: evolution "keeps P" for P
  by unfold_locales (auto simp: keeps_def)

lemma for_op_append: "for_op f (xs @ ys) acc s = bindop (for_op f xs acc) (for_op f ys) s"
proof (induction xs arbitrary: acc s)
  case (Cons x xs)
  then show ?case by (auto simp: bindop_def split: prod.splits res.splits)
qed (simp add: bindop_def ret_def)

end
