(* ===== verification/Store.thy ===== *)
theory Store
  imports Core StateRes
begin

text \<open>
  The content-addressed chunk store (\<open>src/src/store.rs\<close>). The directory \<open>chunks\<close> is a map from
  the hash in a file's name to its bytes, and listing it goes in ascending order. The contract of
  such a store is the locale \<open>content_store\<close>: what is put under its address is found again,
  nothing else changes, and a chunk once stored is never replaced.
\<close>

section \<open>Operations\<close>

type_synonym cstore = "(content_hash, bytes) omap"

definition store_new :: cstore where
  "store_new = []"

definition put_verified :: "ext \<Rightarrow> content_hash \<Rightarrow> bytes \<Rightarrow> cstore \<Rightarrow> (bool \<times> cstore) result" where
  "put_verified X h data s =
     (let actual = hash_of X data in
      if actual \<noteq> h then Err (hash_mismatch X h actual)
      else case om_get s h of
             Some existing \<Rightarrow>
               if existing \<noteq> data then Err (CidCollision (to_hex X h)) else Ok (False, s)
           | None \<Rightarrow> Ok (True, om_insert h data s))"

definition put :: "ext \<Rightarrow> content_hash \<Rightarrow> bytes \<Rightarrow> cstore \<Rightarrow> (bool \<times> cstore) result" where
  "put X h data s = put_verified X h data s"

definition store_get :: "ext \<Rightarrow> cstore \<Rightarrow> content_hash \<Rightarrow> bytes result" where
  "store_get X s h =
     (case om_get s h of
        None \<Rightarrow> Err (ChunkNotFound (to_hex X h))
      | Some buf \<Rightarrow>
          let actual = hash_of X buf in
          if actual \<noteq> h then Err (hash_mismatch X h actual) else Ok buf)"

definition store_exists :: "cstore \<Rightarrow> content_hash \<Rightarrow> bool" where
  "store_exists s h \<longleftrightarrow> om_mem s h"

definition store_list :: "cstore \<Rightarrow> content_hash list" where
  "store_list s = om_keys s"

section \<open>The invariant\<close>

text \<open>Every blob is stored under its own hash.\<close>

definition addressed :: "ext \<Rightarrow> cstore \<Rightarrow> bool" where
  "addressed X s \<longleftrightarrow> om_wf s \<and> list_all (\<lambda>(h, d). hash_of X d = h) s"

lemma addressed_Nil [simp]: "addressed X []"
  by (simp add: addressed_def)

lemma addressed_get: "addressed X s \<Longrightarrow> om_get s h = Some d \<Longrightarrow> hash_of X d = h"
  by (auto simp: addressed_def list_all_iff dest: map_of_SomeD)

lemma addressed_insert: "addressed X s \<Longrightarrow> hash_of X d = h \<Longrightarrow> addressed X (om_insert h d s)"
  by (auto simp: addressed_def om_wf_insert list_all_iff set_om_insert)

lemma addressed_delete: "addressed X s \<Longrightarrow> addressed X (om_delete h s)"
  using om_wf_delete [of s h] by (auto simp: addressed_def list_all_iff om_delete_def)

lemma addressed_filter: "addressed X s \<Longrightarrow> addressed X (filter P s)"
  unfolding addressed_def om_wf_def list_all_iff
  by (auto intro: sorted_wrt_filter simp: sorted_wrt_map)

lemma put_Ok_iff:
  "put X h d s = Ok (b, s') \<longleftrightarrow>
     hash_of X d = h \<and>
     (om_get s h = Some d \<and> \<not> b \<and> s' = s \<or> om_get s h = None \<and> b \<and> s' = om_insert h d s)"
  by (auto simp: put_def put_verified_def Let_def split: option.splits)

lemma store_get_Ok_iff: "store_get X s h = Ok d \<longleftrightarrow> om_get s h = Some d \<and> hash_of X d = h"
  by (auto simp: store_get_def Let_def split: option.splits)

section \<open>The contract of a content-addressed store\<close>

locale content_store =
  fixes addr :: "'d \<Rightarrow> 'h"
    and put :: "'h \<Rightarrow> 'd \<Rightarrow> 's \<Rightarrow> ('e, bool \<times> 's) res"
    and look :: "'s \<Rightarrow> 'h \<Rightarrow> ('e, 'd) res"
    and ok :: "'s \<Rightarrow> bool"
  assumes put_ok: "ok s \<Longrightarrow> put h d s = Ok (b, t) \<Longrightarrow> ok t"
    and put_look: "ok s \<Longrightarrow> put h d s = Ok (b, t) \<Longrightarrow> look t h = Ok d"
    and put_keeps: "ok s \<Longrightarrow> put h d s = Ok (b, t) \<Longrightarrow> look s k = Ok e \<Longrightarrow> look t k = Ok e"
    and put_again: "ok s \<Longrightarrow> look s (addr d) = Ok d \<Longrightarrow> put (addr d) d s = Ok (False, s)"
    and look_addr: "look s h = Ok d \<Longrightarrow> addr d = h"
begin

text \<open>Storing a list of blobs under their addresses.\<close>

definition put_all :: "'d list \<Rightarrow> 's \<Rightarrow> ('e, 's) res" where
  "put_all ds s = for_res (\<lambda>d s. tryr (put (addr d) d s) (\<lambda>(b, s). Ok s)) ds s"

lemma put_all_ok: "ok s \<Longrightarrow> put_all ds s = Ok t \<Longrightarrow> ok t"
  unfolding put_all_def by (erule for_res_inv) (auto elim!: tryr_OkE intro: put_ok)

lemma put_all_keeps: "ok s \<Longrightarrow> put_all ds s = Ok t \<Longrightarrow> look s k = Ok e \<Longrightarrow> look t k = Ok e"
proof (induction ds arbitrary: s)
  case (Cons d ds)
  from Cons.prems(2) obtain b u where u: "put (addr d) d s = Ok (b, u)" "put_all ds u = Ok t"
    by (auto simp: put_all_def elim!: tryr_OkE)
  show ?case
    by (rule Cons.IH [OF put_ok [OF Cons.prems(1) u(1)] u(2) put_keeps [OF Cons.prems(1) u(1) Cons.prems(3)]])
qed (simp add: put_all_def)

lemma put_all_look: "ok s \<Longrightarrow> put_all ds s = Ok t \<Longrightarrow> d \<in> set ds \<Longrightarrow> look t (addr d) = Ok d"
proof (induction ds arbitrary: s)
  case (Cons d' ds)
  from Cons.prems(2) obtain b u where u: "put (addr d') d' s = Ok (b, u)" "put_all ds u = Ok t"
    by (auto simp: put_all_def elim!: tryr_OkE)
  note u_ok = put_ok [OF Cons.prems(1) u(1)]
  show ?case
  proof (cases "d = d'")
    case True
    then show ?thesis using put_all_keeps [OF u_ok u(2) put_look [OF Cons.prems(1) u(1)]] by simp
  next
    case False
    then show ?thesis using Cons.IH [OF u_ok u(2)] Cons.prems(3) by simp
  qed
qed simp

text \<open>A store holding all of them already is left as it is.\<close>

lemma put_all_again:
  "ok s \<Longrightarrow> (\<And>d. d \<in> set ds \<Longrightarrow> look s (addr d) = Ok d) \<Longrightarrow> put_all ds s = Ok s"
  by (induction ds) (auto simp: put_all_def put_again)

end

interpretation cs: content_store "hash_of X" "put X" "store_get X" "addressed X" for X
proof unfold_locales
  fix s h d b t
  assume s: "addressed X s" and p: "put X h d s = Ok (b, t)"
  then show "addressed X t" by (auto simp: put_Ok_iff addressed_insert)
  show "store_get X t h = Ok d" using p by (auto simp: put_Ok_iff store_get_Ok_iff om_get_insert)
  fix k e
  assume "store_get X s k = Ok e"
  then show "store_get X t k = Ok e" using p by (auto simp: put_Ok_iff store_get_Ok_iff om_get_insert)
qed (auto simp: put_Ok_iff store_get_Ok_iff)

text \<open>\<open>get\<close> never returns bytes that do not hash to what was asked for.\<close>

lemma store_get_verified: "store_get X s h = Ok d \<Longrightarrow> hash_of X d = h"
  by (rule cs.look_addr)

lemma put_refuses: "hash_of X d \<noteq> h \<Longrightarrow> put X h d s = Err (hash_mismatch X h (hash_of X d))"
  by (simp add: put_def put_verified_def Let_def)

lemma put_collision:
  "hash_of X d = h \<Longrightarrow> om_get s h = Some e \<Longrightarrow> e \<noteq> d \<Longrightarrow> put X h d s = Err (CidCollision (to_hex X h))"
  by (simp add: put_def put_verified_def Let_def)

lemma set_store_list: "set (store_list s) = {h. store_exists s h}"
  by (simp add: store_list_def store_exists_def set_om_keys)

text \<open>On an addressed store the operations are those of a map.\<close>

lemma store_get_addressed:
  assumes "addressed X s"
  shows "store_get X s k = (case om_get s k of Some e \<Rightarrow> Ok e | None \<Rightarrow> Err (ChunkNotFound (to_hex X k)))"
  using addressed_get [OF assms] by (auto simp: store_get_def Let_def split: option.splits)

lemma put_refines:
  assumes "addressed X s" "put X h d s = Ok (b, t)"
  shows "h = hash_of X d" "om_get t = (om_get s)(h \<mapsto> d)" "b \<longleftrightarrow> om_get s h = None"
  using assms by (auto simp: put_Ok_iff om_get_insert)

end
