(* ===== verification/VaultState.thy ===== *)
theory VaultState
  imports Identity Crypto Store
begin

text \<open>
  The state of one vault: the fields of the struct \<open>Vault\<close> (\<open>src/src/vault.rs\<close>) and the files
  under its root directory. A file named by a content hash is an entry of a map from that hash
  to its bytes; a JSON file holds the value it serialises, or is absent, or does not parse.
  Failures of the operating system (a full disk, a missing permission) are not modelled, and an
  operation that writes a temporary file and renames it writes the file in one step.
\<close>

section \<open>The records other modules keep beside the vault\<close>

text \<open>\<open>VaultPolicy\<close>, \<open>PolicyState\<close>, \<open>SnapshotEntry\<close> and \<open>SnapshotLog\<close> of \<open>policy.rs\<close>.\<close>

record policy =
  pl_min_replicas :: u8
  pl_snapshot_interval_secs :: u64
  pl_retain_snapshots :: u64
  pl_live_mode :: bool
  pl_prefer_nodes :: "string list"
  pl_max_head_age_secs :: u64
  pl_label :: "string option"

record policy_state =
  ps_last_auto_snapshot_at :: u64
  ps_last_auto_snapshot_head :: "string option"
  ps_auto_snapshot_count :: u64
  ps_updated_at :: u64

record snapshot_entry =
  se_hash :: string
  se_timestamp :: u64
  se_message :: string
  se_auto :: bool

type_synonym snapshot_log = "snapshot_entry list"

text \<open>\<open>PinSet\<close> and \<open>PeerHave\<close> of \<open>replication.rs\<close>.\<close>

record pin_set =
  pn_pins :: "string oset"
  pn_updated_at :: u64

record peer_have =
  ph_peers :: "(string, string oset) omap"
  ph_updated_at :: u64

text \<open>\<open>SyncState\<close> and \<open>SyncJob\<close> of \<open>sync.rs\<close>.\<close>

datatype sync_state = Fetching | Verifying | Done | Failed

record sync_job =
  sj_target :: content_hash
  sj_epoch :: u64
  sj_state :: sync_state
  sj_done_commits :: "content_hash oset"
  sj_done_trees :: "content_hash oset"
  sj_done_chunks :: "content_hash oset"
  sj_updated_at :: u64
  sj_error :: "string option"

section \<open>The vault\<close>

record vault =
  v_name :: string
  v_config :: vault_config
  v_key :: "bytes option"
  v_home :: "string json_file option" \<comment> \<open>the bound home and the secret key in its \<open>node.json\<close>\<close>
  d_config :: "vault_config json_file" \<comment> \<open>\<open>vault.json\<close>\<close>
  d_key :: "string option" \<comment> \<open>\<open>vault.key\<close>\<close>
  d_wrapped :: "wrapped_key json_file" \<comment> \<open>\<open>vault.wrapped.json\<close>\<close>
  d_chunks :: cstore
  d_trees_bin :: cstore
  d_trees_json :: cstore
  d_commits_bin :: cstore
  d_commits_json :: cstore
  d_head :: "string option" \<comment> \<open>\<open>HEAD\<close>\<close>
  d_heads :: "string option" \<comment> \<open>\<open>HEADS\<close>\<close>
  d_policy :: "policy json_file"
  d_pstate :: "policy_state json_file"
  d_snapshots :: "snapshot_log json_file"
  d_pins :: "pin_set json_file"
  d_have :: "peer_have json_file"
  d_jobs :: "(content_hash, sync_job json_file) omap" \<comment> \<open>\<open>sync/jobs\<close>\<close>

type_synonym 'a vop = "(vault, soal_error, 'a) op"

text \<open>Reading a JSON file that must be there once it exists.\<close>

definition json_or :: "'a \<Rightarrow> 'a json_file \<Rightarrow> 'a result" where
  "json_or dflt f = (case f of NoFile \<Rightarrow> Ok dflt | BadJson \<Rightarrow> Err Serde | Good x \<Rightarrow> Ok x)"

lemma json_or_simps [simp]:
  "json_or d NoFile = Ok d" "json_or d BadJson = Err Serde" "json_or d (Good x) = Ok x"
  by (simp_all add: json_or_def)

lemma json_or_not_Panic [simp]: "json_or d f \<noteq> Panic"
  by (cases f) simp_all

section \<open>Content addressing as an invariant of the directories\<close>

definition cas_ok :: "ext \<Rightarrow> vault \<Rightarrow> bool" where
  "cas_ok X v \<longleftrightarrow> addressed X (d_chunks v)
     \<and> addressed X (d_trees_bin v) \<and> addressed X (d_trees_json v)
     \<and> addressed X (d_commits_bin v) \<and> addressed X (d_commits_json v)"

text \<open>
  Objects are only added: a chunk keeps its bytes, an object file keeps existing, and files of
  other hashes than the ones written are untouched.
\<close>

definition grows :: "vault \<Rightarrow> vault \<Rightarrow> bool" where
  "grows v w \<longleftrightarrow>
     (\<forall>h d. om_get (d_chunks v) h = Some d \<longrightarrow> om_get (d_chunks w) h = Some d)
   \<and> (\<forall>h. om_mem (d_trees_bin v) h \<longrightarrow> om_mem (d_trees_bin w) h)
   \<and> (\<forall>h. om_mem (d_trees_json v) h \<longrightarrow> om_mem (d_trees_json w) h)
   \<and> (\<forall>h. om_mem (d_commits_bin v) h \<longrightarrow> om_mem (d_commits_bin w) h)
   \<and> (\<forall>h. om_mem (d_commits_json v) h \<longrightarrow> om_mem (d_commits_json w) h)"

interpretation gr: evolution grows
  by unfold_locales (auto simp: grows_def)

text \<open>Only the files that other modules keep beside the vault change.\<close>

definition core :: "vault \<Rightarrow> vault" where
  "core v = v\<lparr>d_policy := NoFile, d_pstate := NoFile, d_snapshots := NoFile, d_pins := NoFile,
     d_have := NoFile, d_jobs := []\<rparr>"

definition side :: "vault \<Rightarrow> vault \<Rightarrow> bool" where
  "side v w \<longleftrightarrow> core v = core w"

interpretation sd: evolution side
  by unfold_locales (auto simp: side_def)

lemma sideD:
  assumes "side v w"
  shows "v_name w = v_name v" "v_config w = v_config v" "v_key w = v_key v" "v_home w = v_home v"
    "d_config w = d_config v" "d_key w = d_key v" "d_wrapped w = d_wrapped v"
    "d_chunks w = d_chunks v" "d_trees_bin w = d_trees_bin v" "d_trees_json w = d_trees_json v"
    "d_commits_bin w = d_commits_bin v" "d_commits_json w = d_commits_json v"
    "d_head w = d_head v" "d_heads w = d_heads v"
proof -
  have eq: "core w = core v" using assms by (simp add: side_def)
  show "v_name w = v_name v" using arg_cong [OF eq, of v_name] by (simp add: core_def)
  show "v_config w = v_config v" using arg_cong [OF eq, of v_config] by (simp add: core_def)
  show "v_key w = v_key v" using arg_cong [OF eq, of v_key] by (simp add: core_def)
  show "v_home w = v_home v" using arg_cong [OF eq, of v_home] by (simp add: core_def)
  show "d_config w = d_config v" using arg_cong [OF eq, of d_config] by (simp add: core_def)
  show "d_key w = d_key v" using arg_cong [OF eq, of d_key] by (simp add: core_def)
  show "d_wrapped w = d_wrapped v" using arg_cong [OF eq, of d_wrapped] by (simp add: core_def)
  show "d_chunks w = d_chunks v" using arg_cong [OF eq, of d_chunks] by (simp add: core_def)
  show "d_trees_bin w = d_trees_bin v" using arg_cong [OF eq, of d_trees_bin] by (simp add: core_def)
  show "d_trees_json w = d_trees_json v" using arg_cong [OF eq, of d_trees_json] by (simp add: core_def)
  show "d_commits_bin w = d_commits_bin v" using arg_cong [OF eq, of d_commits_bin] by (simp add: core_def)
  show "d_commits_json w = d_commits_json v" using arg_cong [OF eq, of d_commits_json] by (simp add: core_def)
  show "d_head w = d_head v" using arg_cong [OF eq, of d_head] by (simp add: core_def)
  show "d_heads w = d_heads v" using arg_cong [OF eq, of d_heads] by (simp add: core_def)
qed

lemma side_cas: "side v w \<Longrightarrow> keeps (cas_ok X) v w"
  by (simp add: keeps_def cas_ok_def sideD)

lemma side_grows: "side v w \<Longrightarrow> grows v w"
  by (simp add: grows_def sideD)

end
