(* ===== verification/VaultConfig.thy ===== *)
theory VaultConfig
  imports VaultState
begin

text \<open>
  The life of a vault's configuration (\<open>src/src/vault.rs\<close>): the signed preimage, creating and
  opening a vault with its key in a plain file, in a passphrase-wrapped file or in an old
  configuration, and the operations that change the configuration. Each of those bumps
  \<open>config_seq\<close>, signs again when the node has a key, and writes the file.
\<close>

section \<open>Signing the configuration\<close>

definition DEFAULT_MIN_REPLICAS :: u8 where
  "DEFAULT_MIN_REPLICAS = 2"

definition config_sign_preimage :: "ext \<Rightarrow> vault_config \<Rightarrow> bytes result" where
  "config_sign_preimage X c =
     tryr (ok_or Serde (x_config_json X (vc_config_seq c, vc_created_at c, vc_encryption_enabled c,
             vc_key_wrapped c, vc_members c, vc_min_replicas c, vc_name c, vc_owner c, vc_vault_id c)))
       (\<lambda>json. Ok (frame DOMAIN_CONFIG json))"

definition sign_vault_config :: "ext \<Rightarrow> bytes \<Rightarrow> vault_config \<Rightarrow> vault_config result" where
  "sign_vault_config X sk c0 =
     (let c = c0\<lparr>vc_owner := Some (x_pk_display X (x_public X sk))\<rparr>
      in tryr (config_sign_preimage X c) (\<lambda>msg.
           Ok (c\<lparr>vc_config_sig := Some (x_hex_enc X (x_sign X sk msg))\<rparr>)))"

definition verify_vault_config :: "ext \<Rightarrow> vault_config \<Rightarrow> unit result" where
  "verify_vault_config X c =
     (case vc_config_sig c of
        None \<Rightarrow> Ok ()
      | Some sig_hex \<Rightarrow>
          if sig_hex = [] then Ok ()
          else tryr (ok_or (Verify ''config signed but owner missing'') (vc_owner c)) (\<lambda>owner.
            tryr (ok_or (Verify ''bad config owner'') (x_pk_parse X owner)) (\<lambda>pk.
            tryr (ok_or (Verify ''bad config_sig hex'') (x_hex_dec X (str_trim sig_hex))) (\<lambda>sig.
              if length sig \<noteq> 64 then Err (Verify ''config_sig must be 64 bytes'')
              else tryr (config_sign_preimage X c) (\<lambda>msg.
                if x_verify X pk msg sig then Ok () else Err (Verify ''vault config signature invalid''))))))"

section \<open>Creating a vault\<close>

definition write_config :: "vault_config \<Rightarrow> vault \<Rightarrow> vault" where
  "write_config c v = v\<lparr>d_config := Good c\<rparr>"

definition write_key_file :: "ext \<Rightarrow> bytes \<Rightarrow> vault \<Rightarrow> vault" where
  "write_key_file X k v = v\<lparr>d_key := Some (x_hex_enc X k)\<rparr>"

definition write_wrapped_key :: "wrapped_key \<Rightarrow> vault \<Rightarrow> vault" where
  "write_wrapped_key w v = v\<lparr>d_wrapped := Good w\<rparr>"

text \<open>A root directory with nothing in it, and the struct over it.\<close>

definition empty_root :: "string \<Rightarrow> vault_config \<Rightarrow> bytes option \<Rightarrow> string json_file option \<Rightarrow> vault" where
  "empty_root name c k home =
     \<lparr>v_name = name, v_config = c, v_key = k, v_home = home, d_config = NoFile, d_key = None,
      d_wrapped = NoFile, d_chunks = [], d_trees_bin = [], d_trees_json = [], d_commits_bin = [],
      d_commits_json = [], d_head = None, d_heads = None, d_policy = NoFile, d_pstate = NoFile,
      d_snapshots = NoFile, d_pins = NoFile, d_have = NoFile, d_jobs = []\<rparr>"

definition quoted :: "string \<Rightarrow> string" where
  "quoted s = CHR 0x27 # s @ [CHR 0x27]"

text \<open>
  The clock, the random key and the random vault id are arguments, as is the home directory's
  \<open>node.json\<close>; \<open>exists\<close> says whether the root directory is there already.
\<close>

definition create_with_policy ::
  "ext \<Rightarrow> u64 \<Rightarrow> bytes \<Rightarrow> bytes \<Rightarrow> string json_file \<Rightarrow> bool \<Rightarrow> string \<Rightarrow> bool \<Rightarrow> u8 \<Rightarrow> vault result"
where
  "create_with_policy X now rkey rid home exists name encryption_enabled min_replicas =
     (if exists then Err (Other (''Vault '' @ quoted name @ '' already exists''))
      else
        let key = (if encryption_enabled then Some rkey else None);
            members = (case local_author_sync X home of Ok author \<Rightarrow> [author] | _ \<Rightarrow> []);
            config = \<lparr>vc_name = name, vc_encryption_enabled = encryption_enabled,
              vc_min_replicas = max min_replicas 1, vc_created_at = now,
              vc_vault_id = x_hex_enc X rid, vc_config_seq = 1, vc_members = members,
              vc_owner = (case members of [] \<Rightarrow> None | m # _ \<Rightarrow> Some m), vc_config_sig = None,
              vc_key_wrapped = False, vc_key_hex = None\<rparr>;
            config = (case load_secret_key X home of
                        Ok sk \<Rightarrow> (case sign_vault_config X sk config of
                                    Ok c \<Rightarrow> c
                                  | _ \<Rightarrow> config\<lparr>vc_owner := Some (x_pk_display X (x_public X sk))\<rparr>)
                      | _ \<Rightarrow> config);
            v = write_config config (empty_root name config key (Some home));
            v = (case key of Some k \<Rightarrow> write_key_file X k v | None \<Rightarrow> v)
        in Ok v)"

definition create ::
  "ext \<Rightarrow> u64 \<Rightarrow> bytes \<Rightarrow> bytes \<Rightarrow> string json_file \<Rightarrow> bool \<Rightarrow> string \<Rightarrow> bool \<Rightarrow> vault result"
where
  "create X now rkey rid home exists name encryption_enabled =
     create_with_policy X now rkey rid home exists name encryption_enabled DEFAULT_MIN_REPLICAS"

definition create_for_test ::
  "ext \<Rightarrow> u64 \<Rightarrow> bytes \<Rightarrow> bool \<Rightarrow> string \<Rightarrow> bool \<Rightarrow> bytes \<Rightarrow> bytes option \<Rightarrow> string list \<Rightarrow> vault result"
where
  "create_for_test X now rkey exists name encryption_enabled vault_id key members =
     (if exists then Err (Other (''Vault '' @ quoted name @ '' already exists''))
      else
        let key = (if encryption_enabled then Some (case key of Some k \<Rightarrow> k | None \<Rightarrow> rkey) else None);
            config = \<lparr>vc_name = name, vc_encryption_enabled = encryption_enabled,
              vc_min_replicas = DEFAULT_MIN_REPLICAS, vc_created_at = now,
              vc_vault_id = x_hex_enc X vault_id, vc_config_seq = 1, vc_members = members,
              vc_owner = (case members of [] \<Rightarrow> None | m # _ \<Rightarrow> Some m), vc_config_sig = None,
              vc_key_wrapped = False, vc_key_hex = None\<rparr>;
            v = write_config config (empty_root name config key None)
        in Ok (case key of Some k \<Rightarrow> write_key_file X k v | None \<Rightarrow> v))"

section \<open>Opening a vault\<close>

definition load_wrapped_key :: "vault \<Rightarrow> wrapped_key result" where
  "load_wrapped_key v =
     (case d_wrapped v of
        NoFile \<Rightarrow> Err (Other ''vault.wrapped.json missing'')
      | BadJson \<Rightarrow> Err Serde
      | Good w \<Rightarrow> Ok w)"

text \<open>The key, the configuration with its updates, and the root with what was rewritten.\<close>

definition load_or_migrate_key ::
  "ext \<Rightarrow> string option \<Rightarrow> vault_config \<Rightarrow> vault \<Rightarrow> (bytes \<times> vault_config \<times> vault) result"
where
  "load_or_migrate_key X passphrase c v =
     (if d_wrapped v \<noteq> NoFile \<or> vc_key_wrapped c then
        tryr (ok_or (Other ''vault key is passphrase-protected; provide passphrase'') passphrase) (\<lambda>pass.
        tryr (load_wrapped_key v) (\<lambda>wrapped.
          if vc_vault_id c = [] then Err (Other ''vault_id required to unwrap passphrase key'')
          else tryr (vault_id_from_hex X (vc_vault_id c)) (\<lambda>vault_id.
            tryr (unwrap_vault_key_passphrase X wrapped pass vault_id) (\<lambda>k.
              Ok (k, c\<lparr>vc_key_wrapped := True\<rparr>, v)))))
      else case d_key v of
        Some hexstr \<Rightarrow> tryr (key_from_hex X hexstr) (\<lambda>k. Ok (k, c, v))
      | None \<Rightarrow>
          (case vc_key_hex c of
             Some hexkey \<Rightarrow>
               tryr (key_from_hex X hexkey) (\<lambda>k.
                 let c = c\<lparr>vc_key_hex := None\<rparr>
                 in Ok (k, c, write_config c (write_key_file X k v)))
           | None \<Rightarrow> Err (Other ''encryption enabled but vault key file missing'')))"

text \<open>\<open>disk\<close> is the root directory under the base directory, if there is one.\<close>

definition open_with_passphrase ::
  "ext \<Rightarrow> bytes \<Rightarrow> string json_file \<Rightarrow> string \<Rightarrow> vault option \<Rightarrow> string option \<Rightarrow> vault result"
where
  "open_with_passphrase X rid home name disk passphrase =
     (case disk of
        None \<Rightarrow> Err (VaultNotFound name)
      | Some v \<Rightarrow>
          tryr (case d_config v of NoFile \<Rightarrow> Err (Io ''not found'') | BadJson \<Rightarrow> Err Serde | Good c \<Rightarrow> Ok c) (\<lambda>c.
            let (c, rewritten) = (if vc_vault_id c = [] then (c\<lparr>vc_vault_id := x_hex_enc X rid\<rparr>, True)
                                  else (c, False));
                (c, rewritten) = (if vc_config_seq c = 0 then (c\<lparr>vc_config_seq := 1\<rparr>, True)
                                  else (c, rewritten))
            in tryr (if vc_encryption_enabled c then
                       tryr (load_or_migrate_key X passphrase c v) (\<lambda>(k, c, v). Ok (Some k, c, v))
                     else Ok (None, c, v)) (\<lambda>(key, c, v).
               let v = (if rewritten then write_config c v else v)
               in Ok (v\<lparr>v_name := vc_name c, v_config := c, v_key := key, v_home := Some home\<rparr>))))"

definition open_vault ::
  "ext \<Rightarrow> bytes \<Rightarrow> string json_file \<Rightarrow> string \<Rightarrow> vault option \<Rightarrow> vault result"
where
  "open_vault X rid home name disk = open_with_passphrase X rid home name disk None"

definition with_soal_home :: "string json_file \<Rightarrow> vault \<Rightarrow> vault" where
  "with_soal_home home v = v\<lparr>v_home := Some home\<rparr>"

definition vault_id_bytes :: "ext \<Rightarrow> vault \<Rightarrow> bytes result" where
  "vault_id_bytes X v =
     (if vc_vault_id (v_config v) = [] then
        Err (Other ''vault_id missing (recreate vault or run migration)'')
      else vault_id_from_hex X (vc_vault_id (v_config v)))"

definition persist_config :: "unit vop" where
  "persist_config = modify (\<lambda>v. write_config (v_config v) v)"

section \<open>Changing the configuration\<close>

text \<open>A signing error leaves the bumped number and the new owner in memory, and the file as it was.\<close>

definition bump_and_sign_config :: "ext \<Rightarrow> unit vop" where
  "bump_and_sign_config X =
     bindop (modify (\<lambda>v. v\<lparr>v_config := (v_config v)\<lparr>vc_config_seq := sat_add (vc_config_seq (v_config v)) 1\<rparr>\<rparr>)) (\<lambda>_ v.
       case v_home v of
         None \<Rightarrow> persist_config v
       | Some home \<Rightarrow>
           (case load_secret_key X home of
              Ok sk \<Rightarrow>
                (case sign_vault_config X sk (v_config v) of
                   Ok c \<Rightarrow> persist_config (v\<lparr>v_config := c\<rparr>)
                 | Err e \<Rightarrow> (Err e, v\<lparr>v_config := (v_config v)\<lparr>vc_owner := Some (x_pk_display X (x_public X sk))\<rparr>\<rparr>)
                 | Panic \<Rightarrow> (Panic, v))
            | _ \<Rightarrow> persist_config v))"

definition set_min_replicas :: "ext \<Rightarrow> u8 \<Rightarrow> unit vop" where
  "set_min_replicas X n =
     bindop (modify (\<lambda>v. v\<lparr>v_config := (v_config v)\<lparr>vc_min_replicas := max n 1\<rparr>\<rparr>)) (\<lambda>_. bump_and_sign_config X)"

definition member_listed :: "string list \<Rightarrow> string \<Rightarrow> bool" where
  "member_listed ms n \<longleftrightarrow> list_ex (\<lambda>m. eq_ignore_case m n) ms"

definition add_member :: "ext \<Rightarrow> string \<Rightarrow> unit vop" where
  "add_member X node_id =
     (let n = str_trim node_id in
      if n = [] then fail (Other ''empty member id'')
      else (\<lambda>v. if member_listed (vc_members (v_config v)) n then ret () v
             else bindop (modify (\<lambda>v. v\<lparr>v_config := (v_config v)\<lparr>vc_members := vc_members (v_config v) @ [n]\<rparr>\<rparr>))
                    (\<lambda>_. bump_and_sign_config X) v))"

definition remove_member :: "ext \<Rightarrow> string \<Rightarrow> bool vop" where
  "remove_member X node_id = (\<lambda>v.
     let before = vc_members (v_config v);
         kept = filter (\<lambda>m. \<not> eq_ignore_case m node_id) before
     in if length kept \<noteq> length before then
          bindop (modify (\<lambda>v. v\<lparr>v_config := (v_config v)\<lparr>vc_members := kept\<rparr>\<rparr>))
            (\<lambda>_. bindop (bump_and_sign_config X) (\<lambda>_. ret True)) v
        else ret False v)"

definition is_member :: "vault \<Rightarrow> string \<Rightarrow> bool" where
  "is_member v node \<longleftrightarrow>
     vc_members (v_config v) = [] \<or> member_listed (vc_members (v_config v)) (ascii_lower node)"

definition verify_config_signature :: "ext \<Rightarrow> vault \<Rightarrow> unit result" where
  "verify_config_signature X v = verify_vault_config X (v_config v)"

text \<open>The salt and the nonce are the random bytes drawn while wrapping.\<close>

definition enable_passphrase :: "ext \<Rightarrow> bytes \<Rightarrow> bytes \<Rightarrow> string \<Rightarrow> unit vop" where
  "enable_passphrase X salt nonce passphrase = (\<lambda>v.
     if \<not> vc_encryption_enabled (v_config v) then
       fail (Other ''cannot wrap key: encryption disabled'') v
     else bindop (ask (\<lambda>v. ok_or (Other ''vault key not loaded'') (v_key v))) (\<lambda>key.
       bindop (ask (vault_id_bytes X)) (\<lambda>vault_id.
         bindop (ask (\<lambda>_. wrap_vault_key_passphrase X salt nonce key passphrase vault_id)) (\<lambda>wrapped.
           bindop (modify (\<lambda>v. (write_wrapped_key wrapped v)\<lparr>d_key := None,
                     v_config := (v_config v)\<lparr>vc_key_wrapped := True, vc_key_hex := None\<rparr>\<rparr>)) (\<lambda>_.
             bump_and_sign_config X)))) v)"

text \<open>\<open>Vault::list\<close>: the directories under the base directory that hold a configuration.\<close>

type_synonym base_dir = "(string, vault) omap"

definition list_vaults :: "base_dir \<Rightarrow> string list" where
  "list_vaults base = sort (map fst (filter (\<lambda>(name, v). d_config v \<noteq> NoFile) base))"

section \<open>Configuration signatures\<close>

text \<open>Parsing a displayed public key returns it.\<close>

definition pk_law :: "ext \<Rightarrow> bool" where
  "pk_law X \<longleftrightarrow> (\<forall>sk. length sk = 32 \<longrightarrow> x_pk_parse X (x_pk_display X (x_public X sk)) = Some (x_public X sk))"

lemma preimage_unsigned [simp]:
  "config_sign_preimage X (c\<lparr>vc_config_sig := s\<rparr>) = config_sign_preimage X c"
  "config_sign_preimage X (c\<lparr>vc_key_hex := k\<rparr>) = config_sign_preimage X c"
  by (simp_all add: config_sign_preimage_def)

lemma sign_verify_config:
  assumes "sign_law X" "hex_law X" "pk_law X" "length sk = 32" "sign_vault_config X sk c = Ok c'"
  shows "verify_vault_config X c' = Ok ()" "vc_owner c' = Some (x_pk_display X (x_public X sk))"
    "vc_config_sig c' \<noteq> None"
proof -
  let ?c = "c\<lparr>vc_owner := Some (x_pk_display X (x_public X sk))\<rparr>"
  obtain m where m: "config_sign_preimage X ?c = Ok m"
    "c' = ?c\<lparr>vc_config_sig := Some (x_hex_enc X (x_sign X sk m))\<rparr>"
    using assms(5) by (auto simp: sign_vault_config_def Let_def elim!: tryr_OkE)
  have pk: "x_pk_parse X (x_pk_display X (x_public X sk)) = Some (x_public X sk)"
    using assms(3,4) by (simp add: pk_law_def)
  note law = sign_lawD [OF assms(1,4)]
  have "x_hex_enc X (x_sign X sk m) \<noteq> []"
    using hex_length [OF assms(2), of "x_sign X sk m"] law(4) by (metis list.size(3) mult_eq_0_iff zero_neq_numeral)
  with m pk law assms(2) show "verify_vault_config X c' = Ok ()"
    by (simp add: verify_vault_config_def hex_trim hex_dec_enc)
  show "vc_owner c' = Some (x_pk_display X (x_public X sk))" "vc_config_sig c' \<noteq> None" by (simp_all add: m)
qed

lemma sign_vault_config_fields:
  "sign_vault_config X sk c = Ok c' \<Longrightarrow>
    vc_members c' = vc_members c \<and> vc_config_seq c' = vc_config_seq c \<and> vc_vault_id c' = vc_vault_id c
    \<and> vc_min_replicas c' = vc_min_replicas c \<and> vc_encryption_enabled c' = vc_encryption_enabled c
    \<and> vc_key_wrapped c' = vc_key_wrapped c"
  by (auto simp: sign_vault_config_def Let_def elim!: tryr_OkE)

lemma load_secret_key_length: "load_secret_key X f = Ok sk \<Longrightarrow> length sk = 32"
  by (auto simp: load_secret_key_def split: json_file.splits if_splits elim!: tryr_OkE)

text \<open>
  What every change of the configuration promises: the number grows by one (or stays at the
  top), the file holds the configuration in memory, the members are kept, and with a node key
  the new signature verifies.
\<close>

lemma bump_and_sign_config_Ok:
  assumes "bump_and_sign_config X v = (Ok (), w)"
  shows "vc_config_seq (v_config w) = sat_add (vc_config_seq (v_config v)) 1"
    "d_config w = Good (v_config w)"
    "vc_members (v_config w) = vc_members (v_config v)"
    "vc_vault_id (v_config w) = vc_vault_id (v_config v)"
    "vc_encryption_enabled (v_config w) = vc_encryption_enabled (v_config v)"
    "vc_key_wrapped (v_config w) = vc_key_wrapped (v_config v)"
    "v_key w = v_key v" "d_wrapped w = d_wrapped v" "d_key w = d_key v"
  using assms
  by (auto simp: bump_and_sign_config_def bindop_def modify_def persist_config_def write_config_def
      split: option.splits res.splits dest!: sign_vault_config_fields)

lemma bump_and_sign_config_signed:
  assumes "sign_law X" "hex_law X" "pk_law X" "bump_and_sign_config X v = (Ok (), w)"
    and "v_home v = Some home" "load_secret_key X home = Ok sk"
  shows "verify_config_signature X w = Ok ()" "vc_config_sig (v_config w) \<noteq> None"
proof -
  obtain c where "sign_vault_config X sk ((v_config v)\<lparr>vc_config_seq := sat_add (vc_config_seq (v_config v)) 1\<rparr>) = Ok c"
    "v_config w = c"
    using assms(4-6)
    by (auto simp: bump_and_sign_config_def bindop_def modify_def persist_config_def write_config_def
        split: res.splits)
  with sign_verify_config [OF assms(1-3) load_secret_key_length [OF assms(6)]]
  show "verify_config_signature X w = Ok ()" "vc_config_sig (v_config w) \<noteq> None"
    by (simp_all add: verify_config_signature_def)
qed

lemma config_seq_grows:
  assumes "bump_and_sign_config X v = (Ok (), w)" "unat (vc_config_seq (v_config v)) < 2 ^ 64 - 1"
  shows "unat (vc_config_seq (v_config w)) = unat (vc_config_seq (v_config v)) + 1"
  using assms(2) by (simp add: bump_and_sign_config_Ok(1) [OF assms(1)] unat_sat_add)

section \<open>Members\<close>

lemma eq_ignore_case_lower [simp]: "eq_ignore_case m (ascii_lower n) \<longleftrightarrow> eq_ignore_case m n"
proof -
  have "to_lower (to_lower c) = to_lower c" for c
  proof -
    have "of_char c < (256::nat)" by (rule of_char_less)
    then show ?thesis by (simp add: to_lower_def Let_def)
  qed
  then show ?thesis by (simp add: eq_ignore_case_def ascii_lower_def comp_def)
qed

lemma is_member_iff:
  "is_member v n \<longleftrightarrow> vc_members (v_config v) = [] \<or> member_listed (vc_members (v_config v)) n"
  by (simp add: is_member_def member_listed_def)

lemma add_member_Ok:
  assumes "add_member X n v = (Ok (), w)"
  shows "is_member w (str_trim n)" "set (vc_members (v_config v)) \<subseteq> set (vc_members (v_config w))"
    "vc_members (v_config w) \<noteq> []"
  using assms
  by (auto simp: add_member_def Let_def op_simps is_member_iff member_listed_def eq_ignore_case_def list_ex_iff
      split: if_splits dest!: bump_and_sign_config_Ok(3))

lemma remove_member_Ok:
  assumes "remove_member X n v = (Ok b, w)"
  shows "vc_members (v_config w) = filter (\<lambda>m. \<not> eq_ignore_case m n) (vc_members (v_config v))"
    "b \<longleftrightarrow> member_listed (vc_members (v_config v)) n"
proof -
  let ?ms = "vc_members (v_config v)"
  have len: "length (filter (\<lambda>m. \<not> eq_ignore_case m n) ?ms) < length ?ms" if "member_listed ?ms n"
    using that by (auto simp: member_listed_def list_ex_iff intro: length_filter_less)
  have id: "filter (\<lambda>m. \<not> eq_ignore_case m n) ?ms = ?ms" if "\<not> member_listed ?ms n"
    using that by (intro filter_True) (auto simp: member_listed_def list_ex_iff)
  show "vc_members (v_config w) = filter (\<lambda>m. \<not> eq_ignore_case m n) ?ms" "b \<longleftrightarrow> member_listed ?ms n"
    using assms len id
    by (cases "member_listed ?ms n";
        auto simp: remove_member_def Let_def op_simps split: if_splits dest!: bump_and_sign_config_Ok(3))+
qed

section \<open>Passphrases\<close>

text \<open>Wrapping the key, then opening the root with the same passphrase, returns the key.\<close>

lemma enable_passphrase_Ok:
  assumes "enable_passphrase X salt nonce pass v = (Ok (), w)"
  obtains key vid wrapped where "v_key v = Some key" "vault_id_bytes X v = Ok vid"
    "wrap_vault_key_passphrase X salt nonce key pass vid = Ok wrapped" "d_wrapped w = Good wrapped"
    "d_key w = None" "vc_key_wrapped (v_config w)" "d_config w = Good (v_config w)"
    "vc_vault_id (v_config w) = vc_vault_id (v_config v)" "vc_encryption_enabled (v_config w)"
    "vc_config_seq (v_config w) = sat_add (vc_config_seq (v_config v)) 1"
proof -
  obtain key vid wrapped where k: "v_key v = Some key" "vault_id_bytes X v = Ok vid"
    "wrap_vault_key_passphrase X salt nonce key pass vid = Ok wrapped" "vc_encryption_enabled (v_config v)"
    and b: "bump_and_sign_config X ((write_wrapped_key wrapped v)\<lparr>d_key := None,
        v_config := (v_config v)\<lparr>vc_key_wrapped := True, vc_key_hex := None\<rparr>\<rparr>) = (Ok (), w)"
    using assms by (auto simp: enable_passphrase_def op_simps ask_Ok_iff ok_or_eq_Ok write_wrapped_key_def split: if_splits)
  show thesis
    by (rule that [OF k(1-3)]) (use bump_and_sign_config_Ok [OF b] k(4) in \<open>simp_all add: write_wrapped_key_def\<close>)
qed

lemma open_after_passphrase:
  assumes "aead_law X" "hex_law X" "length salt = 16" "length nonce = NONCE_LEN"
    and "v_key v = Some key" "length key = 32"
    and "enable_passphrase X salt nonce pass v = (Ok (), w)"
  shows "\<exists>u. open_with_passphrase X rid home name (Some w) (Some pass) = Ok u \<and> v_key u = Some key"
    and "open_vault X rid home name (Some w) = Err (Other ''vault key is passphrase-protected; provide passphrase'')"
proof -
  obtain vid wrapped where p: "vault_id_bytes X v = Ok vid"
    "wrap_vault_key_passphrase X salt nonce key pass vid = Ok wrapped" "d_wrapped w = Good wrapped"
    "vc_key_wrapped (v_config w)" "d_config w = Good (v_config w)"
    "vc_vault_id (v_config w) = vc_vault_id (v_config v)" "vc_encryption_enabled (v_config w)"
    "vc_config_seq (v_config w) = sat_add (vc_config_seq (v_config v)) 1"
    using enable_passphrase_Ok [OF assms(7)] assms(5) by (metis option.inject)
  have vid: "vc_vault_id (v_config w) \<noteq> []" "vault_id_from_hex X (vc_vault_id (v_config w)) = Ok vid"
    using p(1,6) by (auto simp: vault_id_bytes_def split: if_splits)
  have seq: "vc_config_seq (v_config w) \<noteq> 0"
    using p(8) unat_sat_add [of "vc_config_seq (v_config v)" 1] by (auto simp: word_unat_eq_iff)
  note u = unwrap_wrap_passphrase [OF assms(1-4,6) p(2)]
  show "\<exists>u. open_with_passphrase X rid home name (Some w) (Some pass) = Ok u \<and> v_key u = Some key"
    using p(3,4,5,7) vid seq u
    by (simp add: open_with_passphrase_def load_or_migrate_key_def load_wrapped_key_def)
  show "open_vault X rid home name (Some w) = Err (Other ''vault key is passphrase-protected; provide passphrase'')"
    using p(3,4,5,7) vid seq
    by (simp add: open_vault_def open_with_passphrase_def load_or_migrate_key_def)
qed

end
