(* ===== verification/Chunking.thy ===== *)
theory Chunking
  imports Core
begin

text \<open>
  Content-defined chunking (\<open>src/src/chunking.rs\<close>). FastCDC itself is a function of \<open>ext\<close> that
  returns the cuts; its law is that the cuts of a non-empty input are consecutive and cover it.
\<close>

record chunk_config =
  cc_avg_size :: u32
  cc_min_size :: u32
  cc_max_size :: u32

definition chunk_config_default :: chunk_config where
  "chunk_config_default = \<lparr>cc_avg_size = 2 * 1024 * 1024, cc_min_size = 256 * 1024, cc_max_size = 8 * 1024 * 1024\<rparr>"

definition sat_mul4 :: "u32 \<Rightarrow> u32" where
  "sat_mul4 v = (if unat v * 4 < 2 ^ 32 then v * 4 else 2 ^ 32 - 1)"

definition chunk_config_new :: "u32 \<Rightarrow> chunk_config" where
  "chunk_config_new avg_size =
     \<lparr>cc_avg_size = avg_size, cc_min_size = max (avg_size div 4) (64 * 1024), cc_max_size = sat_mul4 avg_size\<rparr>"

record chunk =
  ck_hash :: content_hash
  ck_data :: bytes

definition chunk_from_data :: "ext \<Rightarrow> bytes \<Rightarrow> chunk" where
  "chunk_from_data X data = \<lparr>ck_hash = hash_of X data, ck_data = data\<rparr>"

definition chunk_bytes :: "ext \<Rightarrow> bytes \<Rightarrow> chunk_config \<Rightarrow> chunk list" where
  "chunk_bytes X data config =
     (if data = [] then []
      else let chunks = map (\<lambda>(offset, len). chunk_from_data X (take len (drop offset data)))
                          (filter (\<lambda>(offset, len). offset + len \<le> length data)
                            (x_fastcdc X data (cc_min_size config) (cc_avg_size config) (cc_max_size config)))
           in if chunks = [] then [chunk_from_data X data] else chunks)"

definition chunk_file :: "ext \<Rightarrow> bytes \<Rightarrow> chunk_config \<Rightarrow> chunk list result" where
  "chunk_file X file_bytes config = Ok (chunk_bytes X file_bytes config)"

definition verify_chunk :: "ext \<Rightarrow> chunk \<Rightarrow> bool" where
  "verify_chunk X c \<longleftrightarrow> hash_of X (ck_data c) = ck_hash c"

text \<open>Consecutive cuts from \<open>pos\<close> to the end.\<close>

fun cuts_cover :: "nat \<Rightarrow> nat \<Rightarrow> (nat \<times> nat) list \<Rightarrow> bool" where
  "cuts_cover pos n [] \<longleftrightarrow> pos = n"
| "cuts_cover pos n ((offset, len) # cs) \<longleftrightarrow> offset = pos \<and> 0 < len \<and> pos + len \<le> n \<and> cuts_cover (pos + len) n cs"

definition fastcdc_law :: "ext \<Rightarrow> bool" where
  "fastcdc_law X \<longleftrightarrow>
     (\<forall>data mn av mx. data \<noteq> [] \<longrightarrow> cuts_cover 0 (length data) (x_fastcdc X data mn av mx))"

section \<open>Chunks put together are the input\<close>

lemma cuts_cover_concat:
  "cuts_cover pos (length data) cs \<Longrightarrow>
    filter (\<lambda>(offset, len). offset + len \<le> length data) cs = cs
    \<and> concat (map (\<lambda>(offset, len). take len (drop offset data)) cs) = drop pos data"
proof (induction cs arbitrary: pos)
  case (Cons c cs)
  obtain offset len where c: "c = (offset, len)" by (cases c)
  have "take len (drop pos data) @ drop (pos + len) data = drop pos data"
    by (metis append_take_drop_id drop_drop add.commute)
  with Cons c show ?case by auto
qed simp

lemma chunk_bytes_reassemble:
  assumes "fastcdc_law X"
  shows "concat (map ck_data (chunk_bytes X data config)) = data"
proof (cases "data = []")
  case False
  let ?cs = "x_fastcdc X data (cc_min_size config) (cc_avg_size config) (cc_max_size config)"
  have "cuts_cover 0 (length data) ?cs" using assms False by (simp add: fastcdc_law_def)
  note cs = cuts_cover_concat [OF this]
  have "ck_data \<circ> (\<lambda>(offset, len). chunk_from_data X (take len (drop offset data))) =
      (\<lambda>(offset, len). take len (drop offset data))"
    by (simp add: fun_eq_iff chunk_from_data_def)
  with cs False show ?thesis
    by (simp add: chunk_bytes_def Let_def) (auto simp: chunk_from_data_def)
qed (simp add: chunk_bytes_def)

lemma chunk_bytes_verify: "c \<in> set (chunk_bytes X data config) \<Longrightarrow> verify_chunk X c"
  by (auto simp: chunk_bytes_def Let_def chunk_from_data_def verify_chunk_def split: if_splits)

lemma chunk_bytes_Nil_iff: "chunk_bytes X data config = [] \<longleftrightarrow> data = []"
  by (auto simp: chunk_bytes_def Let_def)

lemma chunk_config_new_bounds:
  "unat (cc_min_size (chunk_config_new v)) = max (unat v div 4) 65536"
  "unat (cc_max_size (chunk_config_new v)) = min (unat v * 4) (2 ^ 32 - 1)"
proof -
  have "unat (v div 4) = unat v div 4" by (simp add: unat_div)
  then show "unat (cc_min_size (chunk_config_new v)) = max (unat v div 4) 65536"
    by (simp add: chunk_config_new_def max_def word_le_nat_alt)
  show "unat (cc_max_size (chunk_config_new v)) = min (unat v * 4) (2 ^ 32 - 1)"
    by (auto simp: chunk_config_new_def sat_mul4_def unat_word_ariths min_def)
qed

end
