(* ===== verification/VaultObjects.thy ===== *)
theory VaultObjects
  imports VaultConfig Chunking
begin

text \<open>
  The objects of a vault (\<open>src/src/vault.rs\<close>): chunks stored and loaded through the vault key,
  trees and commits saved, loaded, exported and imported, \<open>HEAD\<close> and \<open>HEADS\<close>. Each save is
  shown to be read back by the matching load; every operation keeps the directories content
  addressed and only adds objects.
\<close>

section \<open>Chunks\<close>

definition put_chunk :: "ext \<Rightarrow> content_hash \<Rightarrow> bytes \<Rightarrow> bool vop" where
  "put_chunk X h data = (\<lambda>v. case put X h data (d_chunks v) of
     Ok (b, s) \<Rightarrow> (Ok b, v\<lparr>d_chunks := s\<rparr>)
   | Err e \<Rightarrow> (Err e, v)
   | Panic \<Rightarrow> (Panic, v))"

definition stored_form :: "ext \<Rightarrow> bytes option \<Rightarrow> bytes \<Rightarrow> bytes result" where
  "stored_form X key plain = (case key of Some k \<Rightarrow> encrypt_deterministic X plain k | None \<Rightarrow> Ok plain)"

definition store_chunk :: "ext \<Rightarrow> chunk \<Rightarrow> content_hash vop" where
  "store_chunk X c =
     bindop (ask (\<lambda>v. stored_form X (v_key v) (ck_data c))) (\<lambda>data.
       let store_hash = hash_of X data
       in bindop (put_chunk X store_hash data) (\<lambda>_. ret store_hash))"

definition store_chunks :: "ext \<Rightarrow> chunk list \<Rightarrow> content_hash list vop" where
  "store_chunks X chunks = for_op (\<lambda>c acc. bindop (store_chunk X c) (\<lambda>h. ret (acc @ [h]))) chunks []"

definition load_chunk :: "ext \<Rightarrow> vault \<Rightarrow> content_hash \<Rightarrow> bytes result" where
  "load_chunk X v h =
     tryr (store_get X (d_chunks v) h) (\<lambda>stored.
       case v_key v of Some k \<Rightarrow> decrypt_chunk X stored k | None \<Rightarrow> Ok stored)"

definition has_chunk :: "vault \<Rightarrow> content_hash \<Rightarrow> bool" where
  "has_chunk v h \<longleftrightarrow> store_exists (d_chunks v) h"

definition export_stored_chunk :: "ext \<Rightarrow> vault \<Rightarrow> content_hash \<Rightarrow> bytes result" where
  "export_stored_chunk X v h = store_get X (d_chunks v) h"

definition import_stored_chunk :: "ext \<Rightarrow> content_hash \<Rightarrow> bytes \<Rightarrow> unit vop" where
  "import_stored_chunk X h data = bindop (put_chunk X h data) (\<lambda>_. ret ())"

definition chunk_count :: "vault \<Rightarrow> nat" where
  "chunk_count v = length (store_list (d_chunks v))"

section \<open>Trees and commits\<close>

definition save_tree :: "ext \<Rightarrow> tree \<Rightarrow> content_hash vop" where
  "save_tree X t =
     bindop (ask (\<lambda>_. tree_cid X t)) (\<lambda>h.
     bindop (ask (\<lambda>_. encode_tree_wire t)) (\<lambda>bytes.
     bindop (modify (\<lambda>v. v\<lparr>d_trees_bin := om_insert h bytes (d_trees_bin v)\<rparr>)) (\<lambda>_. ret h)))"

definition save_commit :: "ext \<Rightarrow> commit \<Rightarrow> content_hash vop" where
  "save_commit X c =
     bindop (ask (\<lambda>_. commit_cid X c)) (\<lambda>h.
     bindop (ask (\<lambda>_. encode_commit_wire X c)) (\<lambda>bytes.
     bindop (modify (\<lambda>v. v\<lparr>d_commits_bin := om_insert h bytes (d_commits_bin v)\<rparr>)) (\<lambda>_. ret h)))"

definition make_commit ::
  "ext \<Rightarrow> u64 \<Rightarrow> content_hash \<Rightarrow> content_hash list \<Rightarrow> string \<Rightarrow> vault \<Rightarrow> commit result"
where
  "make_commit X now tr parents message v =
     (let author = (case v_home v of
            Some home \<Rightarrow> (case local_author_sync X home of Ok a \<Rightarrow> a | _ \<Rightarrow> ''soal-local'')
          | None \<Rightarrow> ''soal-local'');
          commit = commit_new now tr parents author message
      in case v_home v of
           Some home \<Rightarrow> (case load_secret_key X home of Ok sk \<Rightarrow> sign_commit X sk commit | _ \<Rightarrow> Ok commit)
         | None \<Rightarrow> Ok commit)"

definition has_commit_object :: "vault \<Rightarrow> content_hash \<Rightarrow> bool" where
  "has_commit_object v h \<longleftrightarrow> om_mem (d_commits_bin v) h \<or> om_mem (d_commits_json v) h"

definition has_tree_object :: "vault \<Rightarrow> content_hash \<Rightarrow> bool" where
  "has_tree_object v h \<longleftrightarrow> om_mem (d_trees_bin v) h \<or> om_mem (d_trees_json v) h"

definition load_commit :: "ext \<Rightarrow> vault \<Rightarrow> content_hash \<Rightarrow> commit result" where
  "load_commit X v h =
     (case om_get (d_commits_bin v) h of
        Some data \<Rightarrow>
          if hash_of X data \<noteq> h then Err (hash_mismatch X h (hash_of X data))
          else tryr (commit_from_wire_or_json X data) (\<lambda>c.
            tryr (commit_cid X c) (\<lambda>actual.
              if actual \<noteq> h then Err (hash_mismatch X h actual) else Ok c))
      | None \<Rightarrow>
          (case om_get (d_commits_json v) h of
             Some data \<Rightarrow>
               tryr (commit_from_bytes X data) (\<lambda>c.
                 tryr (legacy_json_hash X c) (\<lambda>actual.
                   if actual \<noteq> h \<and> hash_of X data \<noteq> h then Err (hash_mismatch X h actual) else Ok c))
           | None \<Rightarrow> Err (CommitNotFound (to_hex X h))))"

definition load_tree :: "ext \<Rightarrow> vault \<Rightarrow> content_hash \<Rightarrow> tree result" where
  "load_tree X v h =
     (case om_get (d_trees_bin v) h of
        Some data \<Rightarrow>
          if hash_of X data \<noteq> h then Err (hash_mismatch X h (hash_of X data))
          else tryr (tree_from_wire_or_json X data) (\<lambda>t.
            tryr (tree_cid X t) (\<lambda>actual.
              if actual \<noteq> h then Err (hash_mismatch X h actual) else Ok t))
      | None \<Rightarrow>
          (case om_get (d_trees_json v) h of
             Some data \<Rightarrow>
               tryr (tree_from_bytes X data) (\<lambda>t.
                 tryr (tree_legacy_hash X t) (\<lambda>actual.
                   if actual \<noteq> h \<and> hash_of X data \<noteq> h then Err (hash_mismatch X h actual) else Ok t))
           | None \<Rightarrow> Err (TreeNotFound (to_hex X h))))"

section \<open>Heads\<close>

definition set_head :: "ext \<Rightarrow> content_hash \<Rightarrow> unit vop" where
  "set_head X h = modify (\<lambda>v. v\<lparr>d_head := Some (to_hex X h)\<rparr>)"

definition head_of :: "ext \<Rightarrow> vault \<Rightarrow> content_hash option result" where
  "head_of X v =
     (case d_head v of
        None \<Rightarrow> Ok None
      | Some hexstr \<Rightarrow> tryr (from_hex X (str_trim hexstr)) (\<lambda>h. Ok (Some h)))"

text \<open>The hashes of the lines that hold one; other lines are skipped.\<close>

definition parse_heads :: "ext \<Rightarrow> string \<Rightarrow> content_hash oset" where
  "parse_heads X body =
     fold (\<lambda>line heads.
       let line = str_trim line in
       if line = [] then heads
       else (case from_hex X line of Ok h \<Rightarrow> os_insert h heads | _ \<Rightarrow> heads)) (str_lines body) []"

definition list_heads_file_only :: "ext \<Rightarrow> vault \<Rightarrow> content_hash oset result" where
  "list_heads_file_only X v = Ok (case d_heads v of None \<Rightarrow> [] | Some body \<Rightarrow> parse_heads X body)"

definition list_heads :: "ext \<Rightarrow> vault \<Rightarrow> content_hash oset result" where
  "list_heads X v =
     tryr (list_heads_file_only X v) (\<lambda>heads.
       tryr (head_of X v) (\<lambda>h. Ok (case h of Some h \<Rightarrow> os_insert h heads | None \<Rightarrow> heads)))"

definition heads_body :: "ext \<Rightarrow> content_hash oset \<Rightarrow> string" where
  "heads_body X heads = concat (map (\<lambda>h. to_hex X h @ [CHR 0x0A]) heads)"

definition write_heads :: "ext \<Rightarrow> content_hash oset \<Rightarrow> unit vop" where
  "write_heads X heads = modify (\<lambda>v. v\<lparr>d_heads := Some (heads_body X heads)\<rparr>)"

definition record_head :: "ext \<Rightarrow> content_hash \<Rightarrow> unit vop" where
  "record_head X h = bindop (ask (list_heads X)) (\<lambda>heads. write_heads X (os_insert h heads))"

definition set_head_public :: "ext \<Rightarrow> content_hash \<Rightarrow> unit vop" where
  "set_head_public X h =
     bindop (ask (\<lambda>v. load_commit X v h)) (\<lambda>_. bindop (set_head X h) (\<lambda>_. record_head X h))"

definition set_divergent_head :: "ext \<Rightarrow> content_hash \<Rightarrow> unit vop" where
  "set_divergent_head X h =
     bindop (ask (\<lambda>v. load_commit X v h)) (\<lambda>_.
     bindop (record_head X h) (\<lambda>_.
     bindop (ask (head_of X)) (\<lambda>cur. if cur = None then set_head X h else ret ())))"

definition head_tree :: "ext \<Rightarrow> vault \<Rightarrow> tree result" where
  "head_tree X v =
     tryr (head_of X v) (\<lambda>h. case h of
       Some h \<Rightarrow> tryr (load_commit X v h) (\<lambda>c. load_tree X v (c_tree c))
     | None \<Rightarrow> Ok tree_new)"

section \<open>Transfer\<close>

definition export_tree_bytes :: "ext \<Rightarrow> vault \<Rightarrow> content_hash \<Rightarrow> bytes result" where
  "export_tree_bytes X v h =
     (let encoded = tryr (load_tree X v h) (\<lambda>t.
            tryr (encode_tree_wire t) (\<lambda>wire.
              if hash_of X wire = h then Ok wire
              else tryr (tree_canonical_bytes X t) (\<lambda>legacy.
                if hash_of X legacy = h then Ok legacy
                else Err (hash_mismatch X h (hash_of X wire)))))
      in case om_get (d_trees_bin v) h of
           Some data \<Rightarrow> if hash_of X data = h then Ok data else encoded
         | None \<Rightarrow> encoded)"

definition export_commit_bytes :: "ext \<Rightarrow> vault \<Rightarrow> content_hash \<Rightarrow> bytes result" where
  "export_commit_bytes X v h =
     (let encoded = tryr (load_commit X v h) (\<lambda>c.
            tryr (encode_commit_wire X c) (\<lambda>wire.
              if hash_of X wire = h then Ok wire
              else tryr (legacy_json_bytes X c) (\<lambda>legacy.
                if hash_of X legacy = h then Ok legacy
                else Err (hash_mismatch X h (hash_of X wire)))))
      in case om_get (d_commits_bin v) h of
           Some data \<Rightarrow> if hash_of X data = h then Ok data else encoded
         | None \<Rightarrow> encoded)"

definition import_tree_bytes :: "ext \<Rightarrow> content_hash \<Rightarrow> bytes \<Rightarrow> unit vop" where
  "import_tree_bytes X h data =
     (if hash_of X data \<noteq> h then fail (hash_mismatch X h (hash_of X data))
      else if has_domain DOMAIN_TREE data then
        bindop (ask (\<lambda>_. tree_from_wire_or_json X data)) (\<lambda>t.
        bindop (ask (\<lambda>_. tree_cid X t)) (\<lambda>actual.
          if actual \<noteq> h then fail (hash_mismatch X h actual)
          else modify (\<lambda>v. v\<lparr>d_trees_bin := om_insert h data (d_trees_bin v)\<rparr>)))
      else
        bindop (ask (\<lambda>_. tree_from_bytes X data)) (\<lambda>t.
        bindop (ask (\<lambda>_. tree_legacy_hash X t)) (\<lambda>actual.
          if actual \<noteq> h \<and> hash_of X data \<noteq> h then fail (hash_mismatch X h actual)
          else modify (\<lambda>v. v\<lparr>d_trees_json := om_insert h data (d_trees_json v)\<rparr>))))"

definition import_commit_bytes :: "ext \<Rightarrow> content_hash \<Rightarrow> bytes \<Rightarrow> unit vop" where
  "import_commit_bytes X h data =
     (if hash_of X data \<noteq> h then fail (hash_mismatch X h (hash_of X data))
      else if has_domain DOMAIN_COMMIT data then
        bindop (ask (\<lambda>_. commit_from_wire_or_json X data)) (\<lambda>c.
        bindop (ask (\<lambda>_. commit_cid X c)) (\<lambda>actual.
          if actual \<noteq> h then fail (hash_mismatch X h actual)
          else bindop (ask (\<lambda>_. verify_commit_signature X c)) (\<lambda>_.
            modify (\<lambda>v. v\<lparr>d_commits_bin := om_insert h data (d_commits_bin v)\<rparr>))))
      else
        bindop (ask (\<lambda>_. commit_from_bytes X data)) (\<lambda>c.
        bindop (ask (\<lambda>_. legacy_json_hash X c)) (\<lambda>actual.
          if actual \<noteq> h \<and> hash_of X data \<noteq> h then fail (hash_mismatch X h actual)
          else modify (\<lambda>v. v\<lparr>d_commits_json := om_insert h data (d_commits_json v)\<rparr>))))"

definition resolve_blob :: "ext \<Rightarrow> vault \<Rightarrow> content_hash \<Rightarrow> bytes result" where
  "resolve_blob X v h =
     (if has_chunk v h then export_stored_chunk X v h
      else if has_tree_object v h then export_tree_bytes X v h
      else if has_commit_object v h then export_commit_bytes X v h
      else Err (ChunkNotFound (to_hex X h)))"

definition is_complete :: "ext \<Rightarrow> vault \<Rightarrow> content_hash \<Rightarrow> bool result" where
  "is_complete X v h =
     (if \<not> has_commit_object v h then Ok False
      else tryr (load_commit X v h) (\<lambda>c.
        if \<not> has_tree_object v (c_tree c) then Ok False
        else tryr (load_tree X v (c_tree c)) (\<lambda>t.
          Ok (list_all (has_chunk v) (all_chunk_hashes t)))))"

section \<open>Evolution of the directories\<close>

lemma om_mem_insertI: "om_mem m k \<Longrightarrow> om_mem (om_insert h d m) k"
  by (simp add: om_mem_insert)

lemma save_tree_eq:
  "save_tree X t v =
    (case encode_tree_wire t of
       Ok w \<Rightarrow> (Ok (hash_of X w), v\<lparr>d_trees_bin := om_insert (hash_of X w) w (d_trees_bin v)\<rparr>)
     | Err e \<Rightarrow> (Err e, v) | Panic \<Rightarrow> (Panic, v))"
  by (cases "encode_tree_wire t")
    (simp_all add: save_tree_def bindop_def ask_def tree_cid_def cid_of_def modify_def ret_def)

lemma save_commit_eq:
  "save_commit X c v =
    (case encode_commit_wire X c of
       Ok w \<Rightarrow> (Ok (hash_of X w), v\<lparr>d_commits_bin := om_insert (hash_of X w) w (d_commits_bin v)\<rparr>)
     | Err e \<Rightarrow> (Err e, v) | Panic \<Rightarrow> (Panic, v))"
  by (cases "encode_commit_wire X c")
    (simp_all add: save_commit_def bindop_def ask_def commit_cid_def cid_of_def modify_def ret_def)

text \<open>An import that ends well has stored the bytes it was given, and they hash to the name.\<close>

lemma import_tree_Ok:
  assumes "import_tree_bytes X h data v = (Ok (), w)"
  shows "hash_of X data = h"
    "w = (if has_domain DOMAIN_TREE data then v\<lparr>d_trees_bin := om_insert h data (d_trees_bin v)\<rparr>
          else v\<lparr>d_trees_json := om_insert h data (d_trees_json v)\<rparr>)"
  using assms by (auto simp: import_tree_bytes_def op_simps ask_Ok_iff split: if_splits)

lemma import_tree_error: "import_tree_bytes X h data v = (r, w) \<Longrightarrow> r \<noteq> Ok () \<Longrightarrow> w = v"
  by (auto simp: import_tree_bytes_def bindop_def ask_def fail_def modify_def split: if_splits res.splits)

lemma import_commit_Ok:
  assumes "import_commit_bytes X h data v = (Ok (), w)"
  shows "hash_of X data = h"
    "w = (if has_domain DOMAIN_COMMIT data then v\<lparr>d_commits_bin := om_insert h data (d_commits_bin v)\<rparr>
          else v\<lparr>d_commits_json := om_insert h data (d_commits_json v)\<rparr>)"
    "has_domain DOMAIN_COMMIT data \<Longrightarrow> \<exists>c. decode_commit_wire X data = Ok c \<and> verify_commit_signature X c = Ok ()"
  using assms by (auto simp: import_commit_bytes_def op_simps ask_Ok_iff commit_from_wire_or_json_def split: if_splits)

lemma import_commit_error: "import_commit_bytes X h data v = (r, w) \<Longrightarrow> r \<noteq> Ok () \<Longrightarrow> w = v"
  by (auto simp: import_commit_bytes_def bindop_def ask_def fail_def modify_def split: if_splits res.splits)

section \<open>The contract of a write\<close>

text \<open>
  Every operation on a vault writes in one of three ways: an object under the hash of its bytes,
  a chunk only where none is or the same is; the head files; or the files other modules keep
  beside the vault. A relation that such writes respect is respected by every operation built
  from them, which the theories of the operations show in this context.
\<close>

locale object_writes = evolution R for R :: "vault \<Rightarrow> vault \<Rightarrow> bool" +
  fixes X :: ext
  assumes chunk_write: "hash_of X d = h \<Longrightarrow> om_get (d_chunks v) h = None \<Longrightarrow> R v (v\<lparr>d_chunks := om_insert h d (d_chunks v)\<rparr>)"
    and tree_write: "hash_of X d = h \<Longrightarrow> R v (v\<lparr>d_trees_bin := om_insert h d (d_trees_bin v)\<rparr>)"
    and tree_json_write: "hash_of X d = h \<Longrightarrow> R v (v\<lparr>d_trees_json := om_insert h d (d_trees_json v)\<rparr>)"
    and commit_write: "hash_of X d = h \<Longrightarrow> R v (v\<lparr>d_commits_bin := om_insert h d (d_commits_bin v)\<rparr>)"
    and commit_json_write: "hash_of X d = h \<Longrightarrow> R v (v\<lparr>d_commits_json := om_insert h d (d_commits_json v)\<rparr>)"
    and head_write: "R v (v\<lparr>d_head := a\<rparr>)" "R v (v\<lparr>d_heads := b\<rparr>)"
    and side_write: "side v w \<Longrightarrow> R v w"
begin

lemma side_steps: "steps side m \<Longrightarrow> steps R m"
  by (erule steps_mono) (rule side_write)

lemma put_chunk_steps: "steps R (put_chunk X h d)"
proof (rule stepsI)
  fix v r w
  assume run: "put_chunk X h d v = (r, w)"
  show "R v w"
  proof (cases "put X h d (d_chunks v)")
    case (Ok p)
    then obtain b s where p: "put X h d (d_chunks v) = Ok (b, s)" by (cases p) simp
    have w: "w = v\<lparr>d_chunks := s\<rparr>" using run by (simp add: put_chunk_def p)
    from p consider "s = d_chunks v" | "om_get (d_chunks v) h = None" "hash_of X d = h" "s = om_insert h d (d_chunks v)"
      by (auto simp: put_Ok_iff)
    then show ?thesis unfolding w by cases (auto simp: refl chunk_write)
  qed (use run refl in \<open>auto simp: put_chunk_def\<close>)
qed

lemma save_tree_steps: "steps R (save_tree X t)"
  by (auto simp: steps_def save_tree_eq refl tree_write split: res.split)

lemma save_commit_steps: "steps R (save_commit X c)"
  by (auto simp: steps_def save_commit_eq refl commit_write split: res.split)

lemma import_tree_steps: "steps R (import_tree_bytes X h d)"
proof (rule stepsI)
  fix v r w
  assume run: "import_tree_bytes X h d v = (r, w)"
  show "R v w"
    using import_tree_error [OF run] import_tree_Ok [of X h d v w] run
    by (cases "r = Ok ()") (auto simp: refl tree_write tree_json_write)
qed

lemma import_commit_steps: "steps R (import_commit_bytes X h d)"
proof (rule stepsI)
  fix v r w
  assume run: "import_commit_bytes X h d v = (r, w)"
  show "R v w"
    using import_commit_error [OF run] import_commit_Ok(1,2) [of X h d v w] run
    by (cases "r = Ok ()") (auto simp: refl commit_write commit_json_write)
qed

lemma set_head_steps: "steps R (set_head Y h)"
  unfolding set_head_def by (rule steps_modify) (rule head_write)

lemma write_heads_steps: "steps R (write_heads Y hs)"
  unfolding write_heads_def by (rule steps_modify) (rule head_write)

lemmas write_steps = put_chunk_steps save_tree_steps save_commit_steps import_tree_steps import_commit_steps
  set_head_steps write_heads_steps

lemma store_chunk_steps: "steps R (store_chunk X c)"
  unfolding store_chunk_def Let_def by (intro steps_intros write_steps)

lemma store_chunks_steps: "steps R (store_chunks X cs)"
  unfolding store_chunks_def by (intro steps_intros store_chunk_steps)

lemma import_chunk_steps: "steps R (import_stored_chunk X h d)"
  unfolding import_stored_chunk_def by (intro steps_intros write_steps)

lemma record_head_steps: "steps R (record_head Y h)"
  unfolding record_head_def by (intro steps_intros write_steps)

lemma set_head_public_steps: "steps R (set_head_public Y h)"
  unfolding set_head_public_def by (intro steps_intros write_steps record_head_steps)

lemma set_divergent_head_steps: "steps R (set_divergent_head Y h)"
  unfolding set_divergent_head_def by (intro steps_intros write_steps record_head_steps)

lemmas object_steps = write_steps store_chunk_steps store_chunks_steps import_chunk_steps record_head_steps
  set_head_public_steps set_divergent_head_steps

end

text \<open>Content addressing, the growth of the directories and the configuration are respected.\<close>

interpretation oc: object_writes "keeps (cas_ok X)" X for X
  by unfold_locales (auto simp: keeps_def cas_ok_def addressed_insert sideD)

interpretation og: object_writes grows X for X
  by unfold_locales (auto simp: grows_def om_mem_insert om_get_insert sideD)

definition same_config :: "vault \<Rightarrow> vault \<Rightarrow> bool" where
  "same_config v w \<longleftrightarrow> v_config w = v_config v \<and> d_config w = d_config v \<and> v_key w = v_key v \<and> v_home w = v_home v
     \<and> d_key w = d_key v \<and> d_wrapped w = d_wrapped v"

interpretation sc: evolution same_config
  by unfold_locales (auto simp: same_config_def)

interpretation os: object_writes same_config X for X
  by unfold_locales (auto simp: same_config_def sideD)

section \<open>What was stored is read back\<close>

text \<open>What \<open>load_chunk\<close> does with the bytes of the store, and the hash they go by.\<close>

lemma stored_form_opens:
  assumes "aead_law X" "hash_law X" "stored_form X key plain = Ok data"
  shows "(case key of Some k \<Rightarrow> decrypt_chunk X data k | None \<Rightarrow> Ok data) = Ok plain"
  using assms decrypt_encrypt_deterministic [OF assms(1,2)]
  by (auto simp: stored_form_def split: option.splits)

lemma store_chunk_Ok:
  assumes "store_chunk X c v = (Ok h, w)"
  obtains data where "stored_form X (v_key v) (ck_data c) = Ok data" "h = hash_of X data"
    "om_get (d_chunks w) h = Some data" "v_key w = v_key v"
    "\<exists>s. w = v\<lparr>d_chunks := s\<rparr>"
proof -
  obtain data b where d: "stored_form X (v_key v) (ck_data c) = Ok data"
    "put_chunk X (hash_of X data) data v = (Ok b, w)" "h = hash_of X data"
    using assms by (auto simp: store_chunk_def Let_def op_simps ask_Ok_iff)
  then obtain s where s: "put X (hash_of X data) data (d_chunks v) = Ok (b, s)" "w = v\<lparr>d_chunks := s\<rparr>"
    by (auto simp: put_chunk_def split: res.splits)
  have "om_get (d_chunks w) h = Some data" using s d(3) by (auto simp: put_Ok_iff om_get_insert)
  then show thesis using that [OF d(1,3)] s(2) by auto
qed

lemma load_stored_chunk:
  assumes "aead_law X" "hash_law X" "store_chunk X c v = (Ok h, w)"
  shows "load_chunk X w h = Ok (ck_data c)"
proof -
  from assms(3) obtain data where "stored_form X (v_key v) (ck_data c) = Ok data" "h = hash_of X data"
    "om_get (d_chunks w) h = Some data" "v_key w = v_key v" by (rule store_chunk_Ok)
  moreover from this have "store_get X (d_chunks w) h = Ok data" by (simp add: store_get_Ok_iff)
  ultimately show ?thesis
    using stored_form_opens [OF assms(1,2)] by (simp add: load_chunk_def)
qed

lemma load_chunk_grows: "grows v w \<Longrightarrow> v_key w = v_key v \<Longrightarrow> load_chunk X v h = Ok d \<Longrightarrow> load_chunk X w h = Ok d"
proof -
  assume g: "grows v w" "v_key w = v_key v" "load_chunk X v h = Ok d"
  then obtain stored where st: "store_get X (d_chunks v) h = Ok stored"
    "(case v_key v of Some k \<Rightarrow> decrypt_chunk X stored k | None \<Rightarrow> Ok stored) = Ok d"
    by (auto simp: load_chunk_def elim!: tryr_OkE)
  then have "store_get X (d_chunks w) h = Ok stored" using g(1) by (simp add: store_get_Ok_iff grows_def)
  with st(2) g(2) show "load_chunk X w h = Ok d" by (simp add: load_chunk_def)
qed

definition push_chunk :: "ext \<Rightarrow> chunk \<Rightarrow> content_hash list \<Rightarrow> content_hash list vop" where
  "push_chunk X c acc = bindop (store_chunk X c) (\<lambda>h. ret (acc @ [h]))"

lemma store_chunks_eq: "store_chunks X cs = for_op (push_chunk X) cs []"
  by (simp add: store_chunks_def push_chunk_def [abs_def])

lemma push_chunk_Ok:
  "push_chunk X c acc v = (Ok hs, w) \<longleftrightarrow> (\<exists>h. store_chunk X c v = (Ok h, w) \<and> hs = acc @ [h])"
  by (auto simp: push_chunk_def bindop_Ok_iff ret_def)

text \<open>
  A chunk that loads as \<open>plain\<close> and whose hash is that of the stored form of \<open>plain\<close>.
\<close>

definition holds_chunk :: "ext \<Rightarrow> vault \<Rightarrow> content_hash \<Rightarrow> bytes \<Rightarrow> bool" where
  "holds_chunk X v h plain \<longleftrightarrow> wf_hash h \<and> load_chunk X v h = Ok plain
     \<and> (\<exists>data. stored_form X (v_key v) plain = Ok data \<and> hash_of X data = h)"

lemma holds_chunk_grows: "grows v w \<Longrightarrow> v_key w = v_key v \<Longrightarrow> holds_chunk X v h d \<Longrightarrow> holds_chunk X w h d"
  by (auto simp: holds_chunk_def intro: load_chunk_grows)

lemma store_holds_chunk:
  assumes "aead_law X" "hash_law X" "store_chunk X c v = (Ok h, w)"
  shows "holds_chunk X w h (ck_data c)"
  using load_stored_chunk [OF assms] assms(2,3)
  by (auto simp: holds_chunk_def elim!: store_chunk_Ok)

text \<open>
  Storing a list of chunks: only the chunk store changes, and the hashes returned hold the
  chunks in order.
\<close>

lemma store_chunks_loop:
  assumes "aead_law X" "hash_law X"
    and "for_op (push_chunk X) cs acc v = (Ok hs, w)"
  shows "\<exists>hs'. hs = acc @ hs' \<and> list_all2 (\<lambda>h c. holds_chunk X w h (ck_data c)) hs' cs
    \<and> (\<exists>s. w = v\<lparr>d_chunks := s\<rparr>) \<and> grows v w"
  using assms(3)
proof (induction cs arbitrary: acc v)
  case (Cons c cs)
  then obtain h u where u: "store_chunk X c v = (Ok h, u)" "for_op (push_chunk X) cs (acc @ [h]) u = (Ok hs, w)"
    by (auto simp: bindop_Ok_iff push_chunk_Ok)
  from Cons.IH [OF u(2)] obtain hs' s where hs: "hs = (acc @ [h]) @ hs'"
    "list_all2 (\<lambda>h c. holds_chunk X w h (ck_data c)) hs' cs" "w = u\<lparr>d_chunks := s\<rparr>" "grows u w" by blast
  obtain s0 where s0: "u = v\<lparr>d_chunks := s0\<rparr>" using u(1) by (elim store_chunk_Ok) blast
  have "holds_chunk X w h (ck_data c)"
    by (rule holds_chunk_grows [OF hs(4) _ store_holds_chunk [OF assms(1,2) u(1)]]) (simp add: hs(3))
  moreover have "grows v u" by (rule stepsD [OF og.store_chunk_steps u(1)])
  ultimately show ?case using hs s0 gr.trans by fastforce
qed (auto simp: ret_def gr.refl intro: exI [of _ "d_chunks w"])

lemma store_chunks_Ok:
  assumes "aead_law X" "hash_law X" "store_chunks X cs v = (Ok hs, w)"
  shows "list_all2 (\<lambda>h c. holds_chunk X w h (ck_data c)) hs cs"
    "\<exists>s. w = v\<lparr>d_chunks := s\<rparr>" "grows v w"
  using store_chunks_loop [OF assms(1,2), of cs "[]" v hs w] assms(3)
  by (auto simp: store_chunks_eq)

lemma load_saved_tree:
  assumes "wf_tree t" "save_tree X t v = (Ok h, w)"
    and "\<And>b. encode_tree_wire t = Ok b \<Longrightarrow> length b < 2 ^ 63"
  shows "load_tree X w h = Ok t"
proof -
  obtain b where b: "encode_tree_wire t = Ok b" "h = hash_of X b"
    "w = v\<lparr>d_trees_bin := om_insert h b (d_trees_bin v)\<rparr>"
    using assms(2) by (auto simp: save_tree_eq split: res.splits)
  have "decode_tree_wire b = Ok t" by (rule decode_encode_tree_wire [OF assms(1) b(1) assms(3) [OF b(1)]])
  moreover have "has_domain DOMAIN_TREE b" by (rule has_domain_encode_tree [OF b(1)])
  ultimately show ?thesis
    using b by (simp add: load_tree_def om_get_insert tree_from_wire_or_json_def tree_cid_def cid_of_def)
qed

lemma has_domain_encode_commit: "encode_commit_wire X c = Ok w \<Longrightarrow> has_domain DOMAIN_COMMIT w"
  by (auto simp: encode_commit_wire_def has_domain_frame elim!: tryr_OkE)

lemma encode_commit_wire_norm:
  "hash_law X \<Longrightarrow> hex_law X \<Longrightarrow> encode_commit_wire X (commit_norm X c) = encode_commit_wire X c"
  by (simp add: encode_commit_wire_def encode_commit_body_norm)

lemma load_saved_commit:
  assumes "hash_law X" "hex_law X" "wf_commit c" "save_commit X c v = (Ok h, w)"
    and "\<And>b. encode_commit_wire X c = Ok b \<Longrightarrow> length b < 2 ^ 63"
  shows "load_commit X w h = Ok (commit_norm X c)"
proof -
  obtain b where b: "encode_commit_wire X c = Ok b" "h = hash_of X b"
    "w = v\<lparr>d_commits_bin := om_insert h b (d_commits_bin v)\<rparr>"
    using assms(4) by (auto simp: save_commit_eq split: res.splits)
  have "decode_commit_wire X b = Ok (commit_norm X c)"
    by (rule decode_encode_commit_wire [OF assms(1,3) b(1) assms(5) [OF b(1)]])
  moreover have "has_domain DOMAIN_COMMIT b" by (rule has_domain_encode_commit [OF b(1)])
  ultimately show ?thesis
    using b encode_commit_wire_norm [OF assms(1,2)]
    by (simp add: load_commit_def om_get_insert commit_from_wire_or_json_def commit_cid_def cid_of_def)
qed

text \<open>Loads only look at the directories.\<close>

lemma load_tree_cong:
  "d_trees_bin v = d_trees_bin w \<Longrightarrow> d_trees_json v = d_trees_json w \<Longrightarrow> load_tree X v h = load_tree X w h"
  by (simp add: load_tree_def cong: option.case_cong)

lemma load_commit_cong:
  "d_commits_bin v = d_commits_bin w \<Longrightarrow> d_commits_json v = d_commits_json w \<Longrightarrow>
    load_commit X v h = load_commit X w h"
  by (simp add: load_commit_def cong: option.case_cong)

lemma load_commit_present: "load_commit X v h = Ok c \<Longrightarrow> has_commit_object v h"
  by (auto simp: load_commit_def has_commit_object_def om_mem_def split: option.splits)

lemma load_tree_present: "load_tree X v h = Ok t \<Longrightarrow> has_tree_object v h"
  by (auto simp: load_tree_def has_tree_object_def om_mem_def split: option.splits)

section \<open>Head files\<close>

lemma head_of_set_head:
  "hex_law X \<Longrightarrow> wf_hash h \<Longrightarrow> set_head X h v = (r, w) \<Longrightarrow> head_of X w = Ok (Some h)"
  by (auto simp: set_head_def modify_def head_of_def from_to_hex to_hex_def hex_trim)
    (metis from_to_hex to_hex_def tryr.simps(1))

lemma str_lines_Cons:
  "CHR 0x0A \<notin> set l \<Longrightarrow> str_lines (l @ CHR 0x0A # s) = chomp_cr l # str_lines s"
  by (simp add: str_lines_def Let_def split_on_append_sep split_on_no_sep_single butlast_append)

lemma str_lines_Nil [simp]: "str_lines [] = []"
  by (simp add: str_lines_def)

lemma hex_no_control: "list_all is_hexdigit s \<Longrightarrow> CHR 0x0A \<notin> set s \<and> CHR 0x0D \<notin> set s"
  by (auto simp: list_all_iff is_hexdigit_def Let_def)

lemma lines_heads_body:
  assumes "hex_law X"
  shows "str_lines (heads_body X hs) = map (to_hex X) hs"
proof (induction hs)
  case (Cons h hs)
  have digits: "CHR 0x0A \<notin> set (to_hex X h)" "CHR 0x0D \<notin> set (to_hex X h)"
    using hex_no_control [OF hex_digits [OF assms]] by (simp_all add: to_hex_def)
  then have "chomp_cr (to_hex X h) = to_hex X h"
    unfolding chomp_cr_def using last_in_set by fastforce
  with Cons digits str_lines_Cons [of "to_hex X h" "heads_body X hs"] show ?case
    by (simp add: heads_body_def)
qed (simp add: heads_body_def)

lemma parse_heads_body:
  assumes "hex_law X" "list_all wf_hash hs" "os_wf hs"
  shows "parse_heads X (heads_body X hs) = hs"
proof -
  have step: "(let line = str_trim (to_hex X h) in if line = [] then heads
      else (case from_hex X line of Ok h \<Rightarrow> os_insert h heads | _ \<Rightarrow> heads)) = os_insert h heads"
    if "wf_hash h" for h heads
  proof -
    have t: "str_trim (to_hex X h) = to_hex X h" using assms(1) by (simp add: to_hex_def hex_trim)
    have "length (to_hex X h) = 64" by (rule length_to_hex [OF assms(1) that])
    then have "to_hex X h \<noteq> []" by auto
    with t from_to_hex [OF assms(1) that] show ?thesis by simp
  qed
  have "fold (\<lambda>line heads. let line = str_trim line in if line = [] then heads
      else (case from_hex X line of Ok h \<Rightarrow> os_insert h heads | _ \<Rightarrow> heads)) (map (to_hex X) hs) acc =
      fold os_insert hs acc" if "list_all wf_hash hs" for hs acc
    using that by (induction hs arbitrary: acc) (simp_all add: step)
  then have "parse_heads X (heads_body X hs) = os_of_list hs"
    using assms(2) by (simp add: parse_heads_def lines_heads_body [OF assms(1)] os_of_list_def)
  then show ?thesis using assms(3) by (simp add: os_of_list_id)
qed

lemma parse_heads_wf: "os_wf (parse_heads X s) \<and> list_all wf_hash (parse_heads X s)"
proof -
  have "os_wf (fold (\<lambda>line heads. let line = str_trim line in if line = [] then heads
      else (case from_hex X line of Ok h \<Rightarrow> os_insert h heads | _ \<Rightarrow> heads)) ls acc)
    \<and> list_all wf_hash (fold (\<lambda>line heads. let line = str_trim line in if line = [] then heads
      else (case from_hex X line of Ok h \<Rightarrow> os_insert h heads | _ \<Rightarrow> heads)) ls acc)"
    if "os_wf acc \<and> list_all wf_hash acc" for ls acc
    using that
  proof (induction ls arbitrary: acc)
    case (Cons l ls)
    have "list_all wf_hash (os_insert h acc)" if "from_hex X (str_trim l) = Ok h" for h
      using from_hex_wf [OF that] Cons.prems by (simp add: list_all_iff)
    with Cons show ?case by (auto simp: Let_def split: res.split)
  qed simp
  then show ?thesis by (simp add: parse_heads_def)
qed

lemma head_of_wf: "head_of X v = Ok (Some h) \<Longrightarrow> wf_hash h"
  by (auto simp: head_of_def split: option.splits elim!: tryr_OkE intro: from_hex_wf)

lemma list_heads_wf:
  assumes "list_heads X v = Ok hs"
  shows "os_wf hs" "list_all wf_hash hs"
  using assms parse_heads_wf head_of_wf
  by (auto simp: list_heads_def list_heads_file_only_def list_all_iff split: option.splits elim!: tryr_OkE)

text \<open>Recording a head: afterwards the heads are those before and the new one.\<close>

lemma list_heads_record:
  assumes "hex_law X" "wf_hash h" "record_head X h v = (Ok (), w)"
  shows "\<exists>hs. list_heads X v = Ok hs \<and> list_heads X w = Ok (os_insert h hs)"
proof -
  obtain hs where hs: "list_heads X v = Ok hs" "w = v\<lparr>d_heads := Some (heads_body X (os_insert h hs))\<rparr>"
    using assms(3) by (auto simp: record_head_def op_simps ask_Ok_iff write_heads_def)
  have "parse_heads X (heads_body X (os_insert h hs)) = os_insert h hs"
    by (rule parse_heads_body [OF assms(1)]) (use list_heads_wf [OF hs(1)] assms(2) in \<open>auto simp: list_all_iff\<close>)
  moreover obtain cur where cur: "head_of X v = Ok cur"
    using hs(1) by (auto simp: list_heads_def elim!: tryr_OkE)
  moreover have "cur = Some k \<Longrightarrow> k \<in> set hs" for k
    using hs(1) cur by (auto simp: list_heads_def elim!: tryr_OkE)
  moreover have "head_of X w = head_of X v" by (simp add: hs(2) head_of_def)
  ultimately have "list_heads X w = Ok (os_insert h hs)"
    using hs(2) list_heads_wf(1) [OF hs(1)]
    by (auto simp: list_heads_def list_heads_file_only_def os_insert_absorb split: option.split)
  with hs(1) show ?thesis by blast
qed

end
