(* ===== verification/Policy.thy ===== *)
theory Policy
  imports VaultObjects
begin

text \<open>
  The policy engine (\<open>src/src/policy.rs\<close>): validation and updates of a policy, its files beside
  the vault, when a snapshot is due, the snapshot registry with its retention, and the commits
  that garbage collection must treat as roots.
\<close>

section \<open>Policies\<close>

definition policy_default :: policy where
  "policy_default = \<lparr>pl_min_replicas = 2, pl_snapshot_interval_secs = 0, pl_retain_snapshots = 0,
     pl_live_mode = False, pl_prefer_nodes = [], pl_max_head_age_secs = 0, pl_label = None\<rparr>"

definition policy_validate :: "policy \<Rightarrow> unit result" where
  "policy_validate p =
     (if pl_min_replicas p = 0 then Err (Other ''min_replicas must be >= 1'')
      else if 0 < pl_snapshot_interval_secs p \<and> pl_snapshot_interval_secs p < 5 then
        Err (Other ''snapshot_interval_secs must be 0 or >= 5'')
      else Ok ())"

definition upd :: "('a \<Rightarrow> 'p \<Rightarrow> 'p) \<Rightarrow> 'a option \<Rightarrow> 'p \<Rightarrow> 'p" where
  "upd f x p = (case x of Some y \<Rightarrow> f y p | None \<Rightarrow> p)"

definition with_updates ::
  "policy \<Rightarrow> u8 option \<Rightarrow> u64 option \<Rightarrow> u64 option \<Rightarrow> bool option \<Rightarrow> u64 option \<Rightarrow> string option \<Rightarrow> policy result"
where
  "with_updates p min_replicas snapshot_interval_secs retain_snapshots live_mode max_head_age_secs label =
     (let p = upd (\<lambda>r p. p\<lparr>pl_min_replicas := max r 1\<rparr>) min_replicas p;
          p = upd (\<lambda>s p. p\<lparr>pl_snapshot_interval_secs := s\<rparr>) snapshot_interval_secs p;
          p = upd (\<lambda>n p. p\<lparr>pl_retain_snapshots := n\<rparr>) retain_snapshots p;
          p = upd (\<lambda>l p. p\<lparr>pl_live_mode := l\<rparr>) live_mode p;
          p = upd (\<lambda>a p. p\<lparr>pl_max_head_age_secs := a\<rparr>) max_head_age_secs p;
          p = upd (\<lambda>lab p. p\<lparr>pl_label := (if lab = [] then None else Some lab)\<rparr>) label p
      in tryr (policy_validate p) (\<lambda>_. Ok p))"

definition save_policy :: "policy \<Rightarrow> unit vop" where
  "save_policy p = bindop (ask (\<lambda>_. policy_validate p)) (\<lambda>_. modify (\<lambda>v. v\<lparr>d_policy := Good p\<rparr>))"

text \<open>A missing file is seeded from the configuration, and written.\<close>

definition load_policy :: "policy vop" where
  "load_policy = (\<lambda>v. case d_policy v of
     Good p \<Rightarrow> (tryr (policy_validate p) (\<lambda>_. Ok p), v)
   | BadJson \<Rightarrow> (Err Serde, v)
   | NoFile \<Rightarrow>
       let p = policy_default\<lparr>pl_min_replicas := max (vc_min_replicas (v_config v)) 1\<rparr>
       in bindop (save_policy p) (\<lambda>_. ret p) v)"

definition apply_policy :: "ext \<Rightarrow> policy \<Rightarrow> policy vop" where
  "apply_policy X p =
     bindop (ask (\<lambda>_. policy_validate p)) (\<lambda>_.
     bindop (save_policy p) (\<lambda>_.
     bindop (\<lambda>v. if vc_min_replicas (v_config v) \<noteq> pl_min_replicas p
                 then set_min_replicas X (pl_min_replicas p) v else ret () v) (\<lambda>_. ret p)))"

definition policy_state_default :: policy_state where
  "policy_state_default = \<lparr>ps_last_auto_snapshot_at = 0, ps_last_auto_snapshot_head = None,
     ps_auto_snapshot_count = 0, ps_updated_at = 0\<rparr>"

definition load_state :: "vault \<Rightarrow> policy_state result" where
  "load_state v = json_or policy_state_default (d_pstate v)"

definition save_state :: "policy_state \<Rightarrow> unit vop" where
  "save_state st = modify (\<lambda>v. v\<lparr>d_pstate := Good st\<rparr>)"

section \<open>Timers\<close>

definition snapshot_due :: "policy \<Rightarrow> policy_state \<Rightarrow> u64 \<Rightarrow> bool" where
  "snapshot_due p st now =
     (if pl_snapshot_interval_secs p = 0 then False
      else if ps_last_auto_snapshot_at st = 0 then True
      else sat_sub now (ps_last_auto_snapshot_at st) \<ge> pl_snapshot_interval_secs p)"

definition secs_until_snapshot :: "policy \<Rightarrow> policy_state \<Rightarrow> u64 \<Rightarrow> u64 option" where
  "secs_until_snapshot p st now =
     (if pl_snapshot_interval_secs p = 0 then None
      else if ps_last_auto_snapshot_at st = 0 then Some 0
      else let elapsed = sat_sub now (ps_last_auto_snapshot_at st)
           in if elapsed \<ge> pl_snapshot_interval_secs p then Some 0
              else Some (pl_snapshot_interval_secs p - elapsed))"

definition head_stale :: "ext \<Rightarrow> vault \<Rightarrow> policy \<Rightarrow> u64 \<Rightarrow> bool result" where
  "head_stale X v p now =
     (if pl_max_head_age_secs p = 0 then Ok False
      else tryr (head_of X v) (\<lambda>h. case h of
        None \<Rightarrow> Ok False
      | Some h \<Rightarrow> tryr (load_commit X v h) (\<lambda>c.
          Ok (sat_sub now (c_timestamp c) > pl_max_head_age_secs p))))"

definition chrono_like_stamp :: "u64 \<Rightarrow> string" where
  "chrono_like_stamp secs = dec_string (unat secs)"

section \<open>The snapshot registry\<close>

definition load_snapshots :: "vault \<Rightarrow> snapshot_log result" where
  "load_snapshots v = json_or [] (d_snapshots v)"

definition save_snapshots :: "snapshot_log \<Rightarrow> unit vop" where
  "save_snapshots log = modify (\<lambda>v. v\<lparr>d_snapshots := Good log\<rparr>)"

definition register_snapshot :: "ext \<Rightarrow> u64 \<Rightarrow> content_hash \<Rightarrow> string \<Rightarrow> bool \<Rightarrow> unit vop" where
  "register_snapshot X now h message auto_snap =
     bindop (ask load_snapshots) (\<lambda>log.
       let hex = to_hex X h;
           log = filter (\<lambda>e. se_hash e \<noteq> hex) log @
             [\<lparr>se_hash = hex, se_timestamp = now, se_message = message, se_auto = auto_snap\<rparr>]
       in save_snapshots log)"

definition prune_snapshot_registry :: "u64 \<Rightarrow> nat vop" where
  "prune_snapshot_registry retain0 =
     (if retain0 = 0 then ret 0
      else bindop (ask load_snapshots) (\<lambda>log.
        let retain = unat retain0 in
        if length log \<le> retain then ret 0
        else let remove = length log - retain
             in bindop (save_snapshots (drop remove log)) (\<lambda>_. ret remove)))"

definition protected_commit_roots :: "ext \<Rightarrow> vault \<Rightarrow> content_hash list result" where
  "protected_commit_roots X v =
     tryr (head_of X v) (\<lambda>head.
       let roots = (case head of Some h \<Rightarrow> os_insert h [] | None \<Rightarrow> []) in
       tryr (list_heads X v) (\<lambda>heads.
         let roots = fold os_insert heads roots in
         tryr (load_snapshots v) (\<lambda>log.
           Ok (fold (\<lambda>e roots. case from_hex X (se_hash e) of Ok h \<Rightarrow> os_insert h roots | _ \<Rightarrow> roots)
                 log roots))))"

definition apply_retention :: "policy \<Rightarrow> nat vop" where
  "apply_retention p = prune_snapshot_registry (pl_retain_snapshots p)"

section \<open>Properties\<close>

lemma policy_validate_Ok:
  "policy_validate p = Ok () \<longleftrightarrow>
    pl_min_replicas p \<noteq> 0 \<and> (pl_snapshot_interval_secs p = 0 \<or> 5 \<le> unat (pl_snapshot_interval_secs p))"
  by (auto simp: policy_validate_def word_less_nat_alt word_gt_0 word_unat_eq_iff)

lemma policy_default_valid: "policy_validate policy_default = Ok ()"
  by (simp add: policy_validate_def policy_default_def)

text \<open>What is saved is what is loaded, and only valid policies are saved.\<close>

lemma load_saved_policy: "save_policy p v = (Ok (), w) \<Longrightarrow> load_policy w = (Ok p, w)"
  by (auto simp: save_policy_def op_simps ask_Ok_iff load_policy_def)

lemma save_policy_invalid: "policy_validate p = Err e \<Longrightarrow> save_policy p v = (Err e, v)"
  by (simp add: save_policy_def bindop_def ask_def)

lemma load_policy_valid: "load_policy v = (Ok p, w) \<Longrightarrow> policy_validate p = Ok ()"
  by (auto simp: load_policy_def save_policy_def op_simps ask_Ok_iff Let_def tryr_eq_Ok split: json_file.splits)

lemma max_one_neq_zero: "max (a :: u8) 1 \<noteq> 0"
  by (auto simp: max_def word_le_nat_alt word_unat_eq_iff)

lemma load_policy_seed:
  assumes "d_policy v = NoFile"
  shows "load_policy v =
    (Ok (policy_default\<lparr>pl_min_replicas := max (vc_min_replicas (v_config v)) 1\<rparr>),
     v\<lparr>d_policy := Good (policy_default\<lparr>pl_min_replicas := max (vc_min_replicas (v_config v)) 1\<rparr>)\<rparr>)"
  using assms max_one_neq_zero
  by (simp add: load_policy_def save_policy_def bindop_def ask_def modify_def ret_def policy_validate_def
      policy_default_def Let_def)

lemma save_policy_side: "steps side (save_policy p)"
  unfolding save_policy_def by (intro sd.steps_intros steps_modify) (simp add: side_def core_def)

lemma load_policy_side: "steps side load_policy"
proof (rule stepsI)
  fix v r w
  assume "load_policy v = (r, w)"
  then show "side v w"
    using load_policy_seed [of v] by (cases "d_policy v") (auto simp: load_policy_def side_def core_def)
qed

lemma with_updates_valid: "with_updates p a b c d e f = Ok q \<Longrightarrow> policy_validate q = Ok ()"
  by (auto simp: with_updates_def Let_def elim!: tryr_OkE)

lemma snapshot_due_iff: "snapshot_due p st now \<longleftrightarrow> secs_until_snapshot p st now = Some 0"
proof -
  have "pl_snapshot_interval_secs p - e \<noteq> 0" if "\<not> e \<ge> pl_snapshot_interval_secs p" for e
    using that by auto
  then show ?thesis by (auto simp: snapshot_due_def secs_until_snapshot_def Let_def)
qed

text \<open>The time still to wait is exactly what makes the snapshot due.\<close>

lemma secs_until_due:
  assumes "secs_until_snapshot p st now = Some k" "ps_last_auto_snapshot_at st \<le> now"
    and "unat now + unat k < 2 ^ 64"
  shows "snapshot_due p st (now + k)"
    and "\<And>j. j < k \<Longrightarrow> \<not> snapshot_due p st (now + j)"
proof -
  let ?i = "pl_snapshot_interval_secs p" and ?l = "ps_last_auto_snapshot_at st"
  have el: "unat (sat_sub (now + j) ?l) = unat now + unat j - unat ?l" if "unat j \<le> unat k" for j
    using assms(2,3) that by (simp add: unat_sat_sub unat_word_ariths)
  have e0: "unat (sat_sub now ?l) = unat now - unat ?l" by (simp add: unat_sat_sub)
  have le: "unat ?l \<le> unat now" using assms(2) by (simp add: word_le_nat_alt)
  have k: "?i \<noteq> 0" "unat k = 0 \<or> unat k = unat ?i - (unat now - unat ?l) \<and> unat now - unat ?l < unat ?i \<and> ?l \<noteq> 0"
    using assms(1) e0 by (auto simp: secs_until_snapshot_def Let_def word_le_nat_alt unat_sub split: if_splits)
  show "snapshot_due p st (now + k)"
  proof (cases "unat k = 0")
    case True
    then have "k = 0" by (simp add: word_unat_eq_iff)
    then show ?thesis using assms(1) by (simp add: snapshot_due_iff)
  next
    case False
    then show ?thesis using k le el [of k] by (auto simp: snapshot_due_def word_le_nat_alt)
  qed
  fix j
  assume "j < k"
  then have j: "unat j < unat k" by (simp add: word_less_nat_alt)
  then show "\<not> snapshot_due p st (now + j)"
    using k le el [of j] by (auto simp: snapshot_due_def word_le_nat_alt)
qed

text \<open>Registering keeps one entry per tip, the new one last.\<close>

lemma register_snapshot_Ok:
  assumes "register_snapshot X now h msg a v = (Ok (), w)"
  shows "\<exists>log. load_snapshots v = Ok log \<and> load_snapshots w =
    Ok (filter (\<lambda>e. se_hash e \<noteq> to_hex X h) log @
      [\<lparr>se_hash = to_hex X h, se_timestamp = now, se_message = msg, se_auto = a\<rparr>])"
    "w = v\<lparr>d_snapshots := d_snapshots w\<rparr>"
  using assms by (auto simp: register_snapshot_def op_simps ask_Ok_iff Let_def save_snapshots_def load_snapshots_def)

lemma register_snapshot_side: "steps side (register_snapshot X now h msg a)"
  unfolding register_snapshot_def Let_def save_snapshots_def
  by (intro sd.steps_intros steps_modify) (simp add: side_def core_def)

text \<open>Pruning keeps the newest entries, as many as are to be retained.\<close>

lemma prune_Ok:
  assumes "prune_snapshot_registry n v = (Ok k, w)" "load_snapshots v = Ok log"
  shows "load_snapshots w = Ok (drop k log)" "k = (if n = 0 then 0 else length log - unat n)"
    "w = v\<lparr>d_snapshots := d_snapshots w\<rparr>"
  using assms
  by (auto simp: prune_snapshot_registry_def op_simps ask_Ok_iff Let_def save_snapshots_def load_snapshots_def
      split: if_splits)

lemma prune_side: "steps side (prune_snapshot_registry n)"
  unfolding prune_snapshot_registry_def Let_def save_snapshots_def
  by (intro sd.steps_intros steps_modify) (simp add: side_def core_def)

lemma apply_retention_side: "steps side (apply_retention p)"
  by (simp add: apply_retention_def prune_side)

lemma snapshots_fold_set:
  "set (fold (\<lambda>e roots. case from_hex X (se_hash e) of Ok h \<Rightarrow> os_insert h roots | _ \<Rightarrow> roots) log roots) =
    set roots \<union> {h. \<exists>e\<in>set log. from_hex X (se_hash e) = Ok h}"
  by (induction log arbitrary: roots) (auto split: res.split)

text \<open>The roots are the head, the other heads and the registered snapshots.\<close>

lemma protected_roots_set:
  assumes "protected_commit_roots X v = Ok roots"
  shows "\<exists>hs log. list_heads X v = Ok hs \<and> load_snapshots v = Ok log \<and>
    set roots = set hs \<union> {h. \<exists>e\<in>set log. from_hex X (se_hash e) = Ok h}"
proof -
  obtain hd hs log where r: "head_of X v = Ok hd" "list_heads X v = Ok hs" "load_snapshots v = Ok log"
    "roots = fold (\<lambda>e roots. case from_hex X (se_hash e) of Ok h \<Rightarrow> os_insert h roots | _ \<Rightarrow> roots) log
        (fold os_insert hs (case hd of Some h \<Rightarrow> os_insert h [] | None \<Rightarrow> []))"
    using assms by (auto simp: protected_commit_roots_def Let_def elim!: tryr_OkE)
  have "set (case hd of Some h \<Rightarrow> os_insert h [] | None \<Rightarrow> []) \<subseteq> set hs"
    using r(1,2) by (auto simp: list_heads_def elim!: tryr_OkE split: option.splits)
  then show ?thesis using r by (auto simp: snapshots_fold_set set_os_fold)
qed

end
