(* ===== verification/VaultOps.thy ===== *)
theory VaultOps
  imports Policy
begin

text \<open>
  What a user does with a vault (\<open>src/src/vault.rs\<close>): adding a file or a directory, taking a
  snapshot, restoring a commit, walking the history, merging another head, ingesting a commit
  from a peer. The files an \<open>add\<close> reads are an argument; \<open>restore\<close> leaves the list of the files
  it has written, in order.
\<close>

section \<open>Adding\<close>

text \<open>What is found at a path of the file system; the entries of a directory by their names.\<close>

datatype fs_tree = FsFile bytes | FsDir "(string \<times> fs_tree) list" | FsOther

fun visit :: "string list \<Rightarrow> fs_tree \<Rightarrow> (string list \<times> bytes) list" where
  "visit pre (FsDir es) = concat (map (\<lambda>(n, t). visit (pre @ [n]) t) es)"
| "visit pre (FsFile data) = [(pre, data)]"
| "visit pre FsOther = []"

definition walkdir_simple :: "fs_tree \<Rightarrow> (string list \<times> bytes) list" where
  "walkdir_simple t = sort_key fst (visit [] t)"

type_synonym file_entry = "string \<times> u64 \<times> content_hash list"

definition store_file :: "ext \<Rightarrow> string \<Rightarrow> bytes \<Rightarrow> file_entry vop" where
  "store_file X logical data =
     bindop (store_chunks X (chunk_bytes X data chunk_config_default)) (\<lambda>hashes.
       ret (logical, word_of_nat (length data), hashes))"

definition add_dir_entry ::
  "ext \<Rightarrow> string \<Rightarrow> string list \<times> bytes \<Rightarrow> file_entry list \<Rightarrow> file_entry list vop"
where
  "add_dir_entry X base_name = (\<lambda>(rel, data) acc.
     bindop (ask (\<lambda>_. normalize_and_validate (join_with ''/'' rel))) (\<lambda>rel_str.
       if rel_str = [] then ret acc
       else bindop (store_chunks X (chunk_bytes X data chunk_config_default)) (\<lambda>hashes.
         bindop (ask (\<lambda>_. normalize_and_validate
                   (if base_name = [] then rel_str else base_name @ ''/'' @ rel_str))) (\<lambda>logical.
           ret (acc @ [(logical, word_of_nat (length data), hashes)])))))"

definition is_dir :: "fs_tree \<Rightarrow> bool" where
  "is_dir t \<longleftrightarrow> (case t of FsDir _ \<Rightarrow> True | _ \<Rightarrow> False)"

definition commit_tree ::
  "ext \<Rightarrow> u64 \<Rightarrow> tree \<Rightarrow> string \<Rightarrow> content_hash vop"
where
  "commit_tree X now t msg =
     bindop (save_tree X t) (\<lambda>tree_hash.
     bindop (ask (head_of X)) (\<lambda>head.
     bindop (ask (make_commit X now tree_hash (case head of Some h \<Rightarrow> [h] | None \<Rightarrow> []) msg)) (\<lambda>commit.
     bindop (save_commit X commit) (\<lambda>commit_hash.
     bindop (set_head X commit_hash) (\<lambda>_. ret commit_hash)))))"

definition add_path :: "ext \<Rightarrow> u64 \<Rightarrow> fs_tree \<Rightarrow> string \<Rightarrow> content_hash vop" where
  "add_path X now path base_name0 =
     bindop (ask (\<lambda>_. if base_name0 = [] then Ok [] else normalize_and_validate base_name0)) (\<lambda>base_name.
     bindop (case path of
        FsFile data \<Rightarrow>
          if base_name = [] then fail (InvalidPath ''logical file name required'')
          else bindop (store_file X base_name data) (\<lambda>e. ret [e])
      | FsDir _ \<Rightarrow> for_op (add_dir_entry X base_name) (walkdir_simple path) []
      | FsOther \<Rightarrow> fail (Other ''path is neither file nor dir'')) (\<lambda>file_entries.
     if file_entries = [] then fail (Other ''nothing to add'')
     else bindop (ask (head_tree X)) (\<lambda>t0.
       bindop (ask (\<lambda>_. for_res (\<lambda>(p, sz, chunks) t. try_add_file p sz chunks t) file_entries t0)) (\<lambda>t.
         commit_tree X now t (if is_dir path then ''Add dir '' @ base_name else ''Add '' @ base_name)))))"

text \<open>The alias \<open>Vault::add_file\<close>.\<close>

definition vault_add_file :: "ext \<Rightarrow> u64 \<Rightarrow> fs_tree \<Rightarrow> string \<Rightarrow> content_hash vop" where
  "vault_add_file X now file_path logical_name = add_path X now file_path logical_name"

section \<open>Snapshots\<close>

definition snapshot_commit :: "ext \<Rightarrow> u64 \<Rightarrow> string \<Rightarrow> content_hash vop" where
  "snapshot_commit X now message =
     bindop (ask (head_of X)) (\<lambda>head. case head of
       Some current_head \<Rightarrow>
         bindop (ask (\<lambda>v. load_commit X v current_head)) (\<lambda>head_commit.
         bindop (ask (make_commit X now (c_tree head_commit) [current_head] message)) (\<lambda>new_commit.
         bindop (save_commit X new_commit) (\<lambda>h. bindop (set_head X h) (\<lambda>_. ret h))))
     | None \<Rightarrow>
         bindop (save_tree X tree_new) (\<lambda>tree_hash.
         bindop (ask (make_commit X now tree_hash [] message)) (\<lambda>commit.
         bindop (save_commit X commit) (\<lambda>h. bindop (set_head X h) (\<lambda>_. ret h)))))"

definition snapshot :: "ext \<Rightarrow> u64 \<Rightarrow> string \<Rightarrow> content_hash vop" where
  "snapshot X now message =
     bindop (snapshot_commit X now message) (\<lambda>h.
     bindop (attempt (register_snapshot X now h message False)) (\<lambda>_.
     bindop (attempt load_policy) (\<lambda>pol.
     bindop (case pol of Ok p \<Rightarrow> bindop (attempt (apply_retention p)) (\<lambda>_. ret ()) | _ \<Rightarrow> ret ()) (\<lambda>_.
       ret h))))"

section \<open>Restoring\<close>

definition restore_chunk :: "ext \<Rightarrow> vault \<Rightarrow> content_hash \<Rightarrow> bytes \<Rightarrow> bytes result" where
  "restore_chunk X v h file_data =
     tryr (load_chunk X v h) (\<lambda>plain.
     tryr (stored_form X (v_key v) plain) (\<lambda>blob.
       let derived = hash_of X blob in
       if derived \<noteq> h then Err (hash_mismatch X h derived) else Ok (file_data @ plain)))"

definition restore_file :: "ext \<Rightarrow> vault \<Rightarrow> string \<Rightarrow> u64 \<Rightarrow> content_hash list \<Rightarrow> bytes result" where
  "restore_file X v name sz chunks =
     tryr (for_res (restore_chunk X v) chunks []) (\<lambda>file_data.
       if word_of_nat (length file_data) \<noteq> sz then
         Err (Verify (''file size mismatch for '' @ quoted name @ '': manifest '' @ dec_string (unat sz)
               @ '', got '' @ dec_string (length file_data)))
       else Ok file_data)"

text \<open>
  The file system the writes go to: \<open>F log\<close> answers the queries of \<open>safe_join\<close> once the files of
  \<open>log\<close> have been written.
\<close>

type_synonym write_log = "(string \<times> bytes) list"

definition restore_entry ::
  "ext \<Rightarrow> (write_log \<Rightarrow> fsq) \<Rightarrow> vault \<Rightarrow> string \<Rightarrow> string \<times> tree_entry \<Rightarrow> unit \<Rightarrow> (write_log, soal_error, unit) op"
where
  "restore_entry X F v target = (\<lambda>(name, entry) _.
     case entry of
       File sz chunks \<Rightarrow>
         bindop (ask (\<lambda>log. safe_join (F log) target name)) (\<lambda>out_path.
         bindop (ask (\<lambda>_. restore_file X v name sz chunks)) (\<lambda>file_data.
           modify (\<lambda>log. log @ [(out_path, file_data)])))
     | Dir h \<Rightarrow> ret ())"

definition restore ::
  "ext \<Rightarrow> (write_log \<Rightarrow> fsq) \<Rightarrow> vault \<Rightarrow> content_hash \<Rightarrow> string \<Rightarrow> (write_log, soal_error, unit) op"
where
  "restore X F v commit_hash target =
     bindop (ask (\<lambda>_. load_commit X v commit_hash)) (\<lambda>commit.
     bindop (ask (\<lambda>_. load_tree X v (c_tree commit))) (\<lambda>t.
       for_op (restore_entry X F v target) (entries t) ()))"

section \<open>History\<close>

fun history_from :: "ext \<Rightarrow> vault \<Rightarrow> content_hash option \<Rightarrow> nat \<Rightarrow> (content_hash \<times> commit) list result" where
  "history_from X v None n = Ok []"
| "history_from X v (Some h) 0 = Ok []"
| "history_from X v (Some h) (Suc n) =
     tryr (load_commit X v h) (\<lambda>c.
     tryr (history_from X v (case c_parents c of [] \<Rightarrow> None | p # _ \<Rightarrow> Some p) n) (\<lambda>rest.
       Ok ((h, c) # rest)))"

definition history :: "ext \<Rightarrow> vault \<Rightarrow> content_hash option \<Rightarrow> nat \<Rightarrow> (content_hash \<times> commit) list result" where
  "history X v start limit =
     tryr (case start of Some h \<Rightarrow> Ok (Some h) | None \<Rightarrow> head_of X v) (\<lambda>cur. history_from X v cur limit)"

definition vault_status :: "ext \<Rightarrow> vault \<Rightarrow> (content_hash option \<times> nat \<times> nat) result" where
  "vault_status X v =
     tryr (head_of X v) (\<lambda>head.
     tryr (case head of
             Some h \<Rightarrow> tryr (load_commit X v h) (\<lambda>c. tryr (load_tree X v (c_tree c)) (\<lambda>t. Ok (length (entries t))))
           | None \<Rightarrow> Ok 0) (\<lambda>file_count. Ok (head, file_count, chunk_count v)))"

section \<open>Merging heads\<close>

definition merge_message :: "string \<Rightarrow> nat \<Rightarrow> string" where
  "merge_message from_label conflicts =
     (if conflicts > 0 then
        ''Merge '' @ from_label @ '' ('' @ dec_string conflicts @ '' conflict'' @
          (if conflicts = 1 then '''' else ''s'') @ '')''
      else ''Merge '' @ from_label)"

definition merge_head :: "ext \<Rightarrow> u64 \<Rightarrow> content_hash \<Rightarrow> string \<Rightarrow> (content_hash \<times> nat) vop" where
  "merge_head X now remote_head from_label =
     bindop (ask (\<lambda>v. load_commit X v remote_head)) (\<lambda>remote_commit.
     bindop (ask (\<lambda>v. load_tree X v (c_tree remote_commit))) (\<lambda>remote_tree.
     bindop (ask (head_of X)) (\<lambda>local_head.
     bindop (ask (head_tree X)) (\<lambda>local_tree.
       let (merged, conflicts) = merge_with_conflicts remote_tree from_label local_tree in
       bindop (save_tree X merged) (\<lambda>tree_hash.
         let parents = (case local_head of Some h \<Rightarrow> [h] | None \<Rightarrow> []);
             parents = (if remote_head \<in> set parents then parents else parents @ [remote_head])
         in bindop (ask (make_commit X now tree_hash parents (merge_message from_label conflicts))) (\<lambda>commit.
            bindop (save_commit X commit) (\<lambda>commit_hash.
            bindop (set_head X commit_hash) (\<lambda>_.
            bindop (write_heads X (os_insert commit_hash [])) (\<lambda>_.
              ret (commit_hash, conflicts))))))))))"

section \<open>Ingesting from a peer\<close>

text \<open>\<open>fetch\<close> is the transport, and may return anything.\<close>

definition fetch_into ::
  "(string \<Rightarrow> content_hash \<Rightarrow> bytes result) \<Rightarrow> string \<Rightarrow> content_hash \<Rightarrow> (content_hash \<Rightarrow> bytes \<Rightarrow> unit vop) \<Rightarrow> unit vop"
where
  "fetch_into fetch peer h imp = bindop (ask (\<lambda>_. fetch peer h)) (\<lambda>bytes. imp h bytes)"

definition unless_has :: "(vault \<Rightarrow> bool) \<Rightarrow> unit vop \<Rightarrow> unit vop" where
  "unless_has p m = (\<lambda>v. if p v then ret () v else m v)"

definition ingest_commit_from_peer ::
  "ext \<Rightarrow> (string \<Rightarrow> content_hash \<Rightarrow> bytes result) \<Rightarrow> string \<Rightarrow> content_hash \<Rightarrow> bool vop"
where
  "ingest_commit_from_peer X fetch peer h =
     bindop (unless_has (\<lambda>v. has_commit_object v h) (fetch_into fetch peer h (import_commit_bytes X))) (\<lambda>_.
     bindop (ask (\<lambda>v. load_commit X v h)) (\<lambda>commit.
     bindop (unless_has (\<lambda>v. has_tree_object v (c_tree commit))
               (fetch_into fetch peer (c_tree commit) (import_tree_bytes X))) (\<lambda>_.
     bindop (ask (\<lambda>v. load_tree X v (c_tree commit))) (\<lambda>t.
     bindop (for_op (\<lambda>ch _. unless_has (\<lambda>v. has_chunk v ch)
               (fetch_into fetch peer ch (import_stored_chunk X))) (all_chunk_hashes t) ()) (\<lambda>_.
     bindop (ask (head_of X)) (\<lambda>head. case head of
       None \<Rightarrow> bindop (set_head X h) (\<lambda>_. ret True)
     | Some local_head \<Rightarrow> bindop (record_head X h) (\<lambda>_. ret False)))))))"

section \<open>The directories stay content addressed, objects are only added\<close>

lemmas side_ops = register_snapshot_side load_policy_side apply_retention_side prune_side save_policy_side

lemma steps_case_res: "(\<And>x. steps R (f x)) \<Longrightarrow> steps R g \<Longrightarrow> steps R (case r of Ok x \<Rightarrow> f x | _ \<Rightarrow> g)"
  by (cases r) auto

lemma steps_unless: "(\<And>s. R s s) \<Longrightarrow> steps R m \<Longrightarrow> steps R (unless_has p m)"
  by (simp add: steps_def unless_has_def ret_def)

lemma snapshot_registry_side:
  "steps side (bindop (attempt (register_snapshot X now h msg False)) (\<lambda>_.
     bindop (attempt load_policy) (\<lambda>pol.
     bindop (case pol of Ok p \<Rightarrow> bindop (attempt (apply_retention p)) (\<lambda>_. ret ()) | _ \<Rightarrow> ret ()) (\<lambda>_.
       ret h))))"
  by (intro sd.steps_intros steps_case_res side_ops)

context object_writes
begin

lemma commit_tree_steps: "steps R (commit_tree X now t msg)"
  unfolding commit_tree_def by (intro steps_intros object_steps)

lemma add_dir_entry_steps: "steps R (add_dir_entry X b e acc)"
  by (cases e) (auto simp: add_dir_entry_def intro!: steps_intros object_steps)

lemma add_path_steps: "steps R (add_path X now path name)"
  unfolding add_path_def store_file_def
  by (cases path) (auto intro!: steps_intros object_steps commit_tree_steps add_dir_entry_steps)

lemma snapshot_commit_steps: "steps R (snapshot_commit X now msg)"
  unfolding snapshot_commit_def
  by (intro steps_bindI steps_ask) (auto split: option.split intro!: steps_intros object_steps)

lemma snapshot_steps: "steps R (snapshot X now msg)"
  unfolding snapshot_def by (intro steps_bindI snapshot_commit_steps side_steps snapshot_registry_side)

lemma merge_head_steps: "steps R (merge_head X now h l)"
  unfolding merge_head_def Let_def
  by (intro steps_bindI steps_ask) (auto split: prod.split intro!: steps_intros object_steps)

lemma ingest_steps: "steps R (ingest_commit_from_peer X fetch peer h)"
  unfolding ingest_commit_from_peer_def fetch_into_def
  by (intro steps_intros steps_unless refl object_steps)
    (auto split: option.split intro!: steps_intros object_steps)

end

section \<open>The commit an operation makes\<close>

text \<open>No object file reaches \<open>isize::MAX\<close> bytes.\<close>

definition small_objects :: "vault \<Rightarrow> bool" where
  "small_objects v \<longleftrightarrow> list_all (\<lambda>(h, b). length b < 2 ^ 63) (d_trees_bin v)
     \<and> list_all (\<lambda>(h, b). length b < 2 ^ 63) (d_commits_bin v)"

lemma small_tree: "small_objects v \<Longrightarrow> om_get (d_trees_bin v) h = Some b \<Longrightarrow> length b < 2 ^ 63"
  by (auto simp: small_objects_def list_all_iff dest!: map_of_SomeD)

lemma small_commit: "small_objects v \<Longrightarrow> om_get (d_commits_bin v) h = Some b \<Longrightarrow> length b < 2 ^ 63"
  by (auto simp: small_objects_def list_all_iff dest!: map_of_SomeD)

lemma make_commit_Ok:
  assumes "make_commit X now tr ps msg v = Ok c"
  shows "c_tree c = tr" "c_parents c = ps" "c_message c = msg" "c_timestamp c = now"
  using assms
  by (auto simp: make_commit_def commit_new_def Let_def split: option.splits res.splits dest: sign_commit_fields)

lemma make_commit_verifies:
  assumes "sign_law X" "hex_law X" "make_commit X now tr ps msg v = Ok c"
  shows "verify_commit_signature X c = Ok ()"
proof (cases "\<exists>home sk. v_home v = Some home \<and> load_secret_key X home = Ok sk")
  case True
  then obtain home sk c0 where "load_secret_key X home = Ok sk" "sign_commit X sk c0 = Ok c"
    using assms(3) by (auto simp: make_commit_def Let_def)
  then show ?thesis using sign_verify_commit [OF assms(1,2)] load_secret_key_length by blast
next
  case False
  then have "c_signature c = None"
    using assms(3) by (auto simp: make_commit_def commit_new_def Let_def split: option.splits res.splits)
  then show ?thesis by (simp add: verify_commit_signature_def signature_bytes_def)
qed

text \<open>With a node key the commit is signed by it, and the signature goes with the wire form.\<close>

definition signed_by :: "ext \<Rightarrow> bytes \<Rightarrow> commit \<Rightarrow> bool" where
  "signed_by X sk c \<longleftrightarrow> author_to_bytes X (c_author c) = x_public X sk
     \<and> (\<exists>m. commit_sign_message X c = Ok m \<and> signature_bytes X c = x_sign X sk m \<and> x_verify X (x_public X sk) m (signature_bytes X c))"

lemma make_commit_signed:
  assumes "sign_law X" "hex_law X" "v_home v = Some home" "load_secret_key X home = Ok sk"
    and "make_commit X now tr ps msg v = Ok c"
  shows "signed_by X sk c"
proof -
  obtain c0 where c: "sign_commit X sk c0 = Ok c" using assms(3-5) by (auto simp: make_commit_def Let_def)
  note len = load_secret_key_length [OF assms(4)]
  show ?thesis
    by (rule sign_commit_signature [OF assms(1,2) len c]) (use sign_lawD [OF assms(1) len] in \<open>simp add: signed_by_def\<close>)
qed

lemma signed_by_norm: "hash_law X \<Longrightarrow> hex_law X \<Longrightarrow> signed_by X sk (commit_norm X c) = signed_by X sk c"
  by (simp add: signed_by_def norm_bytes commit_sign_message_norm)

lemma saved_tree_in: "save_tree X t v = (Ok h, w) \<Longrightarrow> encode_tree_wire t = Ok b \<Longrightarrow> om_get (d_trees_bin w) h = Some b"
  by (auto simp: save_tree_eq om_get_insert)

lemma saved_commit_in:
  "save_commit X c v = (Ok h, w) \<Longrightarrow> encode_commit_wire X c = Ok b \<Longrightarrow> om_get (d_commits_bin w) h = Some b"
  by (auto simp: save_commit_eq om_get_insert)

lemma saved_hash_wf:
  "hash_law X \<Longrightarrow> save_commit X c v = (Ok h, w) \<Longrightarrow> wf_hash h"
  "hash_law X \<Longrightarrow> save_tree X t v = (Ok h, w) \<Longrightarrow> wf_hash h"
  by (auto simp: save_commit_eq save_tree_eq split: res.splits)

lemma save_frame:
  "save_tree X t v = (Ok h, w) \<Longrightarrow> \<exists>tb. w = v\<lparr>d_trees_bin := tb\<rparr>"
  "save_commit X c v = (Ok h, w) \<Longrightarrow> \<exists>cb. w = v\<lparr>d_commits_bin := cb\<rparr>"
  by (auto simp: save_tree_eq save_commit_eq split: res.splits)

text \<open>
  A commit of a well-formed tree on top of the current head: afterwards \<open>HEAD\<close> is the new commit,
  which loads, names the old head as its only parent, and whose tree loads as the one given.
\<close>

lemma commit_tree_Ok:
  assumes laws: "hash_law X" "hex_law X" and t: "wf_tree t" "utf8_str msg"
    and run: "commit_tree X now t msg v = (Ok h, w)" and small: "small_objects w"
  shows "\<exists>c cur. head_of X v = Ok cur \<and> head_of X w = Ok (Some h) \<and> load_commit X w h = Ok c
    \<and> c_parents c = (case cur of Some p \<Rightarrow> [p] | None \<Rightarrow> []) \<and> c_message c = msg \<and> c_timestamp c = now
    \<and> load_tree X w (c_tree c) = Ok t \<and> head_tree X w = Ok t"
    and "\<exists>tb cb hd. w = v\<lparr>d_trees_bin := tb, d_commits_bin := cb, d_head := hd\<rparr>"
proof -
  obtain th v1 cur c v2 where r: "save_tree X t v = (Ok th, v1)" "head_of X v1 = Ok cur"
    "make_commit X now th (case cur of Some h \<Rightarrow> [h] | None \<Rightarrow> []) msg v1 = Ok c"
    "save_commit X c v1 = (Ok h, v2)" "set_head X h v2 = (Ok (), w)"
    using run by (auto simp: commit_tree_def bindop_Ok_iff ask_Ok_iff ret_def)
  obtain tb cb where f: "v1 = v\<lparr>d_trees_bin := tb\<rparr>" "v2 = v1\<lparr>d_commits_bin := cb\<rparr>"
    using save_frame(1) [OF r(1)] save_frame(2) [OF r(4)] by blast
  note mk = make_commit_Ok [OF r(3)]
  have w: "w = v2\<lparr>d_head := Some (to_hex X h)\<rparr>" using r(5) by (auto simp: set_head_def modify_def)
  have dirs: "d_trees_bin w = d_trees_bin v1" "d_trees_json w = d_trees_json v1"
    "d_commits_bin w = d_commits_bin v2" "d_commits_json w = d_commits_json v2"
    "d_head v1 = d_head v"
    by (simp_all add: w f)
  have headv: "head_of X v = Ok cur" using r(2) dirs(5) by (simp add: head_of_def)
  have "wf_commit c"
    using mk t(2) saved_hash_wf(2) [OF laws(1) r(1)] head_of_wf [of X v] headv
    by (auto simp: wf_commit_def split: option.splits)
  then have lc: "load_commit X v2 h = Ok (commit_norm X c)"
    using laws small_commit [OF small] saved_commit_in [OF r(4)] dirs(3)
    by (intro load_saved_commit [OF _ _ _ r(4)]) simp_all
  have lt: "load_tree X v1 th = Ok t"
    using small_tree [OF small] saved_tree_in [OF r(1)] dirs(1)
    by (intro load_saved_tree [OF t(1) r(1)]) simp
  have lcw: "load_commit X w h = Ok (commit_norm X c)" using lc load_commit_cong [OF dirs(3,4)] by simp
  have ltw: "load_tree X w th = Ok t" using lt load_tree_cong [OF dirs(1,2)] by simp
  have hw: "head_of X w = Ok (Some h)" by (rule head_of_set_head [OF laws(2) saved_hash_wf(1) [OF laws(1) r(4)] r(5)])
  show "\<exists>c cur. head_of X v = Ok cur \<and> head_of X w = Ok (Some h) \<and> load_commit X w h = Ok c
    \<and> c_parents c = (case cur of Some p \<Rightarrow> [p] | None \<Rightarrow> []) \<and> c_message c = msg \<and> c_timestamp c = now
    \<and> load_tree X w (c_tree c) = Ok t \<and> head_tree X w = Ok t"
    using headv hw lcw ltw mk
    by (intro exI [of _ "commit_norm X c"] exI [of _ cur]) (simp add: head_tree_def)
  show "\<exists>tb cb hd. w = v\<lparr>d_trees_bin := tb, d_commits_bin := cb, d_head := hd\<rparr>"
    by (simp add: w f) metis
qed

section \<open>What was added is restored\<close>

lemma restore_chunk_holds: "holds_chunk X v h plain \<Longrightarrow> restore_chunk X v h acc = Ok (acc @ plain)"
  by (auto simp: holds_chunk_def restore_chunk_def)

lemma restore_chunks_hold:
  "list_all2 (\<lambda>h c. holds_chunk X v h (ck_data c)) hs cs \<Longrightarrow>
    for_res (restore_chunk X v) hs acc = Ok (acc @ concat (map ck_data cs))"
proof (induction hs cs arbitrary: acc rule: list_all2_induct)
  case (Cons h hs c cs)
  then show ?case by (simp add: restore_chunk_holds)
qed simp

lemma store_file_Ok:
  assumes "aead_law X" "hash_law X" "fastcdc_law X" "store_file X p data v = (Ok e, w)"
  obtains hs where "e = (p, word_of_nat (length data), hs)" "list_all wf_hash hs"
    "restore_file X w p (word_of_nat (length data)) hs = Ok data" "\<exists>s. w = v\<lparr>d_chunks := s\<rparr>" "grows v w"
proof -
  let ?cs = "chunk_bytes X data chunk_config_default"
  obtain hs where hs: "store_chunks X ?cs v = (Ok hs, w)" "e = (p, word_of_nat (length data), hs)"
    using assms(4) by (auto simp: store_file_def bindop_Ok_iff ret_def)
  note st = store_chunks_Ok [OF assms(1,2) hs(1)]
  have "for_res (restore_chunk X w) hs [] = Ok data"
    using restore_chunks_hold [OF st(1), of "[]"] chunk_bytes_reassemble [OF assms(3)] by simp
  then have "restore_file X w p (word_of_nat (length data)) hs = Ok data" by (simp add: restore_file_def)
  moreover have "list_all wf_hash hs"
    using st(1) by (auto simp: list_all_length list_all2_conv_all_nth holds_chunk_def)
  ultimately show thesis using that [OF hs(2)] st(2,3) by blast
qed

text \<open>Restoring a file only depends on the chunks and the key, and is kept as chunks are added.\<close>

lemma restore_chunk_grows:
  "grows v w \<Longrightarrow> v_key w = v_key v \<Longrightarrow> restore_chunk X v h acc = Ok r \<Longrightarrow> restore_chunk X w h acc = Ok r"
  by (auto simp: restore_chunk_def tryr_eq_Ok intro: load_chunk_grows)

lemma restore_chunks_grows:
  "grows v w \<Longrightarrow> v_key w = v_key v \<Longrightarrow> for_res (restore_chunk X v) hs acc = Ok r \<Longrightarrow>
    for_res (restore_chunk X w) hs acc = Ok r"
  by (induction hs arbitrary: acc) (auto simp: tryr_eq_Ok dest: restore_chunk_grows)

lemma restore_file_grows:
  "grows v w \<Longrightarrow> v_key w = v_key v \<Longrightarrow> restore_file X v n sz hs = Ok d \<Longrightarrow> restore_file X w n sz hs = Ok d"
  by (auto simp: restore_file_def dest: restore_chunks_grows elim!: tryr_OkE)

lemma loads_chunks [simp]:
  "load_commit X (v\<lparr>d_chunks := s\<rparr>) = load_commit X v" "load_tree X (v\<lparr>d_chunks := s\<rparr>) = load_tree X v"
  "head_of X (v\<lparr>d_chunks := s\<rparr>) = head_of X v" "head_tree X (v\<lparr>d_chunks := s\<rparr>) = head_tree X v"
proof -
  show c: "load_commit X (v\<lparr>d_chunks := s\<rparr>) = load_commit X v" by (rule ext, rule load_commit_cong) simp_all
  show t: "load_tree X (v\<lparr>d_chunks := s\<rparr>) = load_tree X v" by (rule ext, rule load_tree_cong) simp_all
  show h: "head_of X (v\<lparr>d_chunks := s\<rparr>) = head_of X v" by (simp add: head_of_def)
  show "head_tree X (v\<lparr>d_chunks := s\<rparr>) = head_tree X v" unfolding head_tree_def c t h by (rule refl)
qed

lemma load_tree_bin_wf:
  assumes "load_tree X v h = Ok t" "om_get (d_trees_bin v) h = Some b" "has_domain DOMAIN_TREE b"
  shows "wf_tree t"
  using assms by (auto simp: load_tree_def tree_from_wire_or_json_def elim!: tryr_OkE dest: decode_tree_wire_wf split: if_splits)

text \<open>
  The whole path of one file: \<open>add_path\<close> of a file's bytes under a valid name gives a commit on
  top of the old head. Its tree has the new entry under that name and all other entries of the
  old tree, and what the entry restores to is the bytes that were added.
\<close>

lemma add_file_restores:
  assumes laws: "hash_law X" "hex_law X" "aead_law X" "fastcdc_law X"
    and p: "valid_path p" "utf8_str p" and t0: "head_tree X v = Ok t0" "wf_tree t0"
    and run: "add_path X now (FsFile data) p v = (Ok h, w)" and small: "small_objects w"
  shows "\<exists>c t hs cur. head_of X v = Ok cur \<and> head_of X w = Ok (Some h) \<and> load_commit X w h = Ok c
    \<and> c_parents c = (case cur of Some p \<Rightarrow> [p] | None \<Rightarrow> []) \<and> load_tree X w (c_tree c) = Ok t
    \<and> om_get (entries t) = (om_get (entries t0))(p \<mapsto> File (word_of_nat (length data)) hs)
    \<and> restore_file X w p (word_of_nat (length data)) hs = Ok data"
proof -
  have norm: "normalize_and_validate p = Ok p" by (rule normalize_and_validate_valid [OF p(1)])
  have ne: "p \<noteq> []" by (rule valid_path_not_Nil [OF p(1)])
  obtain e v1 t1 t where r: "store_file X p data v = (Ok e, v1)" "head_tree X v1 = Ok t1"
    "for_res (\<lambda>(p, sz, chunks) t. try_add_file p sz chunks t) [e] t1 = Ok t"
    "commit_tree X now t (''Add '' @ p) v1 = (Ok h, w)"
    using run ne by (auto simp: add_path_def norm bindop_Ok_iff ask_Ok_iff ret_def is_dir_def)
  from r(1) obtain hs s where f: "e = (p, word_of_nat (length data), hs)" "list_all wf_hash hs"
    "restore_file X v1 p (word_of_nat (length data)) hs = Ok data" "v1 = v\<lparr>d_chunks := s\<rparr>"
    by (rule store_file_Ok [OF laws(3,1,4)]) blast
  have "t1 = t0" using r(2) t0(1) f(4) by simp
  with r(3) f(1) norm have t: "t = t0\<lparr>entries := om_insert p (File (word_of_nat (length data)) hs) (entries t0)\<rparr>"
    by (auto simp: try_add_file_def elim!: tryr_OkE)
  have wf: "wf_tree t" using wf_tree_insert [OF t0(2) p(2,1)] f(2) t by simp
  have msg: "utf8_str (''Add '' @ p)"
    using p(2) utf8_ok_append [of "map of_char ''Add ''" "map of_char p"] by (simp add: utf8_str_def utf8_ok_ascii)
  from commit_tree_Ok(1) [OF laws(1,2) wf msg r(4) small] obtain c cur where c:
    "head_of X v1 = Ok cur" "head_of X w = Ok (Some h)" "load_commit X w h = Ok c"
    "c_parents c = (case cur of Some p \<Rightarrow> [p] | None \<Rightarrow> [])" "load_tree X w (c_tree c) = Ok t" by blast
  have g: "grows v1 w" by (rule stepsD [OF og.commit_tree_steps r(4)])
  have "v_key w = v_key v1" using commit_tree_Ok(2) [OF laws(1,2) wf msg r(4) small] by auto
  then have "restore_file X w p (word_of_nat (length data)) hs = Ok data" by (rule restore_file_grows [OF g _ f(3)])
  moreover have "head_of X v = Ok cur" using c(1) f(4) by (simp add: head_of_def)
  ultimately show ?thesis using c t by (auto simp: om_get_insert)
qed

section \<open>Snapshots keep the tree\<close>

lemma loads_side:
  assumes "side v w"
  shows "load_commit X w = load_commit X v" "load_tree X w = load_tree X v" "head_of X w = head_of X v"
    "list_heads X w = list_heads X v"
proof -
  show "load_commit X w = load_commit X v"
    by (rule ext, rule load_commit_cong) (simp_all add: sideD [OF assms])
  show "load_tree X w = load_tree X v" by (rule ext, rule load_tree_cong) (simp_all add: sideD [OF assms])
  show h: "head_of X w = head_of X v" by (simp add: head_of_def sideD [OF assms])
  show "list_heads X w = list_heads X v"
    by (simp add: list_heads_def list_heads_file_only_def h sideD [OF assms])
qed

lemma snapshot_split:
  assumes "snapshot X now msg v = (Ok h, w)"
  obtains u where "snapshot_commit X now msg v = (Ok h, u)" "side u w"
proof -
  obtain x u where u: "snapshot_commit X now msg v = (Ok x, u)"
    "bindop (attempt (register_snapshot X now x msg False)) (\<lambda>_.
     bindop (attempt load_policy) (\<lambda>pol.
     bindop (case pol of Ok p \<Rightarrow> bindop (attempt (apply_retention p)) (\<lambda>_. ret ()) | _ \<Rightarrow> ret ()) (\<lambda>_.
       ret x))) u = (Ok h, w)"
    using assms unfolding snapshot_def by (rule bindop_OkE)
  have "x = h" using u(2) by (auto simp: bindop_Ok_iff ret_def)
  moreover have "side u w" by (rule stepsD [OF snapshot_registry_side u(2)])
  ultimately show thesis using that u(1) by blast
qed

text \<open>A snapshot of a vault with commits: a new head with the tree of the old one.\<close>

lemma snapshot_Ok:
  assumes laws: "hash_law X" "hex_law X" and run: "snapshot X now msg v = (Ok h, w)"
    and "utf8_str msg" "head_of X v = Ok (Some p)" "load_commit X v p = Ok cp" "wf_hash (c_tree cp)"
    and small: "small_objects w"
  shows "head_of X w = Ok (Some h)"
    "\<exists>c. load_commit X w h = Ok c \<and> c_parents c = [p] \<and> c_tree c = c_tree cp \<and> c_message c = msg"
    "load_tree X w = load_tree X v"
proof -
  obtain u where u: "snapshot_commit X now msg v = (Ok h, u)" and sd: "side u w"
    using run by (rule snapshot_split)
  obtain c v2 where r: "make_commit X now (c_tree cp) [p] msg v = Ok c" "save_commit X c v = (Ok h, v2)"
    "set_head X h v2 = (Ok (), u)"
    using u assms(5,6) by (auto simp: snapshot_commit_def bindop_Ok_iff ask_Ok_iff ret_def)
  obtain cb where v2: "v2 = v\<lparr>d_commits_bin := cb\<rparr>" using save_frame(2) [OF r(2)] by blast
  have uw: "u = v2\<lparr>d_head := Some (to_hex X h)\<rparr>" using r(3) by (auto simp: set_head_def modify_def)
  note mk = make_commit_Ok [OF r(1)]
  have "wf_commit c" using mk assms(4,7) head_of_wf [OF assms(5)] by (simp add: wf_commit_def)
  moreover have "d_commits_bin w = d_commits_bin v2" using sideD(11) [OF sd] uw by simp
  ultimately have lc: "load_commit X v2 h = Ok (commit_norm X c)"
    using laws small_commit [OF small] saved_commit_in [OF r(2)]
    by (intro load_saved_commit [OF _ _ _ r(2)]) simp_all
  have "load_commit X u h = load_commit X v2 h" by (rule load_commit_cong) (simp_all add: uw)
  then show "\<exists>c. load_commit X w h = Ok c \<and> c_parents c = [p] \<and> c_tree c = c_tree cp \<and> c_message c = msg"
    using lc mk loads_side(1) [OF sd] by (intro exI [of _ "commit_norm X c"]) simp
  show "head_of X w = Ok (Some h)"
    using head_of_set_head [OF laws(2) saved_hash_wf(1) [OF laws(1) r(2)] r(3)] loads_side(3) [OF sd] by simp
  have "load_tree X u = load_tree X v" by (rule ext, rule load_tree_cong) (simp_all add: uw v2)
  then show "load_tree X w = load_tree X v" using loads_side(2) [OF sd] by simp
qed

section \<open>Merges\<close>

lemma merge_head_Ok:
  assumes laws: "hash_law X" "hex_law X" and run: "merge_head X now rh label v = (Ok (h, n), w)"
    and "load_commit X v rh = Ok rc" "load_tree X v (c_tree rc) = Ok rt" "head_tree X v = Ok lt"
    and wf: "wf_hash rh" "utf8_str (merge_message label n)"
      "wf_tree (fst (merge_with_conflicts rt label lt))" and small: "small_objects w"
  shows "\<exists>c cur. head_of X v = Ok cur \<and> head_of X w = Ok (Some h) \<and> list_heads X w = Ok [h]
    \<and> load_commit X w h = Ok c \<and> set (c_parents c) = insert rh (set_option cur)
    \<and> load_tree X w (c_tree c) = Ok (fst (merge_with_conflicts rt label lt))
    \<and> n = snd (merge_with_conflicts rt label lt)"
proof -
  obtain mt k where m: "merge_with_conflicts rt label lt = (mt, k)" by (cases "merge_with_conflicts rt label lt")
  obtain cur th v1 c v2 v3 where r: "head_of X v = Ok cur" "save_tree X mt v = (Ok th, v1)"
    "make_commit X now th (let parents = (case cur of Some h \<Rightarrow> [h] | None \<Rightarrow> [])
       in if rh \<in> set parents then parents else parents @ [rh]) (merge_message label k) v1 = Ok c"
    "save_commit X c v1 = (Ok h, v2)" "set_head X h v2 = (Ok (), v3)"
    "write_heads X (os_insert h []) v3 = (Ok (), w)" "n = k"
    using run assms(4-6) m by (auto simp: merge_head_def bindop_Ok_iff ask_Ok_iff ret_def Let_def)
  obtain tb cb where f: "v1 = v\<lparr>d_trees_bin := tb\<rparr>" "v2 = v1\<lparr>d_commits_bin := cb\<rparr>"
    using save_frame(1) [OF r(2)] save_frame(2) [OF r(4)] by blast
  have w: "v3 = v2\<lparr>d_head := Some (to_hex X h)\<rparr>" "w = v3\<lparr>d_heads := Some (heads_body X [h])\<rparr>"
    using r(5,6) by (auto simp: set_head_def write_heads_def modify_def)
  note mk = make_commit_Ok [OF r(3)]
  have hwf: "wf_hash h" by (rule saved_hash_wf(1) [OF laws(1) r(4)])
  have ps: "set (c_parents c) = insert rh (set_option cur)"
    using mk(2) by (auto simp: Let_def split: option.splits if_splits)
  have "wf_commit c"
    unfolding wf_commit_def list_all_iff ps
    using mk wf saved_hash_wf(2) [OF laws(1) r(2)] head_of_wf [of X v] r(1,7) by auto
  then have "load_commit X v2 h = Ok (commit_norm X c)"
    using laws small_commit [OF small] saved_commit_in [OF r(4)] w
    by (intro load_saved_commit [OF _ _ _ r(4)]) simp_all
  moreover have "load_commit X w h = load_commit X v2 h" by (rule load_commit_cong) (simp_all add: w)
  ultimately have lc: "load_commit X w h = Ok (commit_norm X c)" by simp
  have "load_tree X v1 th = Ok mt"
    using small_tree [OF small] saved_tree_in [OF r(2)] w f wf(3) m
    by (intro load_saved_tree [OF _ r(2)]) simp_all
  moreover have "load_tree X w th = load_tree X v1 th" by (rule load_tree_cong) (simp_all add: w f)
  ultimately have lt: "load_tree X w th = Ok mt" by simp
  have "head_of X v3 = Ok (Some h)" by (rule head_of_set_head [OF laws(2) hwf r(5)])
  then have hw: "head_of X w = Ok (Some h)" by (simp add: w head_of_def)
  have "parse_heads X (heads_body X [h]) = [h]" by (rule parse_heads_body [OF laws(2)]) (simp_all add: hwf)
  then have "list_heads X w = Ok [h]"
    using hw by (simp add: list_heads_def list_heads_file_only_def w)
  with lc lt hw r(1,7) mk(1) ps m show ?thesis
    by (intro exI [of _ "commit_norm X c"] exI [of _ cur]) simp
qed

section \<open>What a restore writes\<close>

definition is_file_entry :: "string \<times> tree_entry \<Rightarrow> bool" where
  "is_file_entry e \<longleftrightarrow> (case snd e of File _ _ \<Rightarrow> True | Dir _ \<Rightarrow> False)"

lemma is_file_entry_simps [simp]: "is_file_entry (n, File sz hs)" "\<not> is_file_entry (n, Dir h)"
  by (simp_all add: is_file_entry_def)

text \<open>
  One write, made when those of \<open>log\<close> have been made: the file of an entry, put together from the
  plaintexts of its chunks, each of which goes back to the listed hash when it is stored again, and of
  the recorded size.
\<close>

definition verified_chunk :: "ext \<Rightarrow> vault \<Rightarrow> content_hash \<Rightarrow> bytes \<Rightarrow> bool" where
  "verified_chunk X v h plain \<longleftrightarrow> load_chunk X v h = Ok plain
     \<and> (\<exists>blob. stored_form X (v_key v) plain = Ok blob \<and> hash_of X blob = h)"

definition writes_entry ::
  "ext \<Rightarrow> (write_log \<Rightarrow> fsq) \<Rightarrow> vault \<Rightarrow> string \<Rightarrow> write_log \<Rightarrow> string \<times> tree_entry \<Rightarrow> string \<times> bytes \<Rightarrow> bool"
where
  "writes_entry X F v target log = (\<lambda>(name, e) (out, data).
     safe_join (F log) target name = Ok out
     \<and> (\<exists>hs plains. e = File (word_of_nat (length data)) hs \<and> data = concat plains
       \<and> list_all2 (verified_chunk X v) hs plains))"

lemma restore_chunk_Ok:
  "restore_chunk X v h acc = Ok data \<longleftrightarrow> (\<exists>plain. verified_chunk X v h plain \<and> data = acc @ plain)"
  by (auto simp: restore_chunk_def verified_chunk_def Let_def tryr_eq_Ok split: if_splits)

lemma restore_chunks_Ok:
  "for_res (restore_chunk X v) hs acc = Ok data \<Longrightarrow>
    \<exists>plains. list_all2 (verified_chunk X v) hs plains \<and> data = acc @ concat plains"
proof (induction hs arbitrary: acc)
  case (Cons h hs)
  then obtain plain where p: "verified_chunk X v h plain"
    "for_res (restore_chunk X v) hs (acc @ plain) = Ok data"
    by (auto simp: restore_chunk_Ok elim!: tryr_OkE)
  from Cons.IH [OF p(2)] obtain plains where
    "list_all2 (verified_chunk X v) hs plains" "data = acc @ plain @ concat plains" by auto
  with p(1) show ?case by (intro exI [of _ "plain # plains"]) simp
qed simp

lemma restore_file_Ok:
  assumes "restore_file X v n sz hs = Ok data"
  shows "sz = word_of_nat (length data)
    \<and> (\<exists>plains. list_all2 (verified_chunk X v) hs plains \<and> data = concat plains)"
proof -
  from assms have "for_res (restore_chunk X v) hs [] = Ok data" "word_of_nat (length data) = sz"
    by (auto simp: restore_file_def split: if_splits elim!: tryr_OkE)
  then show ?thesis using restore_chunks_Ok by fastforce
qed

lemma restore_entries_Ok:
  "for_op (restore_entry X F v target) es () log = (Ok (), log') \<Longrightarrow>
    \<exists>ws. log' = log @ ws \<and> length ws = length (filter is_file_entry es)
      \<and> (\<forall>i<length ws. writes_entry X F v target (log @ take i ws) (filter is_file_entry es ! i) (ws ! i))"
proof (induction es arbitrary: log)
  case (Cons e es)
  obtain name entry where e: "e = (name, entry)" by (cases e)
  obtain log1 where l: "restore_entry X F v target e () log = (Ok (), log1)"
    "for_op (restore_entry X F v target) es () log1 = (Ok (), log')"
    using Cons.prems by (auto simp: bindop_Ok_iff)
  from Cons.IH [OF l(2)] obtain ws where ws: "log' = log1 @ ws" "length ws = length (filter is_file_entry es)"
    "\<forall>i<length ws. writes_entry X F v target (log1 @ take i ws) (filter is_file_entry es ! i) (ws ! i)" by blast
  show ?case
  proof (cases entry)
    case (File sz hs)
    with l(1) e obtain out data where out: "safe_join (F log) target name = Ok out"
      "restore_file X v name sz hs = Ok data" "log1 = log @ [(out, data)]"
      by (auto simp: restore_entry_def bindop_Ok_iff ask_Ok_iff modify_def)
    then have "writes_entry X F v target log e (out, data)"
      using File e restore_file_Ok [OF out(2)] by (auto simp: writes_entry_def)
    with ws out(3) File e show ?thesis
      by (intro exI [of _ "(out, data) # ws"]) (simp add: All_less_Suc2)
  next
    case (Dir h)
    with l(1) e ws show ?thesis by (auto simp: restore_entry_def ret_def)
  qed
qed (auto simp: ret_def)

lemma restore_Ok:
  assumes "restore X F v h target log = (Ok (), log')"
  shows "\<exists>c t ws. load_commit X v h = Ok c \<and> load_tree X v (c_tree c) = Ok t \<and> log' = log @ ws
    \<and> length ws = length (filter is_file_entry (entries t))
    \<and> (\<forall>i<length ws. writes_entry X F v target (log @ take i ws) (filter is_file_entry (entries t) ! i) (ws ! i))"
proof -
  obtain c t where "load_commit X v h = Ok c" "load_tree X v (c_tree c) = Ok t"
    "for_op (restore_entry X F v target) (entries t) () log = (Ok (), log')"
    using assms by (auto simp: restore_def bindop_Ok_iff ask_Ok_iff)
  with restore_entries_Ok show ?thesis by blast
qed

section \<open>History follows first parents\<close>

fun first_parents :: "ext \<Rightarrow> vault \<Rightarrow> content_hash option \<Rightarrow> (content_hash \<times> commit) list \<Rightarrow> bool" where
  "first_parents X v at [] = True"
| "first_parents X v at ((h, c) # rest) \<longleftrightarrow> at = Some h \<and> load_commit X v h = Ok c
     \<and> first_parents X v (case c_parents c of [] \<Rightarrow> None | p # _ \<Rightarrow> Some p) rest"

lemma history_from_Ok:
  "history_from X v at n = Ok hs \<Longrightarrow>
    length hs \<le> n \<and> first_parents X v at hs
    \<and> (length hs < n \<longrightarrow> (if hs = [] then at = None else c_parents (snd (last hs)) = []))"
proof (induction X v at n arbitrary: hs rule: history_from.induct)
  case (3 X v h n)
  then obtain c rest where c: "load_commit X v h = Ok c" "hs = (h, c) # rest"
    "history_from X v (case c_parents c of [] \<Rightarrow> None | p # _ \<Rightarrow> Some p) n = Ok rest"
    by (auto elim!: tryr_OkE)
  from "3.IH" [OF c(1,3)] c show ?case by (auto split: list.splits if_splits)
qed auto

lemma history_Ok:
  assumes "history X v start n = Ok hs"
  shows "\<exists>cur. (case start of Some h \<Rightarrow> cur = Some h | None \<Rightarrow> head_of X v = Ok cur)
    \<and> length hs \<le> n \<and> first_parents X v cur hs
    \<and> (length hs < n \<longrightarrow> (if hs = [] then cur = None else c_parents (snd (last hs)) = []))"
proof -
  obtain at where at: "(case start of Some h \<Rightarrow> Ok (Some h) | None \<Rightarrow> head_of X v) = Ok at"
    "history_from X v at n = Ok hs"
    using assms by (auto simp: history_def elim!: tryr_OkE)
  from history_from_Ok [OF at(2)] at(1) show ?thesis by (cases start) auto
qed

section \<open>Ingesting a commit\<close>

text \<open>Which parts of the state one step of an ingestion may touch.\<close>

lemma import_tree_frame:
  "import_tree_bytes X h d v = (r, w) \<Longrightarrow> \<exists>a b. w = v\<lparr>d_trees_bin := a, d_trees_json := b\<rparr>"
proof -
  assume "import_tree_bytes X h d v = (r, w)"
  then have "w = v\<lparr>d_trees_bin := d_trees_bin w, d_trees_json := d_trees_json w\<rparr>"
    using import_tree_error [of X h d v r w] import_tree_Ok(2) [of X h d v w]
    by (cases "r = Ok ()") (auto split: if_splits)
  then show ?thesis by blast
qed

lemma import_commit_frame:
  "import_commit_bytes X h d v = (r, w) \<Longrightarrow> \<exists>a b. w = v\<lparr>d_commits_bin := a, d_commits_json := b\<rparr>"
proof -
  assume "import_commit_bytes X h d v = (r, w)"
  then have "w = v\<lparr>d_commits_bin := d_commits_bin w, d_commits_json := d_commits_json w\<rparr>"
    using import_commit_error [of X h d v r w] import_commit_Ok(2) [of X h d v w]
    by (cases "r = Ok ()") (auto split: if_splits)
  then show ?thesis by blast
qed

lemma import_chunk_frame: "import_stored_chunk X h d v = (r, w) \<Longrightarrow> \<exists>s. w = v\<lparr>d_chunks := s\<rparr>"
  by (auto simp: import_stored_chunk_def put_chunk_def bindop_def ret_def split: res.splits
      intro: exI [of _ "d_chunks v"])

lemma import_chunk_has: "import_stored_chunk X h d v = (Ok (), w) \<Longrightarrow> has_chunk w h"
  by (auto simp: import_stored_chunk_def put_chunk_def bindop_Ok_iff ret_def has_chunk_def store_exists_def
      put_Ok_iff om_mem_def om_get_insert split: res.splits)

definition fetch_chunks ::
  "ext \<Rightarrow> (string \<Rightarrow> content_hash \<Rightarrow> bytes result) \<Rightarrow> string \<Rightarrow> content_hash \<Rightarrow> unit \<Rightarrow> unit vop" where
  "fetch_chunks X fetch peer = (\<lambda>ch _. unless_has (\<lambda>v. has_chunk v ch) (fetch_into fetch peer ch (import_stored_chunk X)))"

lemma fetch_chunk_Ok:
  assumes "fetch_chunks X fetch peer ch u v = (Ok (), w)"
  shows "has_chunk w ch" "\<exists>s. w = v\<lparr>d_chunks := s\<rparr>" "grows v w"
  using assms import_chunk_has import_chunk_frame stepsD [OF og.import_chunk_steps]
  by (auto simp: fetch_chunks_def unless_has_def fetch_into_def bindop_Ok_iff ask_Ok_iff ret_def gr.refl
      split: if_splits intro: exI [of _ "d_chunks v"])

lemma fetch_all_chunks_Ok:
  "for_op (fetch_chunks X fetch peer) chs () v = (Ok (), w) \<Longrightarrow>
    list_all (has_chunk w) chs \<and> (\<exists>s. w = v\<lparr>d_chunks := s\<rparr>) \<and> grows v w"
proof (induction chs arbitrary: v)
  case (Cons ch chs)
  then obtain u where u: "fetch_chunks X fetch peer ch () v = (Ok (), u)"
    "for_op (fetch_chunks X fetch peer) chs () u = (Ok (), w)" by (auto simp: bindop_Ok_iff)
  note s = fetch_chunk_Ok [OF u(1)] and r = Cons.IH [OF u(2)]
  have "has_chunk w ch"
    using s(1) r by (auto simp: has_chunk_def store_exists_def om_mem_def grows_def)
  with s r show ?case using gr.trans by fastforce
qed (auto simp: ret_def gr.refl intro: exI [of _ "d_chunks w"])

lemma fetch_commit_frame:
  "unless_has p (fetch_into fetch peer h (import_commit_bytes X)) v = (r, w) \<Longrightarrow>
    \<exists>a b. w = v\<lparr>d_commits_bin := a, d_commits_json := b\<rparr>"
proof -
  have same: "\<exists>a b. v = v\<lparr>d_commits_bin := a, d_commits_json := b\<rparr>"
    by (intro exI [of _ "d_commits_bin v"] exI [of _ "d_commits_json v"]) simp
  assume run: "unless_has p (fetch_into fetch peer h (import_commit_bytes X)) v = (r, w)"
  then consider "w = v" | d where "import_commit_bytes X h d v = (r, w)"
    by (auto simp: unless_has_def fetch_into_def bindop_def ask_def ret_def split: if_splits res.splits)
  then show ?thesis by cases (use same import_commit_frame in blast)+
qed

lemma fetch_tree_frame:
  "unless_has p (fetch_into fetch peer h (import_tree_bytes X)) v = (r, w) \<Longrightarrow>
    \<exists>a b. w = v\<lparr>d_trees_bin := a, d_trees_json := b\<rparr>"
proof -
  have same: "\<exists>a b. v = v\<lparr>d_trees_bin := a, d_trees_json := b\<rparr>"
    by (intro exI [of _ "d_trees_bin v"] exI [of _ "d_trees_json v"]) simp
  assume run: "unless_has p (fetch_into fetch peer h (import_tree_bytes X)) v = (r, w)"
  then consider "w = v" | d where "import_tree_bytes X h d v = (r, w)"
    by (auto simp: unless_has_def fetch_into_def bindop_def ask_def ret_def split: if_splits res.splits)
  then show ?thesis by cases (use same import_tree_frame in blast)+
qed

text \<open>
  An ingestion that ends well leaves the commit complete, an existing \<open>HEAD\<close> alone, and the tip
  known.
\<close>

lemma ingest_Ok:
  assumes "hex_law X" "wf_hash h" and run: "ingest_commit_from_peer X fetch peer h v = (Ok b, w)"
  shows "is_complete X w h = Ok True"
    "b \<longleftrightarrow> head_of X v = Ok None"
    "\<not> b \<Longrightarrow> d_head w = d_head v"
    "\<exists>hs. list_heads X w = Ok hs \<and> h \<in> set hs"
    "b \<Longrightarrow> head_of X w = Ok (Some h)"
proof -
  obtain v1 c v2 t v3 hd where r: "unless_has (\<lambda>v. has_commit_object v h) (fetch_into fetch peer h (import_commit_bytes X)) v = (Ok (), v1)"
    "load_commit X v1 h = Ok c"
    "unless_has (\<lambda>v. has_tree_object v (c_tree c)) (fetch_into fetch peer (c_tree c) (import_tree_bytes X)) v1 = (Ok (), v2)"
    "load_tree X v2 (c_tree c) = Ok t"
    "for_op (fetch_chunks X fetch peer) (all_chunk_hashes t) () v2 = (Ok (), v3)"
    "head_of X v3 = Ok hd"
    and last_step: "(case hd of None \<Rightarrow> bindop (set_head X h) (\<lambda>_. ret True)
      | Some local_head \<Rightarrow> bindop (record_head X h) (\<lambda>_. ret False)) v3 = (Ok b, w)"
    using run by (auto simp: ingest_commit_from_peer_def bindop_Ok_iff ask_Ok_iff fetch_chunks_def [symmetric])
  obtain a1 b1 where f1: "v1 = v\<lparr>d_commits_bin := a1, d_commits_json := b1\<rparr>"
    using fetch_commit_frame [OF r(1)] by blast
  obtain a2 b2 where f2: "v2 = v1\<lparr>d_trees_bin := a2, d_trees_json := b2\<rparr>"
    using fetch_tree_frame [OF r(3)] by blast
  note ch = fetch_all_chunks_Ok [OF r(5)]
  then obtain s where f3: "v3 = v2\<lparr>d_chunks := s\<rparr>" by blast
  have hv: "head_of X v = Ok hd" using r(6) by (simp add: f3 f2 f1 head_of_def)
  have w: "d_chunks w = d_chunks v3" "d_trees_bin w = d_trees_bin v2" "d_trees_json w = d_trees_json v2"
    "d_commits_bin w = d_commits_bin v1" "d_commits_json w = d_commits_json v1"
    "b \<longleftrightarrow> hd = None" "\<not> b \<Longrightarrow> d_head w = d_head v"
    using last_step
    by (auto simp: f3 f2 f1 bindop_Ok_iff ret_def set_head_def modify_def record_head_def ask_Ok_iff write_heads_def
        split: option.splits)
  have "load_commit X w h = Ok c" using r(2) load_commit_cong [OF w(4,5)] by simp
  moreover have "load_tree X w (c_tree c) = Ok t" using r(4) load_tree_cong [OF w(2,3)] by simp
  moreover have "has_chunk w = has_chunk v3" by (rule ext) (simp add: has_chunk_def w(1))
  then have "list_all (has_chunk w) (all_chunk_hashes t)" using ch by simp
  ultimately show "is_complete X w h = Ok True"
    by (simp add: is_complete_def load_commit_present load_tree_present)
  show "b \<longleftrightarrow> head_of X v = Ok None" using w(6) hv by simp
  show "\<not> b \<Longrightarrow> d_head w = d_head v" by (rule w(7))
  show adopted: "head_of X w = Ok (Some h)" if b
  proof -
    have "hd = None" using w(6) that by blast
    then have st: "set_head X h v3 = (Ok (), w)" using last_step by (auto simp: bindop_Ok_iff ret_def)
    show ?thesis by (rule head_of_set_head [OF assms(1,2) st])
  qed
  show "\<exists>hs. list_heads X w = Ok hs \<and> h \<in> set hs"
  proof (cases hd)
    case None
    then have "head_of X w = Ok (Some h)" using w(6) adopted by blast
    then show ?thesis by (simp add: list_heads_def list_heads_file_only_def)
  next
    case (Some k)
    then have "record_head X h v3 = (Ok (), w)" using last_step by (auto simp: bindop_Ok_iff ret_def)
    from list_heads_record [OF assms(1,2) this] show ?thesis by auto
  qed
qed

end
