(* ===== verification/Gc.thy ===== *)
theory Gc
  imports VaultOps
begin

text \<open>
  Walking the commit graph (\<open>src/src/vault.rs\<close>): the mark phases of garbage collection, the
  sweep, and the collection of the blobs a peer needs. The three loops of the code differ in how
  they enqueue parents, in what they do at a commit and in whether they bound the number of
  commits; \<open>walk\<close> is their common shape. It ends because every round either shortens the queue or
  marks one more of the stored commits. Its result is described by reachability, and garbage
  collection is shown to keep whatever a protected commit needs and to drop everything else.
\<close>

section \<open>The walk\<close>

definition commit_keys :: "vault \<Rightarrow> content_hash list" where
  "commit_keys v = om_keys (d_commits_bin v) @ om_keys (d_commits_json v)"

lemma has_commit_keys: "has_commit_object v h \<longleftrightarrow> h \<in> set (commit_keys v)"
  by (auto simp: has_commit_object_def commit_keys_def set_om_keys)

text \<open>
  \<open>push\<close> puts the parents into the queue, \<open>over\<close> is the bound on the visited commits, and \<open>at\<close>
  returns the parents of a commit and the updated result.
\<close>

function walk ::
  "vault \<Rightarrow> (content_hash list \<Rightarrow> content_hash list \<Rightarrow> content_hash list) \<Rightarrow> (content_hash oset \<Rightarrow> soal_error option)
    \<Rightarrow> (content_hash \<Rightarrow> 'a \<Rightarrow> (content_hash list \<times> 'a) result)
    \<Rightarrow> content_hash list \<Rightarrow> content_hash oset \<Rightarrow> 'a \<Rightarrow> 'a result"
where
  "walk v push over at [] seen acc = Ok acc"
| "walk v push over at (h # queue) seen acc =
     (if h \<in> set seen then walk v push over at queue seen acc
      else let seen' = os_insert h seen in
        case over seen' of
          Some e \<Rightarrow> Err e
        | None \<Rightarrow>
            if \<not> has_commit_object v h then walk v push over at queue seen' acc
            else tryr (at h acc) (\<lambda>(parents, acc'). walk v push over at (push parents queue) seen' acc'))"
  by pat_completeness auto
termination
proof (relation "measures [\<lambda>(v, push, over, at, queue, seen, acc). card {h \<in> set (commit_keys v). h \<notin> set seen},
    \<lambda>(v, push, over, at, queue, seen, acc). length queue]", goal_cases)
  case (3 v push over at h queue seen acc seen')
  have "card {k \<in> set (commit_keys v). k \<notin> set seen'} \<le> card {k \<in> set (commit_keys v). k \<notin> set seen}"
    using 3 by (intro card_mono) auto
  then show ?case by auto
next
  case (4 v push over at h queue seen acc seen' x parents acc')
  have "card {k \<in> set (commit_keys v). k \<notin> set seen'} < card {k \<in> set (commit_keys v). k \<notin> set seen}"
    using 4 by (intro psubset_card_mono) (auto simp: has_commit_keys)
  then show ?case by auto
qed auto

section \<open>Marking\<close>

text \<open>\<open>queue.pop()\<close> takes the last element, so the queue is kept with its end first.\<close>

definition push_stack :: "content_hash list \<Rightarrow> content_hash list \<Rightarrow> content_hash list" where
  "push_stack parents queue = rev parents @ queue"

definition mark_chunks ::
  "ext \<Rightarrow> vault \<Rightarrow> content_hash \<Rightarrow> content_hash oset \<Rightarrow> (content_hash list \<times> content_hash oset) result"
where
  "mark_chunks X v h live =
     tryr (load_commit X v h) (\<lambda>c.
       if has_tree_object v (c_tree c) then
         tryr (load_tree X v (c_tree c)) (\<lambda>t. Ok (c_parents c, fold os_insert (all_chunk_hashes t) live))
       else Ok (c_parents c, live))"

definition live_chunk_hashes_from_roots :: "ext \<Rightarrow> vault \<Rightarrow> content_hash list \<Rightarrow> content_hash oset result" where
  "live_chunk_hashes_from_roots X v roots =
     walk v push_stack (\<lambda>_. None) (mark_chunks X v) (rev roots) [] []"

definition live_roots :: "ext \<Rightarrow> vault \<Rightarrow> content_hash list" where
  "live_roots X v =
     (case protected_commit_roots X v of
        Ok roots \<Rightarrow> roots
      | _ \<Rightarrow> (case head_of X v of Ok (Some h) \<Rightarrow> [h] | _ \<Rightarrow> []))"

definition live_chunk_hashes :: "ext \<Rightarrow> vault \<Rightarrow> content_hash oset result" where
  "live_chunk_hashes X v = live_chunk_hashes_from_roots X v (live_roots X v)"

definition mark_objects ::
  "ext \<Rightarrow> vault \<Rightarrow> content_hash \<Rightarrow> content_hash oset \<Rightarrow> (content_hash list \<times> content_hash oset) result"
where
  "mark_objects X v h live =
     (let live = os_insert h live
      in tryr (load_commit X v h) (\<lambda>c. Ok (c_parents c, os_insert (c_tree c) live)))"

definition live_object_hashes :: "ext \<Rightarrow> vault \<Rightarrow> content_hash oset result" where
  "live_object_hashes X v =
     walk v push_stack (\<lambda>_. None) (mark_objects X v) (rev (live_roots X v)) [] []"

section \<open>Sweeping\<close>

text \<open>The files of a directory that are not live are removed, and counted.\<close>

fun sweep :: "content_hash oset \<Rightarrow> cstore \<Rightarrow> cstore \<times> nat" where
  "sweep live [] = ([], 0)"
| "sweep live ((h, data) # files) =
     (let (rest, n) = sweep live files
      in if h \<in> set live then ((h, data) # rest, n) else (rest, n + 1))"

definition gc_unreachable_chunks :: "ext \<Rightarrow> nat vop" where
  "gc_unreachable_chunks X =
     bindop (ask (live_chunk_hashes X)) (\<lambda>live v.
       let (s, removed) = sweep live (d_chunks v) in (Ok removed, v\<lparr>d_chunks := s\<rparr>))"

definition gc_unreachable_objects :: "ext \<Rightarrow> (nat \<times> nat) vop" where
  "gc_unreachable_objects X =
     bindop (ask (live_object_hashes X)) (\<lambda>live v.
       let (cb, n1) = sweep live (d_commits_bin v); (cj, n2) = sweep live (d_commits_json v);
           (tb, n3) = sweep live (d_trees_bin v); (tj, n4) = sweep live (d_trees_json v)
       in (Ok (n1 + n2, n3 + n4),
           v\<lparr>d_commits_bin := cb, d_commits_json := cj, d_trees_bin := tb, d_trees_json := tj\<rparr>))"

definition gc_all :: "ext \<Rightarrow> nat vop" where
  "gc_all X =
     bindop (gc_unreachable_chunks X) (\<lambda>chunks.
     bindop (gc_unreachable_objects X) (\<lambda>(c, t). ret (chunks + c + t)))"

section \<open>Providing\<close>

type_synonym blobs = "(content_hash \<times> bytes) list"

definition provide_chunk ::
  "ext \<Rightarrow> vault \<Rightarrow> content_hash \<Rightarrow> content_hash oset \<times> blobs \<Rightarrow> content_hash oset \<times> blobs"
where
  "provide_chunk X v ch = (\<lambda>(seen, out).
     if ch \<in> set seen then (seen, out)
     else (os_insert ch seen,
           case export_stored_chunk X v ch of Ok b \<Rightarrow> out @ [(ch, b)] | _ \<Rightarrow> out))"

definition provide_tree ::
  "ext \<Rightarrow> vault \<Rightarrow> content_hash \<Rightarrow> content_hash oset \<times> blobs \<Rightarrow> (content_hash oset \<times> blobs) result"
where
  "provide_tree X v th = (\<lambda>(seen, out).
     if has_tree_object v th \<and> th \<notin> set seen then
       tryr (export_tree_bytes X v th) (\<lambda>tree_bytes.
       tryr (load_tree X v th) (\<lambda>t.
         Ok (fold (provide_chunk X v) (all_chunk_hashes t) (os_insert th seen, out @ [(th, tree_bytes)]))))
     else Ok (seen, out))"

definition provide_commit ::
  "ext \<Rightarrow> vault \<Rightarrow> content_hash \<Rightarrow> content_hash oset \<times> blobs
    \<Rightarrow> (content_hash list \<times> (content_hash oset \<times> blobs)) result"
where
  "provide_commit X v cid = (\<lambda>(seen, out).
     tryr (export_commit_bytes X v cid) (\<lambda>commit_bytes.
       let st = (if cid \<in> set seen then (seen, out) else (os_insert cid seen, out @ [(cid, commit_bytes)]))
       in tryr (load_commit X v cid) (\<lambda>c.
            tryr (provide_tree X v (c_tree c) st) (\<lambda>st. Ok (c_parents c, st)))))"

definition collect_provide_hashes :: "ext \<Rightarrow> vault \<Rightarrow> content_hash \<Rightarrow> blobs result" where
  "collect_provide_hashes X v commit_hash =
     tryr (walk v (\<lambda>parents queue. queue @ parents)
             (\<lambda>seen. if length seen > MAX_JOB_COMMITS then
                Some (Other ''provide DAG too deep (MAX_JOB_COMMITS)'') else None)
             (provide_commit X v) [commit_hash] [] ([], [])) (\<lambda>(seen, out). Ok out)"

section \<open>Reachability\<close>

inductive reach :: "ext \<Rightarrow> vault \<Rightarrow> content_hash set \<Rightarrow> content_hash \<Rightarrow> bool" for X v R where
  root: "h \<in> R \<Longrightarrow> reach X v R h"
| parent: "reach X v R h \<Longrightarrow> load_commit X v h = Ok c \<Longrightarrow> p \<in> set (c_parents c) \<Longrightarrow> reach X v R p"

definition parents_in :: "ext \<Rightarrow> vault \<Rightarrow> content_hash set \<Rightarrow> content_hash set \<Rightarrow> bool" where
  "parents_in X v A B \<longleftrightarrow> (\<forall>h\<in>A. \<forall>c. load_commit X v h = Ok c \<longrightarrow> set (c_parents c) \<subseteq> B)"

lemma reach_least:
  assumes "reach X v R h" "R \<subseteq> S" "parents_in X v S S"
  shows "h \<in> S"
  using assms(1) by induction (use assms(2,3) in \<open>auto simp: parents_in_def\<close>)

lemma reach_mono: "reach X v R h \<Longrightarrow> R \<subseteq> R' \<Longrightarrow> reach X v R' h"
  by (induction rule: reach.induct) (auto intro: reach.intros)

lemma reach_trans: "reach X v R h \<Longrightarrow> (\<And>r. r \<in> R \<Longrightarrow> reach X v R' r) \<Longrightarrow> reach X v R' h"
  by (induction rule: reach.induct) (auto intro: reach.parent)

lemma parents_closed:
  assumes "parents_in X v A (A \<union> R)"
  shows "parents_in X v (A \<union> {h. reach X v R h}) (A \<union> {h. reach X v R h})"
  using assms by (fastforce simp: parents_in_def intro: reach.intros)

lemma reach_into:
  assumes "parents_in X v A (A \<union> R)" "Q \<subseteq> A \<union> R" "reach X v Q h"
  shows "h \<in> A \<union> {k. reach X v R k}"
  by (rule reach_least [OF assms(3) _ parents_closed [OF assms(1)]]) (use assms(2) in \<open>auto intro: reach.root\<close>)

text \<open>
  What a walk visits: the commits seen before it and what is reachable from the queue. \<open>P\<close> is any
  relation between the visited set and the result that each round keeps; a round only happens for a
  set that the bound admits.
\<close>

definition admits :: "(content_hash oset \<Rightarrow> soal_error option) \<Rightarrow> content_hash set \<Rightarrow> bool" where
  "admits over S \<longleftrightarrow> (\<exists>xs. os_wf xs \<and> set xs = S \<and> over xs = None)"

lemma walk_reaches:
  assumes "walk v push over at queue seen acc = Ok r"
    and push: "\<And>ps q. set (push ps q) = set ps \<union> set q"
    and at: "\<And>h acc ps acc'. at h acc = Ok (ps, acc') \<Longrightarrow> \<exists>c. load_commit X v h = Ok c \<and> ps = c_parents c"
    and P0: "P (set seen) acc"
    and skip: "\<And>S acc h. P S acc \<Longrightarrow> \<not> has_commit_object v h \<Longrightarrow> h \<notin> S \<Longrightarrow> admits over (insert h S) \<Longrightarrow> P (insert h S) acc"
    and step: "\<And>S acc h ps acc'. P S acc \<Longrightarrow> h \<notin> S \<Longrightarrow> has_commit_object v h \<Longrightarrow> admits over (insert h S) \<Longrightarrow>
      at h acc = Ok (ps, acc') \<Longrightarrow> P (insert h S) acc'"
    and wf: "os_wf seen"
    and clo: "parents_in X v (set seen) (set seen \<union> set queue)"
  shows "P (set seen \<union> {h. reach X v (set queue) h}) r"
  using assms
proof (induction v push over at queue seen acc rule: walk.induct [case_names nil cons])
  case (nil v push over at seen acc)
  have "\<not> reach X v {} h" for h
  proof
    assume "reach X v {} h"
    then show False by induction auto
  qed
  with nil.prems(1,4) show ?case by simp
next
  case (cons v push over at h queue seen acc)
  note push = cons.prems(2) and at = cons.prems(3) and skip = cons.prems(5) and step = cons.prems(6)
  show ?case
  proof (cases "h \<in> set seen")
    case True
    have clo': "parents_in X v (set seen) (set seen \<union> set queue)"
      using cons.prems(8) True by (auto simp: parents_in_def)
    have "P (set seen \<union> {k. reach X v (set queue) k}) r"
      by (rule cons.IH(1) [OF True _ push at cons.prems(4) skip step cons.prems(7) clo']) (use cons.prems(1) True in simp_all)
    moreover have "set seen \<union> {k. reach X v (set (h # queue)) k} = set seen \<union> {k. reach X v (set queue) k}"
      using reach_into [OF clo', of "set (h # queue)"] True by (auto intro: reach_mono)
    ultimately show ?thesis by simp
  next
    case new: False
    let ?seen = "os_insert h seen"
    have wf': "os_wf ?seen" using cons.prems(7) by simp
    have over: "over ?seen = None" using cons.prems(1) new by (auto simp: Let_def split: option.splits)
    have adm: "admits over (insert h (set seen))" using over wf' unfolding admits_def by (metis set_os_insert)
    show ?thesis
    proof (cases "has_commit_object v h")
      case False
      then have no: "load_commit X v h \<noteq> Ok c" for c using load_commit_present by blast
      have clo': "parents_in X v (set ?seen) (set ?seen \<union> set queue)"
        using cons.prems(8) no by (auto simp: parents_in_def)
      have "P (set ?seen \<union> {k. reach X v (set queue) k}) r"
        by (rule cons.IH(2) [OF new refl over False _ push at _ skip step wf' clo'])
          (use cons.prems(1,4) new over False skip adm in simp_all)
      moreover have "set seen \<union> {k. reach X v (set (h # queue)) k} = set ?seen \<union> {k. reach X v (set queue) k}"
        using reach_into [OF clo', of "set (h # queue)"] by (auto intro: reach.root reach_mono)
      ultimately show ?thesis by simp
    next
      case True
      then obtain ps acc' where a: "at h acc = Ok (ps, acc')" "walk v push over at (push ps queue) ?seen acc' = Ok r"
        using cons.prems(1) new over by (auto simp: Let_def elim!: tryr_OkE)
      obtain c where c: "load_commit X v h = Ok c" "ps = c_parents c" using at [OF a(1)] by blast
      have clo': "parents_in X v (set ?seen) (set ?seen \<union> set (push ps queue))"
        using cons.prems(8) c by (auto simp: parents_in_def push)
      have "P (set ?seen \<union> {k. reach X v (set (push ps queue)) k}) r"
        by (rule cons.IH(3) [OF new refl over _ a(1) refl a(2) push at _ skip step wf' clo'])
          (use True step [OF cons.prems(4) new True adm a(1)] in simp_all)
      moreover have "set seen \<union> {k. reach X v (set (h # queue)) k} = set ?seen \<union> {k. reach X v (set (push ps queue)) k}"
      proof -
        have "reach X v (set (h # queue)) k" if "reach X v (set (push ps queue)) k" for k
          by (rule reach_trans [OF that]) (use c in \<open>auto simp: push intro: reach.intros\<close>)
        then show ?thesis
          using reach_into [OF clo', of "set (h # queue)"] by (auto simp: push intro: reach.root)
      qed
      ultimately show ?thesis by simp
    qed
  qed
qed

section \<open>What the marks contain\<close>

abbreviation live_commit :: "ext \<Rightarrow> vault \<Rightarrow> content_hash \<Rightarrow> bool" where
  "live_commit X v h \<equiv> reach X v (set (live_roots X v)) h"

definition live_chunk :: "ext \<Rightarrow> vault \<Rightarrow> content_hash set \<Rightarrow> content_hash \<Rightarrow> bool" where
  "live_chunk X v S ch \<longleftrightarrow> (\<exists>h\<in>S. \<exists>c t. load_commit X v h = Ok c \<and> load_tree X v (c_tree c) = Ok t
     \<and> ch \<in> set (all_chunk_hashes t))"

definition live_object :: "ext \<Rightarrow> vault \<Rightarrow> content_hash set \<Rightarrow> content_hash \<Rightarrow> bool" where
  "live_object X v S k \<longleftrightarrow> k \<in> S \<and> has_commit_object v k
     \<or> (\<exists>h\<in>S. \<exists>c. load_commit X v h = Ok c \<and> k = c_tree c)"

lemma set_push_stack: "set (push_stack ps q) = set ps \<union> set q"
  by (auto simp: push_stack_def)

lemma live_chunk_insert:
  "live_chunk X v (insert h S) ch \<longleftrightarrow> live_chunk X v S ch
    \<or> (\<exists>c t. load_commit X v h = Ok c \<and> load_tree X v (c_tree c) = Ok t \<and> ch \<in> set (all_chunk_hashes t))"
  by (auto simp: live_chunk_def)

lemma live_object_insert:
  "live_object X v (insert h S) k \<longleftrightarrow> live_object X v S k \<or> k = h \<and> has_commit_object v h
    \<or> (\<exists>c. load_commit X v h = Ok c \<and> k = c_tree c)"
  by (auto simp: live_object_def)

lemma no_object_no_load: "\<not> has_commit_object v h \<Longrightarrow> load_commit X v h \<noteq> Ok c"
  using load_commit_present by blast

lemma no_tree_no_load: "\<not> has_tree_object v h \<Longrightarrow> load_tree X v h \<noteq> Ok c"
  using load_tree_present by blast

lemma live_chunks_from_roots:
  assumes "live_chunk_hashes_from_roots X v roots = Ok live"
  shows "set live = {ch. live_chunk X v {h. reach X v (set roots) h} ch}"
proof -
  let ?P = "\<lambda>S live. set live = {ch. live_chunk X v S ch}"
  have "?P (set [] \<union> {h. reach X v (set (rev roots)) h}) live"
  proof (rule walk_reaches [OF assms [unfolded live_chunk_hashes_from_roots_def] set_push_stack])
    fix S acc h ps acc'
    assume "set acc = {ch. live_chunk X v S ch}" "mark_chunks X v h acc = Ok (ps, acc')"
    then show "set acc' = {ch. live_chunk X v (insert h S) ch}"
      by (auto simp: mark_chunks_def live_chunk_insert set_os_fold no_tree_no_load split: if_splits elim!: tryr_OkE)
  next
    fix h acc ps acc'
    assume "mark_chunks X v h acc = Ok (ps, acc')"
    then show "\<exists>c. load_commit X v h = Ok c \<and> ps = c_parents c"
      by (auto simp: mark_chunks_def split: if_splits elim!: tryr_OkE)
  qed (auto simp: live_chunk_insert no_object_no_load parents_in_def, simp add: live_chunk_def)
  then show ?thesis by simp
qed

lemma live_objects:
  assumes "live_object_hashes X v = Ok live"
  shows "set live = {k. live_object X v {h. live_commit X v h} k}"
proof -
  let ?P = "\<lambda>S live. set live = {k. live_object X v S k}"
  have "?P (set [] \<union> {h. reach X v (set (rev (live_roots X v))) h}) live"
  proof (rule walk_reaches [OF assms [unfolded live_object_hashes_def] set_push_stack])
    fix S acc h ps acc'
    assume "set acc = {k. live_object X v S k}" "has_commit_object v h" "mark_objects X v h acc = Ok (ps, acc')"
    then show "set acc' = {k. live_object X v (insert h S) k}"
      by (auto simp: mark_objects_def live_object_insert Let_def elim!: tryr_OkE)
  next
    fix h acc ps acc'
    assume "mark_objects X v h acc = Ok (ps, acc')"
    then show "\<exists>c. load_commit X v h = Ok c \<and> ps = c_parents c"
      by (auto simp: mark_objects_def Let_def elim!: tryr_OkE)
  qed (auto simp: live_object_insert no_object_no_load parents_in_def, simp add: live_object_def)
  then show ?thesis by simp
qed

section \<open>Garbage collection keeps what is needed and drops the rest\<close>

lemma sweep_eq: "sweep live m = (filter (\<lambda>(h, d). h \<in> set live) m, length (filter (\<lambda>(h, d). h \<notin> set live) m))"
  by (induction live m rule: sweep.induct) (simp_all split: prod.splits)

lemma om_get_sweep: "om_get (fst (sweep live m)) h = (if h \<in> set live then om_get m h else None)"
  unfolding sweep_eq by (induction m) auto

lemma walk_same:
  "(\<And>h. has_commit_object w h = has_commit_object v h) \<Longrightarrow>
    walk w push over at q seen acc = walk v push over at q seen acc"
proof (induction v push over at q seen acc rule: walk.induct [case_names nil cons])
  case (cons v push over at h queue seen acc)
  show ?case
  proof (cases "h \<in> set seen \<or> over (os_insert h seen) \<noteq> None")
    case True
    then show ?thesis using cons by (auto simp: Let_def)
  next
    case False
    have "walk w push over at (push ps queue) (os_insert h seen) acc' = walk v push over at (push ps queue) (os_insert h seen) acc'"
      if "at h acc = Ok (ps, acc')" "has_commit_object v h" for ps acc'
      by (rule cons.IH(3) [OF _ refl _ _ that(1) refl]) (use False that cons.prems in simp_all)
    then show ?thesis using cons False by (auto simp: Let_def intro!: tryr_cong)
  qed
qed simp

lemma file_chunk_in:
  "(n, File sz hs) \<in> set (entries t) \<Longrightarrow> ch \<in> set hs \<Longrightarrow> ch \<in> set (all_chunk_hashes t)"
  unfolding all_chunk_hashes_def by (auto intro!: bexI [of _ "(n, File sz hs)"])

lemma gc_all_Ok:
  assumes "gc_all X v = (Ok n, w)"
  obtains lc lo where "live_chunk_hashes X v = Ok lc" "live_object_hashes X v = Ok lo"
    "w = v\<lparr>d_chunks := fst (sweep lc (d_chunks v)),
       d_commits_bin := fst (sweep lo (d_commits_bin v)), d_commits_json := fst (sweep lo (d_commits_json v)),
       d_trees_bin := fst (sweep lo (d_trees_bin v)), d_trees_json := fst (sweep lo (d_trees_json v))\<rparr>"
proof -
  obtain k v1 a b where r: "gc_unreachable_chunks X v = (Ok k, v1)" "gc_unreachable_objects X v1 = (Ok (a, b), w)"
    using assms by (auto simp: gc_all_def bindop_Ok_iff ret_def)
  obtain lc where lc: "live_chunk_hashes X v = Ok lc" "v1 = v\<lparr>d_chunks := fst (sweep lc (d_chunks v))\<rparr>"
    using r(1) by (auto simp: gc_unreachable_chunks_def bindop_Ok_iff ask_Ok_iff sweep_eq)
  obtain lo where lo: "live_object_hashes X v1 = Ok lo"
    "w = v1\<lparr>d_commits_bin := fst (sweep lo (d_commits_bin v1)), d_commits_json := fst (sweep lo (d_commits_json v1)),
       d_trees_bin := fst (sweep lo (d_trees_bin v1)), d_trees_json := fst (sweep lo (d_trees_json v1))\<rparr>"
    using r(2) by (auto simp: gc_unreachable_objects_def bindop_Ok_iff ask_Ok_iff sweep_eq)
  have heads: "list_heads X v1 = list_heads X v"
    by (simp add: lc(2) list_heads_def list_heads_file_only_def)
  have roots: "live_roots X v1 = live_roots X v"
  proof -
    have ho: "head_of X v1 = head_of X v" and ls: "load_snapshots v1 = load_snapshots v"
      by (simp_all add: lc(2) load_snapshots_def)
    show ?thesis unfolding live_roots_def protected_commit_roots_def heads ho ls by (rule refl)
  qed
  have "mark_objects X v1 = mark_objects X v"
    by (rule ext)+ (simp add: mark_objects_def lc(2))
  moreover have "walk v1 push over at q seen acc = walk v push over at q seen acc" for push over at q seen and acc :: "content_hash oset"
    by (rule walk_same) (simp add: lc(2) has_commit_object_def)
  ultimately have "live_object_hashes X v = Ok lo" using lo(1) by (simp add: live_object_hashes_def roots)
  with lc lo(2) show thesis by (intro that) simp_all
qed

lemma load_commit_get:
  "om_get (d_commits_bin w) h = om_get (d_commits_bin v) h \<Longrightarrow>
    om_get (d_commits_json w) h = om_get (d_commits_json v) h \<Longrightarrow> load_commit X w h = load_commit X v h"
  by (simp add: load_commit_def cong: option.case_cong)

lemma load_tree_get:
  "om_get (d_trees_bin w) h = om_get (d_trees_bin v) h \<Longrightarrow>
    om_get (d_trees_json w) h = om_get (d_trees_json v) h \<Longrightarrow> load_tree X w h = load_tree X v h"
  by (simp add: load_tree_def cong: option.case_cong)

text \<open>A live commit loads as before, and so do its tree and the chunks of its tree.\<close>

lemma gc_keeps_live:
  assumes run: "gc_all X v = (Ok n, w)" and h: "live_commit X v h"
  shows "load_commit X w h = load_commit X v h"
    and "load_commit X v h = Ok c \<Longrightarrow> load_tree X w (c_tree c) = load_tree X v (c_tree c)"
    and "load_commit X v h = Ok c \<Longrightarrow> load_tree X v (c_tree c) = Ok t \<Longrightarrow> ch \<in> set (all_chunk_hashes t) \<Longrightarrow>
      om_get (d_chunks w) ch = om_get (d_chunks v) ch"
proof -
  obtain lc lo where r: "live_chunk_hashes X v = Ok lc" "live_object_hashes X v = Ok lo"
    "w = v\<lparr>d_chunks := fst (sweep lc (d_chunks v)),
       d_commits_bin := fst (sweep lo (d_commits_bin v)), d_commits_json := fst (sweep lo (d_commits_json v)),
       d_trees_bin := fst (sweep lo (d_trees_bin v)), d_trees_json := fst (sweep lo (d_trees_json v))\<rparr>"
    using run by (rule gc_all_Ok)
  note lo = live_objects [OF r(2)]
  note lc = live_chunks_from_roots [OF r(1) [unfolded live_chunk_hashes_def]]
  have hc: "h \<in> set lo" if "has_commit_object v h" using h that by (simp add: lo live_object_def)
  have none: "om_get (d_commits_bin v) h = None \<and> om_get (d_commits_json v) h = None" if "h \<notin> set lo"
    using hc that by (metis has_commit_object_def om_mem_def)
  show "load_commit X w h = load_commit X v h"
    by (rule load_commit_get) (use none in \<open>auto simp: r(3) om_get_sweep\<close>)
  show "load_tree X w (c_tree c) = load_tree X v (c_tree c)" if "load_commit X v h = Ok c"
  proof -
    have "c_tree c \<in> set lo" using h that by (auto simp: lo live_object_def)
    then show ?thesis by (intro load_tree_get) (simp_all add: r(3) om_get_sweep)
  qed
  show "om_get (d_chunks w) ch = om_get (d_chunks v) ch"
    if "load_commit X v h = Ok c" "load_tree X v (c_tree c) = Ok t" "ch \<in> set (all_chunk_hashes t)"
  proof -
    have "ch \<in> set lc" using h that by (auto simp: lc live_chunk_def)
    then show ?thesis by (simp add: r(3) om_get_sweep)
  qed
qed

text \<open>Whatever is left is live.\<close>

lemma gc_drops_dead:
  assumes run: "gc_all X v = (Ok n, w)"
  shows "om_mem (d_chunks w) ch \<Longrightarrow> live_chunk X v {h. live_commit X v h} ch"
    and "has_commit_object w k \<or> has_tree_object w k \<Longrightarrow> live_object X v {h. live_commit X v h} k"
proof -
  obtain lc lo where r: "live_chunk_hashes X v = Ok lc" "live_object_hashes X v = Ok lo"
    "w = v\<lparr>d_chunks := fst (sweep lc (d_chunks v)),
       d_commits_bin := fst (sweep lo (d_commits_bin v)), d_commits_json := fst (sweep lo (d_commits_json v)),
       d_trees_bin := fst (sweep lo (d_trees_bin v)), d_trees_json := fst (sweep lo (d_trees_json v))\<rparr>"
    using run by (rule gc_all_Ok)
  note lo = live_objects [OF r(2)]
  note lc = live_chunks_from_roots [OF r(1) [unfolded live_chunk_hashes_def]]
  show "live_chunk X v {h. live_commit X v h} ch" if "om_mem (d_chunks w) ch"
  proof -
    have "ch \<in> set lc" using that by (auto simp: r(3) om_mem_def om_get_sweep split: if_splits)
    then show ?thesis by (simp add: lc)
  qed
  show "live_object X v {h. live_commit X v h} k" if "has_commit_object w k \<or> has_tree_object w k"
  proof -
    have "k \<in> set lo"
      using that by (auto simp: r(3) has_commit_object_def has_tree_object_def om_mem_def om_get_sweep split: if_splits)
    then show ?thesis by (simp add: lo)
  qed
qed

lemma for_op_cong2: "(\<And>x acc. x \<in> set xs \<Longrightarrow> f x acc = g x acc) \<Longrightarrow> for_op f xs acc = for_op g xs acc"
proof (induction xs arbitrary: acc)
  case (Cons x xs)
  have "for_op f xs a = for_op g xs a" for a by (rule Cons.IH) (simp add: Cons.prems)
  then have "for_op f xs = for_op g xs" by (rule ext)
  then show ?case using Cons.prems by simp
qed simp

lemma restore_file_get:
  assumes "\<And>ch. ch \<in> set hs \<Longrightarrow> om_get (d_chunks w) ch = om_get (d_chunks v) ch" "v_key w = v_key v"
  shows "restore_file X w n sz hs = restore_file X v n sz hs"
proof -
  have "restore_chunk X w ch acc = restore_chunk X v ch acc" if "ch \<in> set hs" for ch acc
    using assms that by (simp add: restore_chunk_def load_chunk_def store_get_def cong: option.case_cong)
  then have "for_res (restore_chunk X w) hs [] = for_res (restore_chunk X v) hs []"
    by (rule for_res_cong [OF refl refl])
  then show ?thesis by (simp add: restore_file_def)
qed

text \<open>Restoring a commit reads the commit, its tree and the chunks of its tree, and nothing else.\<close>

lemma restore_reads:
  assumes c: "load_commit X w h = load_commit X v h" and key: "v_key w = v_key v"
    and t: "\<And>c. load_commit X v h = Ok c \<Longrightarrow> load_tree X w (c_tree c) = load_tree X v (c_tree c)"
    and ch: "\<And>c t ch. load_commit X v h = Ok c \<Longrightarrow> load_tree X v (c_tree c) = Ok t \<Longrightarrow>
      ch \<in> set (all_chunk_hashes t) \<Longrightarrow> om_get (d_chunks w) ch = om_get (d_chunks v) ch"
  shows "restore X F w h target = restore X F v h target"
proof (cases "load_commit X v h")
  case (Ok c)
  show ?thesis
  proof (cases "load_tree X v (c_tree c)")
    case tr: (Ok t)
    have "restore_entry X F w target e u = restore_entry X F v target e u" if "e \<in> set (entries t)" for e u
    proof (cases "snd e")
      case (File sz hs)
      have "(fst e, File sz hs) \<in> set (entries t)" using that File by (metis prod.collapse)
      then have "ch \<in> set (all_chunk_hashes t)" if "ch \<in> set hs" for ch
        using that by (rule file_chunk_in)
      then have "om_get (d_chunks w) ch = om_get (d_chunks v) ch" if "ch \<in> set hs" for ch
        using ch [OF Ok tr] that by simp
      then have "restore_file X w (fst e) sz hs = restore_file X v (fst e) sz hs"
        by (rule restore_file_get) (simp_all add: key)
      with File show ?thesis by (cases e) (simp add: restore_entry_def)
    qed (cases e, simp add: restore_entry_def)
    then have "for_op (restore_entry X F w target) (entries t) () = for_op (restore_entry X F v target) (entries t) ()"
      by (rule for_op_cong2)
    then show ?thesis
      using Ok tr c t [OF Ok] by (simp add: restore_def bindop_def ask_def)
  qed (use Ok c t [OF Ok] in \<open>simp_all add: restore_def bindop_def ask_def\<close>)
qed (use c in \<open>simp_all add: restore_def bindop_def ask_def\<close>)

text \<open>Hence restoring a protected commit after a collection does exactly what it did before.\<close>

lemma gc_keeps_restore:
  assumes run: "gc_all X v = (Ok n, w)" and h: "live_commit X v h"
  shows "restore X F w h target = restore X F v h target"
  by (rule restore_reads) (use run gc_keeps_live [OF run h] in \<open>auto elim!: gc_all_Ok\<close>)

lemma gc_chunks_keeps_restore:
  assumes run: "gc_unreachable_chunks X v = (Ok n, w)" and h: "live_commit X v h"
  shows "restore X F w h target = restore X F v h target" "head_of X w = head_of X v"
proof -
  obtain lc where r: "live_chunk_hashes X v = Ok lc" "w = v\<lparr>d_chunks := fst (sweep lc (d_chunks v))\<rparr>"
    using run by (auto simp: gc_unreachable_chunks_def bindop_Ok_iff ask_Ok_iff sweep_eq)
  note lc = live_chunks_from_roots [OF r(1) [unfolded live_chunk_hashes_def]]
  have frame: "load_commit X w = load_commit X v" "load_tree X w = load_tree X v"
    by (rule ext, rule load_commit_cong load_tree_cong; simp add: r(2))+
  show "restore X F w h target = restore X F v h target"
  proof (rule restore_reads)
    fix c t ch
    assume "load_commit X v h = Ok c" "load_tree X v (c_tree c) = Ok t" "ch \<in> set (all_chunk_hashes t)"
    then have "ch \<in> set lc" using h by (auto simp: lc live_chunk_def)
    then show "om_get (d_chunks w) ch = om_get (d_chunks v) ch" by (simp add: r(2) om_get_sweep)
  qed (simp_all add: frame r(2))
  show "head_of X w = head_of X v" by (simp add: r(2) head_of_def)
qed

lemma gc_keeps_heads:
  assumes "gc_all X v = (Ok n, w)"
  shows "head_of X w = head_of X v" "list_heads X w = list_heads X v"
proof -
  have d: "d_head w = d_head v" "d_heads w = d_heads v" using assms by (elim gc_all_Ok, simp)+
  show h: "head_of X w = head_of X v" by (simp add: head_of_def d)
  show "list_heads X w = list_heads X v" by (simp add: list_heads_def list_heads_file_only_def h d)
qed

text \<open>A collection that fails half way has removed no live chunk either.\<close>

lemma gc_attempt_keeps:
  assumes run: "gc_all X v = (r, w)" and h: "live_commit X v h" and head: "head_of X v = hd0"
  shows "restore X F w h target = restore X F v h target \<and> head_of X w = hd0"
proof (cases "is_ok r")
  case True
  then show ?thesis using gc_keeps_restore gc_keeps_heads(1) run h head by (metis is_ok_iff)
next
  case False
  obtain r1 v1 where c: "gc_unreachable_chunks X v = (r1, v1)" by (cases "gc_unreachable_chunks X v")
  have obj: "gc_unreachable_objects X v1 = (q, u) \<Longrightarrow> u = v1 \<or> is_ok q" for q u
    by (auto simp: gc_unreachable_objects_def bindop_def ask_def sweep_eq split: res.splits)
  show ?thesis
  proof (cases "is_ok r1")
    case True
    then obtain k where k: "r1 = Ok k" by (auto simp: is_ok_iff)
    then have "w = v1" using run c obj False
      by (cases "gc_unreachable_objects X v1")
        (auto simp: gc_all_def bindop_def ret_def is_ok_iff split: res.splits prod.splits)
    then show ?thesis using gc_chunks_keeps_restore c k h head by metis
  next
    case False
    then have "w = v" using run c
      by (auto simp: gc_all_def bindop_def gc_unreachable_chunks_def ask_def sweep_eq split: res.splits)
    then show ?thesis using head by simp
  qed
qed

text \<open>The head is live, whether or not the list of protected roots can be read.\<close>

lemma head_live:
  assumes "head_of X v = Ok (Some h)"
  shows "live_commit X v h"
proof (cases "protected_commit_roots X v")
  case (Ok roots)
  obtain hs where "list_heads X v = Ok hs" "set hs \<subseteq> set roots"
    using protected_roots_set [OF Ok] by blast
  moreover from this assms have "h \<in> set hs" by (auto simp: list_heads_def elim!: tryr_OkE)
  ultimately show ?thesis by (auto simp: live_roots_def Ok intro: reach.root)
qed (use assms in \<open>auto simp: live_roots_def intro: reach.root\<close>)

lemma gc_cas: "steps (keeps (cas_ok X)) (gc_all X)"
proof -
  have f: "addressed X (fst (sweep live m))" if "addressed X m" for live m
    using addressed_filter [OF that] by (simp add: sweep_eq)
  have "steps (keeps (cas_ok X)) (gc_unreachable_chunks X)"
    unfolding gc_unreachable_chunks_def
    by (intro keep.steps_bindI keep.steps_ask) (simp add: steps_def keeps_def cas_ok_def sweep_eq addressed_filter)
  moreover have "steps (keeps (cas_ok X)) (gc_unreachable_objects X)"
    unfolding gc_unreachable_objects_def
    by (intro keep.steps_bindI keep.steps_ask) (simp add: steps_def keeps_def cas_ok_def sweep_eq addressed_filter)
  ultimately show ?thesis
    unfolding gc_all_def by (intro keep.steps_bindI) (auto intro!: keep.steps_intros split: prod.split)
qed

text \<open>The head, the recorded heads and the registered snapshots are protected.\<close>

lemma protected_live:
  assumes "list_heads X v = Ok hs" "load_snapshots v = Ok log"
    and "h \<in> set hs \<or> (\<exists>e\<in>set log. from_hex X (se_hash e) = Ok h)"
  shows "live_commit X v h"
proof -
  have "\<exists>hd. head_of X v = Ok hd" using assms(1) by (auto simp: list_heads_def elim!: tryr_OkE)
  then obtain roots where r: "protected_commit_roots X v = Ok roots"
    using assms(1,2) by (auto simp: protected_commit_roots_def Let_def)
  with protected_roots_set [OF r] assms have "h \<in> set roots" by auto
  then show ?thesis by (auto simp: live_roots_def r intro: reach.root)
qed

text \<open>So is what they reach.\<close>

lemma reach_live:
  assumes "list_heads X v = Ok hs" "load_snapshots v = Ok log"
    and "reach X v (set hs \<union> {k. \<exists>e\<in>set log. from_hex X (se_hash e) = Ok k}) h"
  shows "live_commit X v h"
  by (rule reach_trans [OF assms(3)]) (use protected_live [OF assms(1,2)] in blast)

lemma reach_head_live: "head_of X v = Ok (Some k) \<Longrightarrow> reach X v {k} h \<Longrightarrow> live_commit X v h"
  by (rule reach_trans) (use head_live in blast)+

end
