(* ===== verification/Replication.thy ===== *)
theory Replication
  imports Gc "HOL-Library.Product_Lexorder" "HOL-Library.Multiset"
begin

text \<open>
  Replication (\<open>src/src/replication.rs\<close>): the local pin set, what peers are known to hold, the
  estimate of replicas, and the ranking of peers for placement. Scores are \<open>i64\<close> in the code and
  never leave a range of a few hundred around the preference bonus, so they are integers here.
\<close>

section \<open>Pins\<close>

definition pins_default :: pin_set where
  "pins_default = \<lparr>pn_pins = [], pn_updated_at = 0\<rparr>"

definition load_pins :: "vault \<Rightarrow> pin_set result" where
  "load_pins v = json_or pins_default (d_pins v)"

definition save_pins :: "pin_set \<Rightarrow> unit vop" where
  "save_pins p = modify (\<lambda>v. v\<lparr>d_pins := Good p\<rparr>)"

definition ensure_local_pins :: "ext \<Rightarrow> u64 \<Rightarrow> nat vop" where
  "ensure_local_pins X now =
     bindop (ask (live_chunk_hashes X)) (\<lambda>live.
     bindop (ask load_pins) (\<lambda>pins.
       let before = length (pn_pins pins);
           pins' = fold (\<lambda>h ps. os_insert (to_hex X h) ps) live (pn_pins pins)
       in bindop (save_pins \<lparr>pn_pins = pins', pn_updated_at = now\<rparr>) (\<lambda>_. ret (length pins' - before))))"

section \<open>What peers hold\<close>

definition have_default :: peer_have where
  "have_default = \<lparr>ph_peers = [], ph_updated_at = 0\<rparr>"

definition note_peer_has :: "ext \<Rightarrow> u64 \<Rightarrow> string \<Rightarrow> content_hash list \<Rightarrow> unit vop" where
  "note_peer_has X now peer_id cids =
     bindop (ask (\<lambda>v. json_or have_default (d_have v))) (\<lambda>have.
       let entry = (case om_get (ph_peers have) peer_id of Some s \<Rightarrow> s | None \<Rightarrow> []);
           entry = fold (\<lambda>c s. os_insert (to_hex X c) s) cids entry
       in modify (\<lambda>v. v\<lparr>d_have := Good \<lparr>ph_peers = om_insert peer_id entry (ph_peers have), ph_updated_at = now\<rparr>\<rparr>))"

definition load_have :: "vault \<Rightarrow> peer_have" where
  "load_have v = (case d_have v of Good p \<Rightarrow> p | _ \<Rightarrow> have_default)"

definition estimated_replicas :: "ext \<Rightarrow> vault \<Rightarrow> content_hash \<Rightarrow> nat" where
  "estimated_replicas X v cid =
     (if has_chunk v cid \<or> has_tree_object v cid \<or> has_commit_object v cid then 1 else 0)
     + length (filter (\<lambda>(peer, s). to_hex X cid \<in> set s) (ph_peers (load_have v)))"

record replication_info =
  ri_min_replicas :: u8
  ri_live_chunks :: nat
  ri_pinned_chunks :: nat
  ri_missing_local :: nat
  ri_under_replicated :: nat
  ri_peers_known :: nat

definition replication_status :: "ext \<Rightarrow> vault \<Rightarrow> replication_info result" where
  "replication_status X v =
     tryr (live_chunk_hashes X v) (\<lambda>live.
     tryr (load_pins v) (\<lambda>pins.
       let min = unat (vc_min_replicas (v_config v)) in
       Ok \<lparr>ri_min_replicas = vc_min_replicas (v_config v), ri_live_chunks = length live,
           ri_pinned_chunks = length (pn_pins pins),
           ri_missing_local = length (filter (\<lambda>h. \<not> has_chunk v h) live),
           ri_under_replicated = length (filter (\<lambda>h. estimated_replicas X v h < min) live),
           ri_peers_known = length (ph_peers (load_have v))\<rparr>))"

definition under_replicated_chunks :: "ext \<Rightarrow> vault \<Rightarrow> content_hash list result" where
  "under_replicated_chunks X v =
     tryr (live_chunk_hashes X v) (\<lambda>live.
       Ok (filter (\<lambda>h. estimated_replicas X v h < unat (vc_min_replicas (v_config v))) live))"

text \<open>
  \<open>replicate_head\<close>; \<open>send\<close> is the transport's outcome for the collected blobs, and the announcement
  at the end is best effort, with no effect on the vault.
\<close>

definition replicate_head :: "ext \<Rightarrow> u64 \<Rightarrow> string \<Rightarrow> (blobs \<Rightarrow> nat result) \<Rightarrow> nat vop" where
  "replicate_head X now node send =
     bindop (ensure_local_pins X now) (\<lambda>_.
     bindop (ask (head_of X)) (\<lambda>head. case head of
       None \<Rightarrow> ret 0
     | Some h \<Rightarrow>
         bindop (ask (\<lambda>v. collect_provide_hashes X v h)) (\<lambda>items.
         bindop (note_peer_has X now node (map fst items)) (\<lambda>_.
           ask (\<lambda>v. tryr (collect_provide_hashes X v h) send)))))"

section \<open>Ranking peers\<close>

record peer_score =
  pr_peer :: string
  pr_score :: int
  pr_preferred :: bool
  pr_last_seen_secs_ago :: "u64 option"
  pr_has_head :: bool
  pr_alive :: "bool option"

definition str_contains :: "string \<Rightarrow> string \<Rightarrow> bool" where
  "str_contains s t \<longleftrightarrow> list_ex (\<lambda>n. starts_with (drop n s) t) [0..<Suc (length s)]"

definition peer_id_key :: "string \<Rightarrow> string" where
  "peer_id_key peer = str_trim peer"

definition is_preferred :: "policy \<Rightarrow> string \<Rightarrow> bool" where
  "is_preferred pol peer \<longleftrightarrow> list_ex (\<lambda>p. eq_ignore_case peer p \<or> eq_ignore_case (peer_id_key peer) p
     \<or> str_contains peer p) (pl_prefer_nodes pol)"

text \<open>\<open>x as i64\<close>, and the division of \<open>i64\<close>, which truncates.\<close>

definition as_i64 :: "u64 \<Rightarrow> int" where
  "as_i64 x = (if uint x < 2 ^ 63 then uint x else uint x - 2 ^ 64)"

definition div_i64 :: "int \<Rightarrow> int \<Rightarrow> int" where
  "div_i64 a b = (if a < 0 then - ((- a) div b) else a div b)"

definition lookup2 :: "(string, 'a) omap \<Rightarrow> string \<Rightarrow> string \<Rightarrow> 'a option" where
  "lookup2 m a b = (case om_get m a of Some x \<Rightarrow> Some x | None \<Rightarrow> om_get m b)"

definition seen_score :: "u64 option \<Rightarrow> int" where
  "seen_score ago = (case ago of Some a \<Rightarrow> 100 - min (div_i64 (as_i64 a) 36) 200 | None \<Rightarrow> - 20)"

definition alive_score :: "bool option \<Rightarrow> int" where
  "alive_score a = (case a of Some True \<Rightarrow> 200 | Some False \<Rightarrow> - 300 | None \<Rightarrow> 0)"

definition score_peer ::
  "ext \<Rightarrow> vault \<Rightarrow> policy \<Rightarrow> (string, u64) omap \<Rightarrow> (string, bool) omap \<Rightarrow> u64 \<Rightarrow> string \<Rightarrow> peer_score"
where
  "score_peer X v pol last_seen alive_map now peer =
     (let have = load_have v;
          head_hex = (case head_of X v of Ok (Some h) \<Rightarrow> to_hex X h | _ \<Rightarrow> []);
          id_part = peer_id_key peer;
          preferred = is_preferred pol peer;
          ago = map_option (sat_sub now) (lookup2 last_seen peer id_part);
          alive = lookup2 alive_map peer id_part;
          has_head = (head_hex \<noteq> [] \<and> (case lookup2 (ph_peers have) id_part peer of
                        Some s \<Rightarrow> head_hex \<in> set s | None \<Rightarrow> False))
      in \<lparr>pr_peer = peer,
          pr_score = (if preferred then 1000 else 0) + seen_score ago + alive_score alive
                     + (if has_head then 50 else 0),
          pr_preferred = preferred, pr_last_seen_secs_ago = ago, pr_has_head = has_head, pr_alive = alive\<rparr>)"

definition rank_peers ::
  "ext \<Rightarrow> vault \<Rightarrow> policy \<Rightarrow> string list \<Rightarrow> (string, u64) omap \<Rightarrow> (string, bool) omap \<Rightarrow> u64 \<Rightarrow> peer_score list"
where
  "rank_peers X v pol peers last_seen alive_map now =
     sort_key (\<lambda>p. (- pr_score p, pr_peer p)) (map (score_peer X v pol last_seen alive_map now) peers)"

definition ordered_peers_for_sync ::
  "ext \<Rightarrow> vault \<Rightarrow> policy \<Rightarrow> string list \<Rightarrow> (string, u64) omap \<Rightarrow> (string, bool) omap \<Rightarrow> u64 \<Rightarrow> string list"
where
  "ordered_peers_for_sync X v pol peers last_seen alive_map now =
     map pr_peer (rank_peers X v pol peers last_seen alive_map now)"

section \<open>Properties\<close>

lemma ensure_local_pins_side: "steps side (ensure_local_pins X now)"
  unfolding ensure_local_pins_def Let_def save_pins_def
  by (intro sd.steps_intros steps_modify) (simp add: side_def core_def)

lemma note_peer_has_side: "steps side (note_peer_has X now p cids)"
  unfolding note_peer_has_def Let_def by (intro sd.steps_intros steps_modify) (simp add: side_def core_def)

lemma fold_os_hex:
  "set (fold (\<lambda>h ps. os_insert (to_hex X h) ps) hs ps) = to_hex X ` set hs \<union> set ps"
  by (induction hs arbitrary: ps) auto

lemma fold_os_hex_wf: "os_wf ps \<Longrightarrow> os_wf (fold (\<lambda>h ps. os_insert (to_hex X h) ps) hs ps)"
  by (induction hs arbitrary: ps) auto

text \<open>After pinning, every live chunk is pinned, and no pin was dropped.\<close>

lemma ensure_local_pins_Ok:
  assumes "ensure_local_pins X now v = (Ok n, w)"
  shows "\<exists>live pins pins'. live_chunk_hashes X v = Ok live \<and> load_pins v = Ok pins \<and> load_pins w = Ok pins'
    \<and> set (pn_pins pins') = to_hex X ` set live \<union> set (pn_pins pins)
    \<and> n = length (pn_pins pins') - length (pn_pins pins)"
proof -
  obtain live pins where r: "live_chunk_hashes X v = Ok live" "load_pins v = Ok pins"
    "(let pins' = fold (\<lambda>h ps. os_insert (to_hex X h) ps) live (pn_pins pins)
      in bindop (save_pins \<lparr>pn_pins = pins', pn_updated_at = now\<rparr>)
           (\<lambda>_. ret (length pins' - length (pn_pins pins)))) v = (Ok n, w)"
    using assms unfolding ensure_local_pins_def Let_def by (elim bindop_OkE) (auto simp: ask_Ok_iff bindop_Ok_iff)
  let ?p = "\<lparr>pn_pins = fold (\<lambda>h ps. os_insert (to_hex X h) ps) live (pn_pins pins), pn_updated_at = now\<rparr>"
  have "w = v\<lparr>d_pins := Good ?p\<rparr>" "n = length (pn_pins ?p) - length (pn_pins pins)"
    using r(3) by (simp_all add: Let_def bindop_def save_pins_def modify_def ret_def)
  then show ?thesis
    using r(1,2) by (intro exI [of _ live] exI [of _ pins] exI [of _ ?p]) (simp add: load_pins_def fold_os_hex)
qed

text \<open>What a peer announced is remembered, and what others announced is kept.\<close>

lemma note_peer_has_Ok:
  assumes "note_peer_has X now p cids v = (Ok (), w)"
  shows "\<exists>s. om_get (ph_peers (load_have w)) p = Some s \<and> to_hex X ` set cids \<subseteq> set s"
    and "q \<noteq> p \<Longrightarrow> om_get (ph_peers (load_have w)) q = om_get (ph_peers (load_have v)) q"
proof -
  obtain hv where h: "json_or have_default (d_have v) = Ok hv"
    "w = v\<lparr>d_have := Good \<lparr>ph_peers = om_insert p (fold (\<lambda>c s. os_insert (to_hex X c) s) cids
        (case om_get (ph_peers hv) p of Some s \<Rightarrow> s | None \<Rightarrow> [])) (ph_peers hv), ph_updated_at = now\<rparr>\<rparr>"
    using assms by (cases "json_or have_default (d_have v)")
      (simp_all add: note_peer_has_def bindop_def ask_def modify_def Let_def)
  have "load_have v = hv" using h(1) by (cases "d_have v") (simp_all add: load_have_def)
  with h(2) show "\<exists>s. om_get (ph_peers (load_have w)) p = Some s \<and> to_hex X ` set cids \<subseteq> set s"
    and "q \<noteq> p \<Longrightarrow> om_get (ph_peers (load_have w)) q = om_get (ph_peers (load_have v)) q"
    by (simp_all add: load_have_def om_get_insert fold_os_hex)
qed

lemma estimated_replicas_bound:
  "estimated_replicas X v cid \<le> 1 + length (ph_peers (load_have v))"
  unfolding estimated_replicas_def by (simp add: le_SucI)

lemma rank_peers_mset:
  "mset (map pr_peer (rank_peers X v pol peers ls al now)) = mset peers"
proof -
  have "map pr_peer (map (score_peer X v pol ls al now) peers) = peers"
    by (induction peers) (simp_all add: score_peer_def Let_def)
  then show ?thesis unfolding rank_peers_def by (metis mset_map mset_sort)
qed

lemma rank_peers_sorted: "sorted (map (\<lambda>p. (- pr_score p, pr_peer p)) (rank_peers X v pol peers ls al now))"
  by (simp add: rank_peers_def)

lemma seen_score_bounds:
  assumes "pred_option (\<lambda>a. uint a < 2 ^ 63) ago"
  shows "- 100 \<le> seen_score ago \<and> seen_score ago \<le> 100"
proof (cases ago)
  case (Some a)
  have "uint a < 2 ^ 63" using assms Some by simp
  then have "div_i64 (as_i64 a) 36 = uint a div 36" by (simp add: as_i64_def div_i64_def)
  moreover have "0 \<le> uint a div 36" by (simp add: pos_imp_zdiv_nonneg_iff)
  ultimately show ?thesis using Some by (simp add: seen_score_def)
qed (simp add: seen_score_def)

lemma alive_score_bounds: "- 300 \<le> alive_score a" "alive_score a \<le> 200"
  by (auto simp: alive_score_def split: option.split bool.split)

text \<open>A preferred peer always comes before one that is not, whatever else is known of them.\<close>

lemma preferred_outscores:
  assumes "uint now < 2 ^ 63" "is_preferred pol p" "\<not> is_preferred pol q"
  shows "pr_score (score_peer X v pol ls al now q) < pr_score (score_peer X v pol ls al now p)"
proof -
  have small: "uint (sat_sub now t) < 2 ^ 63" for t
  proof -
    have "sat_sub now t \<le> now" by (simp add: word_le_nat_alt unat_sat_sub)
    then have "uint (sat_sub now t) \<le> uint now" by (simp only: word_le_def)
    then show ?thesis using assms(1) by (rule order_le_less_trans)
  qed
  have b: "- 100 \<le> seen_score (map_option (sat_sub now) o1) \<and> seen_score (map_option (sat_sub now) o1) \<le> 100" for o1
    by (rule seen_score_bounds) (auto simp: option.pred_set small [simplified])
  note bp = b [of "lookup2 ls p (peer_id_key p)"] and bq = b [of "lookup2 ls q (peer_id_key q)"]
  note ap = alive_score_bounds [of "lookup2 al p (peer_id_key p)"] and aq = alive_score_bounds [of "lookup2 al q (peer_id_key q)"]
  show ?thesis using assms(2,3) bp bq ap aq by (simp add: score_peer_def Let_def)
qed

lemma rank_peers_preferred_first:
  assumes "uint now < 2 ^ 63" "i < j" "j < length (rank_peers X v pol peers ls al now)"
    and "pr_preferred (rank_peers X v pol peers ls al now ! j)"
  shows "pr_preferred (rank_peers X v pol peers ls al now ! i)"
proof (rule ccontr)
  let ?r = "rank_peers X v pol peers ls al now"
  assume np: "\<not> pr_preferred (?r ! i)"
  have mem: "\<exists>p. ?r ! k = score_peer X v pol ls al now p" if "k < length ?r" for k
    using nth_mem [OF that] by (auto simp: rank_peers_def)
  obtain p q where pq: "?r ! j = score_peer X v pol ls al now p" "?r ! i = score_peer X v pol ls al now q"
    using mem assms(2,3) by (meson order_less_trans)
  have pref: "pr_preferred (score_peer X v pol ls al now p) \<longleftrightarrow> is_preferred pol p" for p
    by (simp add: score_peer_def Let_def)
  have "pr_score (?r ! i) < pr_score (?r ! j)"
    using preferred_outscores [OF assms(1)] assms(4) np pq pref by metis
  moreover have "(- pr_score (?r ! i), pr_peer (?r ! i)) \<le> (- pr_score (?r ! j), pr_peer (?r ! j))"
    using sorted_nth_mono [OF rank_peers_sorted, of i j X v pol peers ls al now] assms(2,3) by simp
  ultimately show False by (auto simp: less_eq_prod_def)
qed

end
