(* ===== verification/Network.thy ===== *)
theory Network
  imports Replication
begin

text \<open>
  The node (\<open>src/src/network.rs\<close>): its files under the home directory (identity and peers, the
  announcement numbers it sent, the last number received from each node of each vault, the
  probe history), the acceptance of announcements, what it provides and what it fetches. The
  transport is a parameter: how a peer string parses, what a peer answers, whether the blob
  store and the gossip topic accept.
\<close>

section \<open>State\<close>

record node_state =
  ns_secret_key_hex :: string
  ns_peers :: "string oset"
  ns_announce_seq :: "(string, u64) omap"

record peer_health =
  hs_last_seen :: "(string, u64) omap"
  hs_alive :: "(string, bool) omap"
  hs_rtt_ms :: "(string, u64) omap"
  hs_updated_at :: u64

record network =
  n_node :: "node_state json_file" \<comment> \<open>\<open>node.json\<close>\<close>
  n_seqs :: "(string \<times> string, string) omap" \<comment> \<open>the files \<open>seq/<vault>/<node>.seq\<close>\<close>
  n_health :: "peer_health json_file" \<comment> \<open>\<open>peer_health.json\<close>\<close>
  n_peers :: "string oset"
  n_secret :: bytes
  n_provided :: "bytes list" \<comment> \<open>what was handed to the blob store, in order\<close>

type_synonym 'a nop = "(network, soal_error, 'a) op"

datatype connect_result = Connected u64 | Refused string | TimedOut

text \<open>\<open>'addr\<close> is \<open>EndpointAddr\<close>.\<close>

record 'addr transport =
  t_ticket :: "string \<Rightarrow> 'addr option"
  t_id :: "string \<Rightarrow> 'addr option"
  t_id_error :: "string \<Rightarrow> string"
  t_get_blob :: "'addr \<Rightarrow> content_hash \<Rightarrow> bytes result" \<comment> \<open>connect and \<open>get_blob\<close>\<close>
  t_connect :: "'addr \<Rightarrow> connect_result"
  t_add_bytes :: "bytes \<Rightarrow> unit result"
  t_subscribe :: "content_hash \<Rightarrow> 'addr list \<Rightarrow> unit result" \<comment> \<open>the topic and the nodes to bootstrap from\<close>
  t_broadcast :: "bytes \<Rightarrow> unit result"

section \<open>Node state on disk\<close>

text \<open>\<open>fresh\<close> is the key that is generated when there is no state yet.\<close>

definition load_or_create :: "ext \<Rightarrow> bytes \<Rightarrow> node_state nop" where
  "load_or_create X fresh = (\<lambda>n. case n_node n of
     Good st \<Rightarrow> if ns_secret_key_hex st = [] then (Err (Other ''node.json missing secret key''), n) else (Ok st, n)
   | BadJson \<Rightarrow> (Err Serde, n)
   | NoFile \<Rightarrow>
       let st = \<lparr>ns_secret_key_hex = x_hex_enc X fresh, ns_peers = [], ns_announce_seq = []\<rparr>
       in (Ok st, n\<lparr>n_node := Good st\<rparr>))"

definition node_save :: "node_state \<Rightarrow> unit nop" where
  "node_save st = modify (\<lambda>n. n\<lparr>n_node := Good st\<rparr>)"

definition node_secret_key :: "ext \<Rightarrow> node_state \<Rightarrow> bytes result" where
  "node_secret_key X st =
     tryr (ok_or (Other ''invalid secret key hex'') (x_hex_dec X (ns_secret_key_hex st))) (\<lambda>b.
       if length b \<noteq> 32 then Err (Other ''secret key must be 32 bytes'') else Ok b)"

text \<open>\<open>str::parse::<u64>\<close>: an optional plus sign, at least one digit, no overflow.\<close>

definition dec_value :: "string \<Rightarrow> nat" where
  "dec_value s = fold (\<lambda>c n. 10 * n + (of_char c - 48)) s 0"

definition parse_u64 :: "string \<Rightarrow> u64 option" where
  "parse_u64 s =
     (let d = (if s \<noteq> [] \<and> hd s = CHR ''+'' then tl s else s)
      in if d = [] \<or> \<not> list_all is_digit d \<or> dec_value d \<ge> 2 ^ 64 then None
         else Some (word_of_nat (dec_value d)))"

definition load_last_recv_seq :: "network \<Rightarrow> string \<Rightarrow> string \<Rightarrow> u64" where
  "load_last_recv_seq n vault_hex node_hex =
     (case om_get (n_seqs n) (vault_hex, node_hex) of
        None \<Rightarrow> 0
      | Some s \<Rightarrow> (case parse_u64 (str_trim s) of Some v \<Rightarrow> v | None \<Rightarrow> 0))"

definition store_last_recv_seq :: "string \<Rightarrow> string \<Rightarrow> u64 \<Rightarrow> unit nop" where
  "store_last_recv_seq vault_hex node_hex sq =
     modify (\<lambda>n. n\<lparr>n_seqs := om_insert (vault_hex, node_hex) (dec_string (unat sq)) (n_seqs n)\<rparr>)"

definition health_default :: peer_health where
  "health_default = \<lparr>hs_last_seen = [], hs_alive = [], hs_rtt_ms = [], hs_updated_at = 0\<rparr>"

definition health_load :: "network \<Rightarrow> peer_health" where
  "health_load n = (case n_health n of Good h \<Rightarrow> h | _ \<Rightarrow> health_default)"

definition health_save :: "peer_health \<Rightarrow> unit nop" where
  "health_save h = modify (\<lambda>n. n\<lparr>n_health := Good h\<rparr>)"

text \<open>\<open>Network::open\<close>; \<open>up\<close> is the outcome of binding the endpoint and loading the blob store.\<close>

definition network_open ::
  "ext \<Rightarrow> bytes \<Rightarrow> unit result \<Rightarrow> unit nop"
where
  "network_open X fresh up =
     bindop (load_or_create X fresh) (\<lambda>st.
     bindop (ask (\<lambda>_. node_secret_key X st)) (\<lambda>sk.
     bindop (ask (\<lambda>_. up)) (\<lambda>_.
       modify (\<lambda>n. n\<lparr>n_peers := ns_peers st, n_secret := sk\<rparr>))))"

section \<open>Peers\<close>

definition persist_peers :: "ext \<Rightarrow> bytes \<Rightarrow> unit nop" where
  "persist_peers X fresh =
     bindop (load_or_create X fresh) (\<lambda>st n. node_save (st\<lparr>ns_peers := n_peers n\<rparr>) n)"

definition parse_peer_addr :: "'addr transport \<Rightarrow> string \<Rightarrow> 'addr result" where
  "parse_peer_addr T peer0 =
     (let peer = str_trim peer0 in
      if peer = [] then Err (Other ''empty peer id'')
      else case t_ticket T peer of
             Some a \<Rightarrow> Ok a
           | None \<Rightarrow> ok_or (Other (''invalid peer id or ticket: '' @ t_id_error T peer)) (t_id T peer))"

definition add_peer :: "ext \<Rightarrow> 'addr transport \<Rightarrow> bytes \<Rightarrow> string \<Rightarrow> unit nop" where
  "add_peer X T fresh peer0 =
     (let peer = str_trim peer0 in
      bindop (ask (\<lambda>_. parse_peer_addr T peer)) (\<lambda>_.
      bindop (modify (\<lambda>n. n\<lparr>n_peers := os_insert peer (n_peers n)\<rparr>)) (\<lambda>_. persist_peers X fresh)))"

definition remove_peer :: "ext \<Rightarrow> bytes \<Rightarrow> string \<Rightarrow> bool nop" where
  "remove_peer X fresh peer = (\<lambda>n.
     let removed = peer \<in> set (n_peers n) in
     bindop (modify (\<lambda>n. n\<lparr>n_peers := filter (\<lambda>p. p \<noteq> peer) (n_peers n)\<rparr>)) (\<lambda>_.
       if removed then bindop (persist_peers X fresh) (\<lambda>_. ret True) else ret False) n)"

definition peer_addrs :: "'addr transport \<Rightarrow> network \<Rightarrow> 'addr list" where
  "peer_addrs T n = concat (map (\<lambda>p. case parse_peer_addr T p of Ok a \<Rightarrow> [a] | _ \<Rightarrow> []) (n_peers n))"

text \<open>The peers given as bare endpoint ids, which a gossip topic is joined through.\<close>

definition bootstrap :: "'addr transport \<Rightarrow> network \<Rightarrow> 'addr list" where
  "bootstrap T n = List.map_filter (t_id T) (n_peers n)"

definition subscribe :: "'addr transport \<Rightarrow> content_hash \<Rightarrow> unit nop" where
  "subscribe T topic = ask (\<lambda>n. t_subscribe T topic (bootstrap T n))"

section \<open>Providing\<close>

definition provide :: "ext \<Rightarrow> 'addr transport \<Rightarrow> content_hash \<Rightarrow> bytes \<Rightarrow> unit nop" where
  "provide X T h data =
     (if length data > MAX_BLOB_BYTES then
        fail (Verify (''blob exceeds MAX_BLOB_BYTES ('' @ dec_string MAX_BLOB_BYTES @ '')''))
      else
        let actual = hash_of X data in
        if actual \<noteq> h then fail (hash_mismatch X h actual)
        else bindop (ask (\<lambda>_. t_add_bytes T data)) (\<lambda>_. modify (\<lambda>n. n\<lparr>n_provided := n_provided n @ [data]\<rparr>)))"

definition provide_many :: "ext \<Rightarrow> 'addr transport \<Rightarrow> blobs \<Rightarrow> nat nop" where
  "provide_many X T items = for_op (\<lambda>(h, data) k. bindop (provide X T h data) (\<lambda>_. ret (k + 1))) items 0"

definition provide_from_vault :: "ext \<Rightarrow> 'addr transport \<Rightarrow> vault \<Rightarrow> content_hash \<Rightarrow> nat nop" where
  "provide_from_vault X T v commit_hash =
     bindop (ask (\<lambda>_. collect_provide_hashes X v commit_hash)) (provide_many X T)"

definition provide_resolved :: "ext \<Rightarrow> 'addr transport \<Rightarrow> vault \<Rightarrow> content_hash \<Rightarrow> unit nop" where
  "provide_resolved X T v h = bindop (ask (\<lambda>_. resolve_blob X v h)) (provide X T h)"

section \<open>Announcing\<close>

text \<open>The addition wraps, as in a release build: after the last 64-bit number comes 0.\<close>

definition next_announce_seq :: "ext \<Rightarrow> bytes \<Rightarrow> string \<Rightarrow> u64 nop" where
  "next_announce_seq X fresh vault_hex =
     bindop (load_or_create X fresh) (\<lambda>st.
       let next_seq = (case om_get (ns_announce_seq st) vault_hex of Some s \<Rightarrow> s | None \<Rightarrow> 0) + 1
       in bindop (node_save (st\<lparr>ns_announce_seq := om_insert vault_hex next_seq (ns_announce_seq st)\<rparr>))
            (\<lambda>_. ret next_seq))"

definition broadcast_announcement :: "ext \<Rightarrow> 'addr transport \<Rightarrow> head_ann \<Rightarrow> unit nop" where
  "broadcast_announcement X T ann =
     bindop (subscribe T (vault_topic_hash X (ha_vault_id ann))) (\<lambda>_.
     bindop (ask (\<lambda>_. map_err (\<lambda>e. Other (error_text e)) (encode_head_announcement ann))) (\<lambda>msg.
       ask (\<lambda>_. t_broadcast T msg)))"

definition announce_head_signed ::
  "ext \<Rightarrow> 'addr transport \<Rightarrow> bytes \<Rightarrow> u64 \<Rightarrow> vault \<Rightarrow> content_hash \<Rightarrow> head_ann nop"
where
  "announce_head_signed X T fresh now v head =
     bindop (provide_from_vault X T v head) (\<lambda>_.
     bindop (ask (\<lambda>_. vault_id_bytes X v)) (\<lambda>vault_id.
     bindop (next_announce_seq X fresh (x_hex_enc X vault_id)) (\<lambda>sq.
     bindop (ask (\<lambda>n. sign_head_announcement X now (n_secret n) vault_id (v_name v) head sq (vc_config_seq (v_config v))))
       (\<lambda>ann. bindop (broadcast_announcement X T ann) (\<lambda>_. ret ann)))))"

text \<open>The legacy announcement by name: the topic and a stand-in vault id come from the name's hash.\<close>

definition announce_head ::
  "ext \<Rightarrow> 'addr transport \<Rightarrow> bytes \<Rightarrow> u64 \<Rightarrow> string \<Rightarrow> string \<Rightarrow> unit nop"
where
  "announce_head X T fresh now vault_name head =
     bindop (subscribe T (hash_of X (as_bytes vault_name))) (\<lambda>_.
       let head_hash = (case from_hex X head of Ok h \<Rightarrow> h | _ \<Rightarrow> zero_hash);
           vault_id = take VAULT_ID_LEN (x_blake3 X (as_bytes vault_name))
       in bindop (next_announce_seq X fresh (x_hex_enc X vault_id)) (\<lambda>sq.
          bindop (ask (\<lambda>n. sign_head_announcement X now (n_secret n) vault_id vault_name head_hash sq 1)) (\<lambda>ann.
          bindop (ask (\<lambda>_. encode_head_announcement ann)) (\<lambda>msg.
            ask (\<lambda>_. t_broadcast T msg)))))"

section \<open>Receiving announcements\<close>

definition check_vault :: "ext \<Rightarrow> head_ann \<Rightarrow> vault option \<Rightarrow> unit result" where
  "check_vault X ann vault = (case vault of
     None \<Rightarrow> Ok ()
   | Some v \<Rightarrow> tryr (vault_id_bytes X v) (\<lambda>local_id.
       if local_id \<noteq> ha_vault_id ann then Err (Verify ''vault_id mismatch'')
       else if \<not> is_member v (node_id_hex X ann) then Err (Verify ''announcer not a vault member'')
       else Ok ()))"

definition validate_announcement :: "ext \<Rightarrow> u64 \<Rightarrow> head_ann \<Rightarrow> vault option \<Rightarrow> unit nop" where
  "validate_announcement X now ann vault =
     bindop (ask (\<lambda>_. verify_head_announcement X ann)) (\<lambda>_.
     bindop (ask (\<lambda>_. check_head_skew ann now)) (\<lambda>_.
     bindop (ask (\<lambda>_. check_vault X ann vault)) (\<lambda>_ n.
       let vault_hex = vault_id_hex X ann; node_hex = node_id_hex X ann;
           last_seq = load_last_recv_seq n vault_hex node_hex
       in if ha_seq ann \<le> last_seq then
            fail (Verify (''replay: seq '' @ dec_string (unat (ha_seq ann)) @ '' <= last ''
              @ dec_string (unat last_seq))) n
          else store_last_recv_seq vault_hex node_hex (ha_seq ann) n)))"

text \<open>
  \<open>listen_for_heads_vault\<close> on the contents received before its deadline, each with the clock; a
  content that does not decode or is rejected is skipped.
\<close>

definition hear :: "ext \<Rightarrow> vault \<Rightarrow> u64 \<times> bytes \<Rightarrow> head_ann list \<Rightarrow> head_ann list nop" where
  "hear X v = (\<lambda>(now, content) received.
     case decode_head_announcement content of
       Ok ann \<Rightarrow> bindop (attempt (validate_announcement X now ann (Some v))) (\<lambda>r.
         ret (case r of Ok _ \<Rightarrow> received @ [ann] | _ \<Rightarrow> received))
     | Err _ \<Rightarrow> ret received
     | Panic \<Rightarrow> (\<lambda>n. (Panic, n)))"

definition listen_for_heads_vault ::
  "ext \<Rightarrow> 'addr transport \<Rightarrow> vault \<Rightarrow> (u64 \<times> bytes) list \<Rightarrow> head_ann list nop"
where
  "listen_for_heads_vault X T v events =
     bindop (ask (\<lambda>_. vault_id_bytes X v)) (\<lambda>vault_id.
     bindop (subscribe T (vault_topic_hash X vault_id)) (\<lambda>_.
       for_op (hear X v) events []))"

text \<open>The legacy listener checks the signature only.\<close>

definition listen_for_heads :: "ext \<Rightarrow> 'addr transport \<Rightarrow> string \<Rightarrow> bytes list \<Rightarrow> head_ann list nop" where
  "listen_for_heads X T name events =
     bindop (subscribe T (hash_of X (as_bytes name))) (\<lambda>_.
       ask (\<lambda>_. for_res (\<lambda>content received.
         case decode_head_announcement content of
           Ok ann \<Rightarrow> (case verify_head_announcement X ann of
                       Ok _ \<Rightarrow> Ok (received @ [ann]) | Err _ \<Rightarrow> Ok received | Panic \<Rightarrow> Panic)
         | Err _ \<Rightarrow> Ok received
         | Panic \<Rightarrow> Panic) events []))"

section \<open>Fetching\<close>

definition get_chunk_from_peer :: "ext \<Rightarrow> 'addr transport \<Rightarrow> string \<Rightarrow> content_hash \<Rightarrow> bytes result" where
  "get_chunk_from_peer X T peer h =
     tryr (parse_peer_addr T peer) (\<lambda>addr.
     tryr (t_get_blob T addr h) (\<lambda>data.
       if length data > MAX_BLOB_BYTES then Err (Verify ''fetched blob exceeds MAX_BLOB_BYTES'')
       else let actual = hash_of X data in
            if actual \<noteq> h then Err (hash_mismatch X h actual) else Ok data))"

fun failover :: "ext \<Rightarrow> 'addr transport \<Rightarrow> content_hash \<Rightarrow> soal_error \<Rightarrow> string list \<Rightarrow> (string \<times> bytes) result" where
  "failover X T h last_err [] = Err (Other (''unavailable '' @ to_hex X h @ '': '' @ error_text last_err))"
| "failover X T h last_err (peer # peers) =
     (case get_chunk_from_peer X T peer h of
        Ok data \<Rightarrow> Ok (peer, data)
      | Err e \<Rightarrow> failover X T h e peers
      | Panic \<Rightarrow> Panic)"

definition get_blob_with_failover ::
  "ext \<Rightarrow> 'addr transport \<Rightarrow> string list \<Rightarrow> content_hash \<Rightarrow> (string \<times> bytes) result"
where
  "get_blob_with_failover X T peers h = failover X T h (Other ''no peers'') peers"

section \<open>Discovery and probes\<close>

text \<open>\<open>discovery_listen\<close> on the contents received before its deadline.\<close>

definition discover :: "'addr transport \<Rightarrow> string \<Rightarrow> string \<Rightarrow> bytes list \<Rightarrow> string oset" where
  "discover T my_ticket my_id contents =
     fold (\<lambda>content found.
       case from_utf8 content of
         None \<Rightarrow> found
       | Some text \<Rightarrow>
           let prefix_text = ''soal/discover/v1'' @ [CHR 0x0A] in
           if \<not> starts_with text prefix_text then found
           else let ticket = str_trim (drop (length prefix_text) text) in
                if ticket \<noteq> my_ticket \<and> \<not> str_contains ticket my_id \<and> is_ok (parse_peer_addr T ticket)
                then os_insert ticket found else found) contents []"

definition discovery_topic_id :: "ext \<Rightarrow> content_hash" where
  "discovery_topic_id X = hash_of X (as_bytes ''soal/v1/discovery'')"

definition discovery_listen ::
  "ext \<Rightarrow> 'addr transport \<Rightarrow> string \<Rightarrow> string \<Rightarrow> bytes list \<Rightarrow> string oset nop"
where
  "discovery_listen X T my_ticket my_id contents =
     bindop (subscribe T (discovery_topic_id X)) (\<lambda>_. ret (discover T my_ticket my_id contents))"

text \<open>The beacon is sent \<open>rounds\<close> times until its deadline.\<close>

definition beacon_payload :: "string \<Rightarrow> bytes" where
  "beacon_payload ticket = as_bytes (''soal/discover/v1'' @ [CHR 0x0A] @ ticket)"

definition discovery_beacon :: "ext \<Rightarrow> 'addr transport \<Rightarrow> string \<Rightarrow> nat \<Rightarrow> unit nop" where
  "discovery_beacon X T my_ticket rounds =
     bindop (subscribe T (discovery_topic_id X)) (\<lambda>_.
       for_op (\<lambda>_ _. ask (\<lambda>_. t_broadcast T (beacon_payload my_ticket))) [0..<rounds] ())"

record probe_result =
  pb_peer :: string
  pb_alive :: bool
  pb_rtt_ms :: "u64 option"
  pb_error :: "string option"

definition probe_peer :: "'addr transport \<Rightarrow> u64 \<Rightarrow> string \<Rightarrow> probe_result nop" where
  "probe_peer T now peer =
     bindop (ask (\<lambda>_. parse_peer_addr T peer)) (\<lambda>addr n.
       let h = health_load n in
       case t_connect T addr of
         Connected rtt \<Rightarrow>
           bindop (health_save (h\<lparr>hs_last_seen := om_insert peer now (hs_last_seen h),
               hs_alive := om_insert peer True (hs_alive h), hs_rtt_ms := om_insert peer rtt (hs_rtt_ms h),
               hs_updated_at := now\<rparr>))
             (\<lambda>_. ret \<lparr>pb_peer = peer, pb_alive = True, pb_rtt_ms = Some rtt, pb_error = None\<rparr>) n
       | Refused e \<Rightarrow>
           bindop (health_save (h\<lparr>hs_alive := om_insert peer False (hs_alive h), hs_updated_at := now\<rparr>))
             (\<lambda>_. ret \<lparr>pb_peer = peer, pb_alive = False, pb_rtt_ms = None, pb_error = Some e\<rparr>) n
       | TimedOut \<Rightarrow>
           bindop (health_save (h\<lparr>hs_alive := om_insert peer False (hs_alive h), hs_updated_at := now\<rparr>))
             (\<lambda>_. ret \<lparr>pb_peer = peer, pb_alive = False, pb_rtt_ms = None, pb_error = Some ''probe timeout''\<rparr>) n)"

definition probe_all_peers :: "'addr transport \<Rightarrow> u64 \<Rightarrow> probe_result list nop" where
  "probe_all_peers T now = (\<lambda>n.
     for_op (\<lambda>peer out. bindop (probe_peer T now peer) (\<lambda>r. ret (out @ [r]))) (n_peers n) [] n)"

section \<open>Numbers on disk\<close>

lemma dec_string_digits: "list_all is_digit (dec_string n) \<and> dec_string n \<noteq> [] \<and> dec_value (dec_string n) = n"
proof (induction n rule: dec_string.induct)
  case (1 n)
  have d: "is_digit (char_of (48 + k)) \<and> of_char (char_of (48 + k) :: char) = 48 + k" if "k < 10" for k :: nat
    using that by (simp add: is_digit_def Let_def)
  show ?case
  proof (cases "n < 10")
    case True
    then show ?thesis using d [of n] by (simp add: dec_string.simps [of n] dec_value_def)
  next
    case False
    then have "10 * (n div 10) + n mod 10 = n" by simp
    then show ?thesis using 1 False d [of "n mod 10"] by (simp add: dec_string.simps [of n] dec_value_def)
  qed
qed

lemma unat_lt2p_64: "unat (s :: u64) < 2 ^ 64"
  using unsigned_less [of s] by simp

lemma digit_graphic: "is_digit c \<Longrightarrow> graphic c"
  by (rule hexdigit_graphic) (auto simp: is_digit_def is_hexdigit_def Let_def)

lemma parse_u64_dec_string: "parse_u64 (str_trim (dec_string (unat s))) = Some s"
proof -
  let ?d = "dec_string (unat s)"
  note d = dec_string_digits [of "unat s"]
  have "list_all graphic ?d" using d by (auto simp: list_all_iff intro: digit_graphic)
  then have t: "str_trim ?d = ?d" by (rule trim_all_graphic)
  have "hd ?d \<noteq> CHR ''+''"
  proof
    assume "hd ?d = CHR ''+''"
    moreover have "is_digit (hd ?d)" using d by (cases ?d) auto
    ultimately show False by (simp add: is_digit_def)
  qed
  moreover have "unat s < 2 ^ 64" using unat_lt2p_64 [of s] by simp
  ultimately show ?thesis using d by (simp add: parse_u64_def t Let_def)
qed

lemma load_stored_seq:
  "store_last_recv_seq vx nx s n = (Ok (), n') \<Longrightarrow>
    load_last_recv_seq n' vy ny = (if vy = vx \<and> ny = nx then s else load_last_recv_seq n vy ny)"
  by (auto simp: store_last_recv_seq_def modify_def load_last_recv_seq_def om_get_insert parse_u64_dec_string)

section \<open>No announcement is accepted twice\<close>

text \<open>The number last accepted from the node that signed \<open>ann\<close>, for its vault.\<close>

definition last_accepted :: "ext \<Rightarrow> network \<Rightarrow> head_ann \<Rightarrow> u64" where
  "last_accepted X n ann = load_last_recv_seq n (vault_id_hex X ann) (node_id_hex X ann)"

definition same_source :: "ext \<Rightarrow> head_ann \<Rightarrow> head_ann \<Rightarrow> bool" where
  "same_source X a b \<longleftrightarrow> vault_id_hex X a = vault_id_hex X b \<and> node_id_hex X a = node_id_hex X b"

definition acceptable :: "ext \<Rightarrow> u64 \<Rightarrow> head_ann \<Rightarrow> vault option \<Rightarrow> bool" where
  "acceptable X now ann vault \<longleftrightarrow>
     verify_head_announcement X ann = Ok () \<and> check_head_skew ann now = Ok ()
   \<and> (\<forall>v. vault = Some v \<longrightarrow> vault_id_bytes X v = Ok (ha_vault_id ann) \<and> is_member v (node_id_hex X ann))"

lemma check_vault_Ok:
  "check_vault X ann vault = Ok () \<longleftrightarrow>
    (\<forall>v. vault = Some v \<longrightarrow> vault_id_bytes X v = Ok (ha_vault_id ann) \<and> is_member v (node_id_hex X ann))"
  by (cases vault) (auto simp: check_vault_def tryr_eq_Ok)

lemma validate_Ok_iff:
  "validate_announcement X now ann vault n = (Ok (), n') \<longleftrightarrow>
    acceptable X now ann vault \<and> last_accepted X n ann < ha_seq ann
    \<and> store_last_recv_seq (vault_id_hex X ann) (node_id_hex X ann) (ha_seq ann) n = (Ok (), n')"
  unfolding validate_announcement_def bindop_Ok_iff ask_Ok_iff acceptable_def last_accepted_def Let_def
  by (auto simp: fail_def not_le check_vault_Ok)

lemma store_seq_Ok: "fst (store_last_recv_seq vx nx s n) = Ok ()"
  by (simp add: store_last_recv_seq_def modify_def)

lemma validate_rejects:
  assumes "validate_announcement X now ann vault n = (r, n')" "r \<noteq> Ok ()"
  shows "n' = n"
proof -
  obtain r1 r2 r3 where rs: "verify_head_announcement X ann = r1" "check_head_skew ann now = r2"
    "check_vault X ann vault = r3" by blast
  show ?thesis
    using assms
    unfolding validate_announcement_def bindop_def ask_def rs Let_def fail_def store_last_recv_seq_def modify_def
    by (cases r1; cases r2; cases r3) (auto split: if_splits)
qed

lemma validate_accepts:
  assumes "validate_announcement X now a vault n = (Ok (), n')"
  shows "last_accepted X n a < ha_seq a"
    and "last_accepted X n' b = (if same_source X a b then ha_seq a else last_accepted X n b)"
  using assms load_stored_seq unfolding validate_Ok_iff
  by (auto simp: last_accepted_def same_source_def)

text \<open>
  What a listener returns: every announcement verified, in the window and from a member, and the
  numbers of one node strictly increasing, above all that was accepted before.
\<close>

definition fresh_run :: "ext \<Rightarrow> network \<Rightarrow> head_ann list \<Rightarrow> network \<Rightarrow> bool" where
  "fresh_run X n as n' \<longleftrightarrow>
     (\<forall>a\<in>set as. last_accepted X n a < ha_seq a \<and> ha_seq a \<le> last_accepted X n' a)
   \<and> sorted_wrt (\<lambda>a b. same_source X a b \<longrightarrow> ha_seq a < ha_seq b) as
   \<and> (\<forall>a. last_accepted X n a \<le> last_accepted X n' a)"

lemma same_source_last: "same_source X a b \<Longrightarrow> last_accepted X n a = last_accepted X n b"
  by (simp add: same_source_def last_accepted_def)

lemma fresh_run_snoc:
  assumes run: "fresh_run X n as n'" and "validate_announcement X now a vault n' = (Ok (), n'')"
  shows "fresh_run X n (as @ [a]) n''"
proof -
  note acc = validate_accepts [OF assms(2)]
  have grow: "last_accepted X n' b \<le> last_accepted X n'' b" for b
    using acc(1) same_source_last [of X a b n'] by (cases "same_source X a b") (simp_all add: acc(2) order_less_imp_le)
  have old: "ha_seq b < ha_seq a" if "b \<in> set as" "same_source X b a" for b
  proof -
    have "ha_seq b \<le> last_accepted X n' b" using run that(1) by (simp add: fresh_run_def)
    also have "\<dots> = last_accepted X n' a" by (rule same_source_last [OF that(2)])
    finally show ?thesis using acc(1) by (rule order_le_less_trans)
  qed
  have "last_accepted X n a < ha_seq a" "ha_seq a \<le> last_accepted X n'' a"
    using run acc by (auto simp: fresh_run_def same_source_def intro: order_le_less_trans)
  then show ?thesis
    using run grow old by (auto simp: fresh_run_def sorted_wrt_append intro: order_trans)
qed

lemma hear_step:
  assumes "hear X v e as n' = (Ok bs, n'')" "fresh_run X n as n'" "list_all (\<lambda>a. \<exists>now. acceptable X now a (Some v)) as"
  shows "fresh_run X n bs n'' \<and> list_all (\<lambda>a. \<exists>now. acceptable X now a (Some v)) bs"
proof -
  obtain now content where e: "e = (now, content)" by (cases e)
  show ?thesis
  proof (cases "decode_head_announcement content")
    case (Ok ann)
    obtain r where r: "validate_announcement X now ann (Some v) n' = (r, n'')" "r \<noteq> Panic"
      "bs = (case r of Ok _ \<Rightarrow> as @ [ann] | _ \<Rightarrow> as)"
      using assms(1) Ok by (auto simp: hear_def e bindop_Ok_iff attempt_Ok_iff ret_def)
    show ?thesis
    proof (cases "r = Ok ()")
      case True
      then show ?thesis
        using fresh_run_snoc [OF assms(2)] r assms(3) by (auto simp: validate_Ok_iff)
    next
      case False
      then have "n'' = n'" using validate_rejects r(1) by blast
      moreover have "bs = as" using r(3) False by (cases r) auto
      ultimately show ?thesis using assms(2,3) by simp
    qed
  qed (use assms in \<open>auto simp: hear_def e ret_def\<close>)
qed

lemma hear_all:
  assumes "for_op (hear X v) es as n' = (Ok bs, n'')" "fresh_run X n as n'"
    "list_all (\<lambda>a. \<exists>now. acceptable X now a (Some v)) as"
  shows "fresh_run X n bs n'' \<and> list_all (\<lambda>a. \<exists>now. acceptable X now a (Some v)) bs"
  using assms
proof (induction es arbitrary: as n')
  case (Cons e es)
  from Cons.prems(1) obtain cs m where m: "hear X v e as n' = (Ok cs, m)" "for_op (hear X v) es cs m = (Ok bs, n'')"
    by (auto simp: bindop_Ok_iff)
  with hear_step [OF m(1) Cons.prems(2,3)] Cons.IH [OF m(2)] show ?case by blast
qed (simp add: ret_def)

lemma listen_Ok:
  assumes "listen_for_heads_vault X T v events n = (Ok as, n')"
  shows "fresh_run X n as n' \<and> list_all (\<lambda>a. \<exists>now. acceptable X now a (Some v)) as"
proof -
  have "for_op (hear X v) events [] n = (Ok as, n')"
    using assms by (auto simp: listen_for_heads_vault_def subscribe_def bindop_Ok_iff ask_Ok_iff)
  then show ?thesis by (rule hear_all) (simp_all add: fresh_run_def)
qed

section \<open>Fetched and provided bytes\<close>

lemma get_chunk_Ok: "get_chunk_from_peer X T p h = Ok d \<Longrightarrow> hash_of X d = h \<and> length d \<le> MAX_BLOB_BYTES"
  by (auto simp: get_chunk_from_peer_def Let_def split: if_splits elim!: tryr_OkE)

lemma failover_Ok_iff:
  "failover X T h e0 peers = Ok (p, d) \<longleftrightarrow>
    (\<exists>before after. peers = before @ p # after \<and> get_chunk_from_peer X T p h = Ok d
      \<and> (\<forall>q\<in>set before. \<exists>e. get_chunk_from_peer X T q h = Err e))"
proof (induction peers arbitrary: e0)
  case (Cons q peers)
  show ?case
  proof (cases "get_chunk_from_peer X T q h")
    case (Ok d')
    then show ?thesis by (auto simp: Cons_eq_append_conv)
  next
    case (Err e)
    show ?thesis
    proof
      assume "failover X T h e0 (q # peers) = Ok (p, d)"
      then obtain before after where "peers = before @ p # after" "get_chunk_from_peer X T p h = Ok d"
        "\<forall>q\<in>set before. \<exists>e. get_chunk_from_peer X T q h = Err e" using Cons Err by auto
      then show "\<exists>before after. q # peers = before @ p # after \<and> get_chunk_from_peer X T p h = Ok d
          \<and> (\<forall>q\<in>set before. \<exists>e. get_chunk_from_peer X T q h = Err e)"
        using Err by (intro exI [of _ "q # before"] exI [of _ after]) auto
    next
      assume "\<exists>before after. q # peers = before @ p # after \<and> get_chunk_from_peer X T p h = Ok d
          \<and> (\<forall>q\<in>set before. \<exists>e. get_chunk_from_peer X T q h = Err e)"
      then show "failover X T h e0 (q # peers) = Ok (p, d)"
        using Cons Err by (auto simp: Cons_eq_append_conv)
    qed
  qed (auto simp: Cons_eq_append_conv)
qed simp

lemma failover_hash: "get_blob_with_failover X T peers h = Ok (p, d) \<Longrightarrow> hash_of X d = h"
  by (auto simp: get_blob_with_failover_def failover_Ok_iff dest: get_chunk_Ok)

lemma failover_succeeds:
  assumes "p \<in> set peers" "get_chunk_from_peer X T p h = Ok d" "\<forall>q\<in>set peers. get_chunk_from_peer X T q h \<noteq> Panic"
  shows "\<exists>q d'. failover X T h e0 peers = Ok (q, d') \<and> hash_of X d' = h"
  using assms
proof (induction peers arbitrary: e0)
  case (Cons q peers)
  then show ?case by (cases "get_chunk_from_peer X T q h") (auto dest: get_chunk_Ok)
qed simp

lemma provide_Ok_iff:
  "provide X T h d n = (Ok (), n') \<longleftrightarrow>
    length d \<le> MAX_BLOB_BYTES \<and> hash_of X d = h \<and> t_add_bytes T d = Ok () \<and> n' = n\<lparr>n_provided := n_provided n @ [d]\<rparr>"
  by (auto simp: provide_def Let_def fail_def bindop_Ok_iff ask_Ok_iff modify_def)

lemma provide_loop:
  assumes "for_op (\<lambda>(h, data) k. bindop (provide X T h data) (\<lambda>_. ret (k + 1))) items k n = (Ok m, n')"
  shows "m = k + length items \<and> n' = n\<lparr>n_provided := n_provided n @ map snd items\<rparr>
    \<and> list_all (\<lambda>(h, d). hash_of X d = h) items"
  using assms
proof (induction items arbitrary: k n)
  case (Cons i items)
  obtain h d where i: "i = (h, d)" by (cases i)
  from Cons.prems obtain n1 where "provide X T h d n = (Ok (), n1)"
    "for_op (\<lambda>(h, data) k. bindop (provide X T h data) (\<lambda>_. ret (k + 1))) items (k + 1) n1 = (Ok m, n')"
    by (auto simp: i bindop_Ok_iff ret_def)
  with Cons.IH [of "k + 1" n1] show ?case by (auto simp: i provide_Ok_iff)
qed (simp add: ret_def)

section \<open>Outgoing numbers and peers\<close>

definition last_announced :: "network \<Rightarrow> string \<Rightarrow> u64" where
  "last_announced n vault_hex =
     (case n_node n of Good st \<Rightarrow> (case om_get (ns_announce_seq st) vault_hex of Some s \<Rightarrow> s | None \<Rightarrow> 0) | _ \<Rightarrow> 0)"

lemma load_or_create_Ok:
  assumes "load_or_create X fresh n = (Ok st, n')"
  shows "n' = n\<lparr>n_node := Good st\<rparr> \<and> (n_node n = Good st \<and> n' = n \<or> n_node n = NoFile \<and> ns_announce_seq st = [])"
  using assms by (auto simp: load_or_create_def Let_def split: json_file.splits if_splits)

lemma next_announce_Ok:
  assumes "next_announce_seq X fresh vx n = (Ok s, n')"
  shows "s = last_announced n vx + 1"
    and "last_announced n' vy = (if vy = vx then s else last_announced n vy)"
proof -
  obtain st n1 where st: "load_or_create X fresh n = (Ok st, n1)"
    "s = (case om_get (ns_announce_seq st) vx of Some s \<Rightarrow> s | None \<Rightarrow> 0) + 1"
    "n' = n1\<lparr>n_node := Good (st\<lparr>ns_announce_seq := om_insert vx s (ns_announce_seq st)\<rparr>)\<rparr>"
    using assms by (auto simp: next_announce_seq_def Let_def bindop_Ok_iff node_save_def modify_def ret_def)
  show "s = last_announced n vx + 1"
    using load_or_create_Ok [OF st(1)] st(2) by (auto simp: last_announced_def)
  have "last_announced n1 vy = last_announced n vy" for vy
    using load_or_create_Ok [OF st(1)] by (auto simp: last_announced_def)
  moreover have "n_node n1 = Good st" using load_or_create_Ok [OF st(1)] by auto
  ultimately show "last_announced n' vy = (if vy = vx then s else last_announced n vy)"
    by (simp add: st(3) last_announced_def om_get_insert)
qed

lemma unat_next_seq: "unat (x + 1 :: u64) = (if x = - 1 then 0 else unat x + 1)"
  using unatSuc [of x] eq_neg_iff_add_eq_0 [of x 1] by (auto simp: add.commute)

lemma add_peer_Ok:
  assumes "add_peer X T fresh p n = (Ok (), n')"
  shows "n_peers n' = os_insert (str_trim p) (n_peers n)"
    "\<exists>st. n_node n' = Good st \<and> ns_peers st = n_peers n'" "is_ok (parse_peer_addr T (str_trim p))"
proof -
  obtain a st n1 where r: "parse_peer_addr T (str_trim p) = Ok a"
    "load_or_create X fresh (n\<lparr>n_peers := os_insert (str_trim p) (n_peers n)\<rparr>) = (Ok st, n1)"
    "n' = n1\<lparr>n_node := Good (st\<lparr>ns_peers := n_peers n1\<rparr>)\<rparr>"
    using assms
    by (auto simp: add_peer_def Let_def persist_peers_def bindop_Ok_iff ask_Ok_iff modify_def node_save_def)
  note lc = load_or_create_Ok [OF r(2)]
  show "n_peers n' = os_insert (str_trim p) (n_peers n)" using lc r(3) by auto
  then show "\<exists>st. n_node n' = Good st \<and> ns_peers st = n_peers n'" using lc r(3) by auto
  show "is_ok (parse_peer_addr T (str_trim p))" using r(1) by simp
qed

text \<open>A node that is opened again knows the peers it had saved.\<close>

lemma reopen_peers:
  assumes "add_peer X T fresh p n = (Ok (), n')" "network_open X fresh' up n' = (Ok (), n'')"
  shows "n_peers n'' = n_peers n' \<and> str_trim p \<in> set (n_peers n'')"
proof -
  note ap = add_peer_Ok [OF assms(1)]
  obtain st where st: "n_node n' = Good st" "ns_peers st = n_peers n'" using ap(2) by blast
  obtain st' n1 where l: "load_or_create X fresh' n' = (Ok st', n1)" "n_peers n'' = ns_peers st'"
    using assms(2) by (auto simp: network_open_def bindop_Ok_iff ask_Ok_iff modify_def)
  have "st' = st" using load_or_create_Ok [OF l(1)] st(1) by auto
  then show ?thesis using l(2) st ap(1) by simp
qed

lemma health_load_saved [simp]: "health_load (n\<lparr>n_health := Good h\<rparr>) = h"
  by (simp add: health_load_def)

lemma probe_Ok:
  assumes "probe_peer T now p n = (Ok r, n')"
  shows "pb_peer r = p" "om_get (hs_alive (health_load n')) p = Some (pb_alive r)"
    and "om_get (hs_last_seen (health_load n')) p =
      (if pb_alive r then Some now else om_get (hs_last_seen (health_load n)) p)"
    and "q \<noteq> p \<Longrightarrow> om_get (hs_alive (health_load n')) q = om_get (hs_alive (health_load n)) q"
proof -
  obtain a where a: "parse_peer_addr T p = Ok a"
    using assms unfolding probe_peer_def by (rule bindop_OkE) (auto simp: ask_Ok_iff)
  note run = assms [unfolded probe_peer_def bindop_def ask_def a prod.case res.case Let_def health_save_def modify_def ret_def]
  show "pb_peer r = p" "om_get (hs_alive (health_load n')) p = Some (pb_alive r)"
    "om_get (hs_last_seen (health_load n')) p =
      (if pb_alive r then Some now else om_get (hs_last_seen (health_load n)) p)"
    "q \<noteq> p \<Longrightarrow> om_get (hs_alive (health_load n')) q = om_get (hs_alive (health_load n)) q"
    using run by (cases "t_connect T a"; auto simp: om_get_insert)+
qed

text \<open>When an announcement is accepted, and what that changes.\<close>

lemma validate_outcome:
  "(fst (validate_announcement X now a (Some v) n) = Ok () \<longleftrightarrow>
      verify_head_announcement X a = Ok ()
      \<and> unat now \<le> unat (ha_timestamp a) + 300 \<and> unat (ha_timestamp a) \<le> unat now + 300
      \<and> vault_id_bytes X v = Ok (ha_vault_id a) \<and> is_member v (node_id_hex X a)
      \<and> load_last_recv_seq n (vault_id_hex X a) (node_id_hex X a) < ha_seq a)
    \<and> snd (validate_announcement X now a (Some v) n) =
        (if fst (validate_announcement X now a (Some v) n) = Ok ()
         then snd (store_last_recv_seq (vault_id_hex X a) (node_id_hex X a) (ha_seq a) n) else n)"
proof -
  obtain r n' where run: "validate_announcement X now a (Some v) n = (r, n')" by fastforce
  show ?thesis
  proof (cases "r = Ok ()")
    case True
    then show ?thesis using run validate_Ok_iff [of X now a "Some v" n n']
      by (auto simp: acceptable_def check_head_skew_Ok last_accepted_def)
  next
    case False
    then have "n' = n" using validate_rejects [OF run] by simp
    moreover have "\<not> (acceptable X now a (Some v) \<and> last_accepted X n a < ha_seq a)"
      using False run validate_Ok_iff [of X now a "Some v" n "snd (store_last_recv_seq (vault_id_hex X a) (node_id_hex X a) (ha_seq a) n)"]
        store_seq_Ok [of "vault_id_hex X a" "node_id_hex X a" "ha_seq a" n]
      by (auto simp: prod_eq_iff)
    ultimately show ?thesis using run False by (auto simp: acceptable_def check_head_skew_Ok last_accepted_def)
  qed
qed

end
