(* ===== verification/Sync.thy ===== *)
theory Sync
  imports Network
begin

text \<open>
  The sync engine (\<open>src/src/sync.rs\<close>): checkpointed jobs and the fetch of a commit graph with
  failover between peers. The run of one fetch is a state of its own: the vault, the job held in
  memory, and the counters; an error keeps all three, as the code does when it marks the job
  failed.
\<close>

section \<open>Jobs\<close>

definition sync_job_new :: "u64 \<Rightarrow> content_hash \<Rightarrow> sync_job" where
  "sync_job_new now target =
     \<lparr>sj_target = target, sj_epoch = now, sj_state = Fetching, sj_done_commits = [], sj_done_trees = [],
      sj_done_chunks = [], sj_updated_at = now, sj_error = None\<rparr>"

definition load_or_create_job :: "u64 \<Rightarrow> content_hash \<Rightarrow> vault \<Rightarrow> sync_job" where
  "load_or_create_job now target v =
     (case om_get (d_jobs v) target of
        Some (Good job) \<Rightarrow>
          if sj_target job = target \<and> sj_state job \<noteq> Done then job else sync_job_new now target
      | _ \<Rightarrow> sync_job_new now target)"

definition persist_job :: "sync_job \<Rightarrow> vault \<Rightarrow> vault" where
  "persist_job job v = v\<lparr>d_jobs := om_insert (sj_target job) (Good job) (d_jobs v)\<rparr>"

section \<open>One run\<close>

record sync_run =
  sr_vault :: vault
  sr_job :: sync_job
  sr_commits :: nat
  sr_trees :: nat
  sr_chunks :: nat

type_synonym 'a sop = "(sync_run, soal_error, 'a) op"

type_synonym fetcher = "content_hash \<Rightarrow> (string \<times> bytes) result"

definition on_vault :: "'a vop \<Rightarrow> 'a sop" where
  "on_vault m = (\<lambda>s. case m (sr_vault s) of (r, v) \<Rightarrow> (r, s\<lparr>sr_vault := v\<rparr>))"

text \<open>\<open>job.\<dots>; job.touch(); persist_job(vault, &job)\<close>.\<close>

definition checkpoint :: "u64 \<Rightarrow> (sync_job \<Rightarrow> sync_job) \<Rightarrow> unit sop" where
  "checkpoint now f = modify (\<lambda>s.
     let job = (f (sr_job s))\<lparr>sj_updated_at := now\<rparr>
     in s\<lparr>sr_job := job, sr_vault := persist_job job (sr_vault s)\<rparr>)"

definition fetch_import :: "fetcher \<Rightarrow> content_hash \<Rightarrow> (content_hash \<Rightarrow> bytes \<Rightarrow> unit vop) \<Rightarrow> unit sop" where
  "fetch_import fetch h imp = bindop (ask (\<lambda>_. fetch h)) (\<lambda>(peer, bytes). on_vault (imp h bytes))"

definition sync_commit :: "ext \<Rightarrow> fetcher \<Rightarrow> u64 \<Rightarrow> content_hash \<Rightarrow> commit sop" where
  "sync_commit X fetch now c =
     bindop (\<lambda>s. if c \<in> set (sj_done_commits (sr_job s)) then ret () s
         else bindop
           (\<lambda>s. if \<not> has_commit_object (sr_vault s) c then
                 bindop (fetch_import fetch c (import_commit_bytes X))
                   (\<lambda>_. modify (\<lambda>s. s\<lparr>sr_commits := sr_commits s + 1\<rparr>)) s
               else ask (\<lambda>s. tryr (load_commit X (sr_vault s) c) (verify_commit_signature X)) s)
           (\<lambda>_. checkpoint now (\<lambda>j. j\<lparr>sj_done_commits := os_insert c (sj_done_commits j)\<rparr>)) s) (\<lambda>_.
       ask (\<lambda>s. load_commit X (sr_vault s) c))"

definition sync_tree :: "ext \<Rightarrow> fetcher \<Rightarrow> u64 \<Rightarrow> content_hash \<Rightarrow> tree sop" where
  "sync_tree X fetch now th =
     bindop (\<lambda>s. if th \<in> set (sj_done_trees (sr_job s)) then ret () s
         else bindop
           (\<lambda>s. if \<not> has_tree_object (sr_vault s) th then
                 bindop (fetch_import fetch th (import_tree_bytes X))
                   (\<lambda>_. modify (\<lambda>s. s\<lparr>sr_trees := sr_trees s + 1\<rparr>)) s
               else ret () s)
           (\<lambda>_. checkpoint now (\<lambda>j. j\<lparr>sj_done_trees := os_insert th (sj_done_trees j)\<rparr>)) s) (\<lambda>_.
       ask (\<lambda>s. load_tree X (sr_vault s) th))"

definition chunk_arrives :: "ext \<Rightarrow> fetcher \<Rightarrow> content_hash \<Rightarrow> unit sop" where
  "chunk_arrives X fetch ch = (\<lambda>s.
     if \<not> has_chunk (sr_vault s) ch then
       bindop (fetch_import fetch ch (import_stored_chunk X))
         (\<lambda>_. modify (\<lambda>s. s\<lparr>sr_chunks := sr_chunks s + 1\<rparr>)) s
     else ret () s)"

text \<open>A checkpoint is written at every thirty-second chunk.\<close>

definition mark_chunk :: "u64 \<Rightarrow> content_hash \<Rightarrow> unit sop" where
  "mark_chunk now ch = (\<lambda>s.
     let done_chunks = os_insert ch (sj_done_chunks (sr_job s));
         s = s\<lparr>sr_job := (sr_job s)\<lparr>sj_done_chunks := done_chunks\<rparr>\<rparr>
     in if length done_chunks mod 32 = 0 then checkpoint now (\<lambda>j. j) s else ret () s)"

definition sync_chunk :: "ext \<Rightarrow> fetcher \<Rightarrow> u64 \<Rightarrow> content_hash \<Rightarrow> unit \<Rightarrow> unit sop" where
  "sync_chunk X fetch now ch = (\<lambda>_ s.
     if ch \<in> set (sj_done_chunks (sr_job s)) then ret () s
     else bindop (chunk_arrives X fetch ch) (\<lambda>_. mark_chunk now ch) s)"

lemma length_os_insert: "x \<notin> set s \<Longrightarrow> length (os_insert x s) = Suc (length s)"
  by (induction s) auto

text \<open>
  The loop over the queue. It ends: a round either shortens the queue or adds a commit to the
  visited set, which never exceeds one more than \<open>MAX_JOB_COMMITS\<close>.
\<close>

function sync_loop :: "ext \<Rightarrow> fetcher \<Rightarrow> u64 \<Rightarrow> content_hash list \<Rightarrow> content_hash oset \<Rightarrow> unit sop" where
  "sync_loop X fetch now [] visited = ret ()"
| "sync_loop X fetch now (c # queue) visited =
     (if length visited > MAX_JOB_COMMITS then fail (Other ''DAG too deep (MAX_JOB_COMMITS)'')
      else if c \<in> set visited then sync_loop X fetch now queue visited
      else bindop (sync_commit X fetch now c) (\<lambda>commit.
           bindop (sync_tree X fetch now (c_tree commit)) (\<lambda>t.
           bindop (for_op (sync_chunk X fetch now) (all_chunk_hashes t) ()) (\<lambda>_.
             sync_loop X fetch now (queue @ c_parents commit) (os_insert c visited)))))"
  by pat_completeness auto
termination
  by (relation "measures [\<lambda>(X, fetch, now, queue, visited). Suc MAX_JOB_COMMITS - length visited,
      \<lambda>(X, fetch, now, queue, visited). length queue]") (auto simp: length_os_insert)

record sync_result =
  sy_target :: content_hash
  sy_commits_imported :: nat
  sy_trees_imported :: nat
  sy_chunks_imported :: nat
  sy_head_updated :: bool

definition sync_body ::
  "ext \<Rightarrow> fetcher \<Rightarrow> u64 \<Rightarrow> content_hash \<Rightarrow> bool \<Rightarrow> sync_result sop"
where
  "sync_body X fetch now target set_hd =
     bindop (sync_loop X fetch now [target] []) (\<lambda>_.
     bindop (checkpoint now (\<lambda>j. j\<lparr>sj_state := Verifying\<rparr>)) (\<lambda>_.
     bindop (ask (\<lambda>s. is_complete X (sr_vault s) target)) (\<lambda>complete.
       if \<not> complete then fail (Verify ''sync finished but target not complete'')
       else bindop (if set_hd then on_vault (set_head_public X target) else ret ()) (\<lambda>_.
            bindop (checkpoint now (\<lambda>j. j\<lparr>sj_state := Done\<rparr>)) (\<lambda>_.
            ask (\<lambda>s. Ok \<lparr>sy_target = target, sy_commits_imported = sr_commits s, sy_trees_imported = sr_trees s,
                       sy_chunks_imported = sr_chunks s, sy_head_updated = set_hd\<rparr>))))))"

definition fetch_dag_with ::
  "ext \<Rightarrow> fetcher \<Rightarrow> u64 \<Rightarrow> content_hash \<Rightarrow> bool \<Rightarrow> sync_result vop"
where
  "fetch_dag_with X fetch now target set_hd =
     bindop (ask (\<lambda>v. is_complete X v target)) (\<lambda>complete.
       if complete then
         bindop (if set_hd then set_head_public X target else ret ()) (\<lambda>_.
           ret \<lparr>sy_target = target, sy_commits_imported = 0, sy_trees_imported = 0, sy_chunks_imported = 0,
                sy_head_updated = set_hd\<rparr>)
       else (\<lambda>v.
         let job = (load_or_create_job now target v)\<lparr>sj_state := Fetching, sj_updated_at := now\<rparr>;
             s = \<lparr>sr_vault = persist_job job v, sr_job = job, sr_commits = 0, sr_trees = 0, sr_chunks = 0\<rparr>
         in case sync_body X fetch now target set_hd s of
              (Err e, s) \<Rightarrow>
                (Err e, persist_job ((sr_job s)\<lparr>sj_state := Failed, sj_error := Some (error_text e), sj_updated_at := now\<rparr>) (sr_vault s))
            | (r, s) \<Rightarrow> (r, sr_vault s)))"

definition fetch_dag ::
  "ext \<Rightarrow> 'addr transport \<Rightarrow> string list \<Rightarrow> u64 \<Rightarrow> content_hash \<Rightarrow> bool \<Rightarrow> sync_result vop"
where
  "fetch_dag X T peers now target set_hd =
     (if peers = [] then fail (Other ''no peers for sync'')
      else fetch_dag_with X (get_blob_with_failover X T peers) now target set_hd)"

definition sync_head ::
  "ext \<Rightarrow> 'addr transport \<Rightarrow> network \<Rightarrow> u64 \<Rightarrow> content_hash \<Rightarrow> sync_result vop"
where
  "sync_head X T n now target = fetch_dag X T (n_peers n) now target True"

section \<open>What a fetch keeps\<close>

text \<open>
  Whatever loaded before loads as before, chunks stay, the heads are untouched, and the
  directories stay content addressed. \<open>D\<close> is the set of chunks the checkpoint claimed at the
  start: a chunk that is marked done is stored, or was claimed.
\<close>

definition keeps_loads :: "ext \<Rightarrow> vault \<Rightarrow> vault \<Rightarrow> bool" where
  "keeps_loads X v w \<longleftrightarrow>
     (\<forall>h c. load_commit X v h = Ok c \<longrightarrow> load_commit X w h = Ok c)
   \<and> (\<forall>h t. load_tree X v h = Ok t \<longrightarrow> load_tree X w h = Ok t)
   \<and> grows v w \<and> keeps (cas_ok X) v w \<and> d_head w = d_head v \<and> d_heads w = d_heads v"

definition claims_ok :: "content_hash set \<Rightarrow> sync_run \<Rightarrow> bool" where
  "claims_ok D s \<longleftrightarrow> (\<forall>ch\<in>set (sj_done_chunks (sr_job s)). has_chunk (sr_vault s) ch \<or> ch \<in> D)"

definition pulls :: "ext \<Rightarrow> content_hash set \<Rightarrow> sync_run \<Rightarrow> sync_run \<Rightarrow> bool" where
  "pulls X D s t \<longleftrightarrow> keeps_loads X (sr_vault s) (sr_vault t) \<and> keeps (claims_ok D) s t"

interpretation kl: evolution "keeps_loads X" for X
  by unfold_locales (auto simp: keeps_loads_def gr.refl keep.refl intro: gr.trans keep.trans)

interpretation pl: evolution "pulls X D" for X D
  by unfold_locales (auto simp: pulls_def kl.refl keep.refl intro: kl.trans keep.trans)

lemma grows_has_chunk: "grows v w \<Longrightarrow> has_chunk v ch \<Longrightarrow> has_chunk w ch"
  by (auto simp: grows_def has_chunk_def store_exists_def om_mem_def)

lemma keeps_loads_pulls:
  assumes "keeps_loads X (sr_vault s) (sr_vault t)"
    "\<And>ch. ch \<in> set (sj_done_chunks (sr_job t)) \<Longrightarrow> ch \<in> set (sj_done_chunks (sr_job s)) \<or> has_chunk (sr_vault t) ch"
  shows "pulls X D s t"
proof -
  have "grows (sr_vault s) (sr_vault t)" using assms(1) by (simp add: keeps_loads_def)
  then show ?thesis
    using assms grows_has_chunk by (fastforce simp: pulls_def keeps_def claims_ok_def)
qed

lemma persist_job_loads: "keeps_loads X v (persist_job job v)"
proof -
  have "side v (persist_job job v)" by (simp add: side_def core_def persist_job_def)
  then show ?thesis
    by (simp add: keeps_loads_def loads_side side_cas side_grows sideD)
qed

lemma checkpoint_pulls:
  "(\<And>j. sj_done_chunks (f j) = sj_done_chunks j) \<Longrightarrow> steps (pulls X D) (checkpoint now f)"
  unfolding checkpoint_def
  by (intro steps_modify keeps_loads_pulls) (simp_all add: persist_job_loads Let_def)

section \<open>Imports\<close>

lemma import_commit_loads:
  assumes "\<not> has_commit_object v h" "import_commit_bytes X h d v = (r, w)"
  shows "keeps_loads X v w"
proof (cases "r = Ok ()")
  case True
  note im = import_commit_Ok(2) [OF assms(2) [unfolded True]]
  have "load_commit X w k = Ok c" if "load_commit X v k = Ok c" for k c
  proof -
    have "k \<noteq> h" using load_commit_present [OF that] assms(1) by blast
    then have "load_commit X w k = load_commit X v k"
      by (intro load_commit_get) (simp_all add: im om_get_insert)
    with that show ?thesis by simp
  qed
  moreover have "load_tree X w = load_tree X v" by (rule ext, rule load_tree_cong) (simp_all add: im)
  ultimately show ?thesis
    using stepsD [OF og.import_commit_steps assms(2)] stepsD [OF oc.import_commit_steps assms(2)]
    by (simp add: keeps_loads_def im)
qed (use import_commit_error [OF assms(2)] kl.refl in simp)

lemma import_tree_loads:
  assumes "\<not> has_tree_object v h" "import_tree_bytes X h d v = (r, w)"
  shows "keeps_loads X v w"
proof (cases "r = Ok ()")
  case True
  note im = import_tree_Ok(2) [OF assms(2) [unfolded True]]
  have "load_tree X w k = Ok c" if "load_tree X v k = Ok c" for k c
  proof -
    have "k \<noteq> h" using load_tree_present [OF that] assms(1) by blast
    then have "load_tree X w k = load_tree X v k"
      by (intro load_tree_get) (simp_all add: im om_get_insert)
    with that show ?thesis by simp
  qed
  moreover have "load_commit X w = load_commit X v" by (rule ext, rule load_commit_cong) (simp_all add: im)
  ultimately show ?thesis
    using stepsD [OF og.import_tree_steps assms(2)] stepsD [OF oc.import_tree_steps assms(2)]
    by (simp add: keeps_loads_def im)
qed (use import_tree_error [OF assms(2)] kl.refl in simp)

lemma import_chunk_loads:
  assumes "import_stored_chunk X h d v = (r, w)"
  shows "keeps_loads X v w"
proof -
  obtain s where s: "w = v\<lparr>d_chunks := s\<rparr>" using import_chunk_frame [OF assms] by blast
  show ?thesis
    using stepsD [OF og.import_chunk_steps assms] stepsD [OF oc.import_chunk_steps assms] by (simp add: keeps_loads_def s)
qed

lemma steps_unless_state:
  "(\<And>s. R s s) \<Longrightarrow> steps R m \<Longrightarrow> steps R (\<lambda>s. if p s then ret x s else m s)"
  by (simp add: steps_def ret_def)

lemma fetch_import_pulls:
  assumes imp: "\<And>d r w. imp h d (sr_vault s) = (r, w) \<Longrightarrow> keeps_loads X (sr_vault s) w"
    and run: "bindop (fetch_import fetch h imp) (\<lambda>_. modify f) s = (r, t)"
    and f: "\<And>s. sr_vault (f s) = sr_vault s \<and> sr_job (f s) = sr_job s"
  shows "pulls X D s t"
proof (cases "fetch h")
  case (Ok pb)
  obtain p d where pb: "pb = (p, d)" by (cases pb)
  obtain r1 w where w: "imp h d (sr_vault s) = (r1, w)" by (cases "imp h d (sr_vault s)")
  have t: "sr_vault t = w \<and> sr_job t = sr_job s"
    using run f by (cases r1) (auto simp: fetch_import_def bindop_def ask_def on_vault_def Ok pb w modify_def)
  show ?thesis by (rule keeps_loads_pulls) (use imp [OF w] t in simp_all)
qed (use run in \<open>auto simp: fetch_import_def bindop_def ask_def pl.refl\<close>)

lemma sync_commit_pulls: "steps (pulls X D) (sync_commit X fetch now c)"
proof -
  have "steps (pulls X D) (\<lambda>s. if \<not> has_commit_object (sr_vault s) c then
         bindop (fetch_import fetch c (import_commit_bytes X))
           (\<lambda>_. modify (\<lambda>s. s\<lparr>sr_commits := sr_commits s + 1\<rparr>)) s
       else ask (\<lambda>s. tryr (load_commit X (sr_vault s) c) (verify_commit_signature X)) s)"
    by (rule stepsI) (auto simp: ask_def pl.refl split: if_splits intro: fetch_import_pulls import_commit_loads)
  then have "steps (pulls X D) (\<lambda>s. if c \<in> set (sj_done_commits (sr_job s)) then ret () s
         else bindop (\<lambda>s. if \<not> has_commit_object (sr_vault s) c then
                 bindop (fetch_import fetch c (import_commit_bytes X))
                   (\<lambda>_. modify (\<lambda>s. s\<lparr>sr_commits := sr_commits s + 1\<rparr>)) s
               else ask (\<lambda>s. tryr (load_commit X (sr_vault s) c) (verify_commit_signature X)) s)
           (\<lambda>_. checkpoint now (\<lambda>j. j\<lparr>sj_done_commits := os_insert c (sj_done_commits j)\<rparr>)) s)"
    by (intro steps_unless_state pl.refl pl.steps_bindI checkpoint_pulls) simp_all
  then show ?thesis unfolding sync_commit_def by (intro pl.steps_bindI pl.steps_ask)
qed

lemma sync_tree_pulls: "steps (pulls X D) (sync_tree X fetch now th)"
proof -
  have "steps (pulls X D) (\<lambda>s. if \<not> has_tree_object (sr_vault s) th then
         bindop (fetch_import fetch th (import_tree_bytes X))
           (\<lambda>_. modify (\<lambda>s. s\<lparr>sr_trees := sr_trees s + 1\<rparr>)) s
       else ret () s)"
    by (rule stepsI) (auto simp: ret_def pl.refl split: if_splits intro: fetch_import_pulls import_tree_loads)
  then have "steps (pulls X D) (\<lambda>s. if th \<in> set (sj_done_trees (sr_job s)) then ret () s
         else bindop (\<lambda>s. if \<not> has_tree_object (sr_vault s) th then
                 bindop (fetch_import fetch th (import_tree_bytes X))
                   (\<lambda>_. modify (\<lambda>s. s\<lparr>sr_trees := sr_trees s + 1\<rparr>)) s
               else ret () s)
           (\<lambda>_. checkpoint now (\<lambda>j. j\<lparr>sj_done_trees := os_insert th (sj_done_trees j)\<rparr>)) s)"
    by (intro steps_unless_state pl.refl pl.steps_bindI checkpoint_pulls) simp_all
  then show ?thesis unfolding sync_tree_def by (intro pl.steps_bindI pl.steps_ask)
qed

lemma chunk_arrives_step:
  assumes run: "chunk_arrives X fetch ch s = (r, t)"
  shows "pulls X D s t" "r = Ok () \<Longrightarrow> has_chunk (sr_vault t) ch"
proof -
  show "pulls X D s t"
    using run by (auto simp: chunk_arrives_def ret_def pl.refl split: if_splits intro: fetch_import_pulls import_chunk_loads)
  assume "r = Ok ()"
  then show "has_chunk (sr_vault t) ch"
    using run import_chunk_has
    by (cases "fetch ch")
      (auto simp: chunk_arrives_def ret_def fetch_import_def bindop_Ok_iff ask_Ok_iff on_vault_def modify_def
        split: if_splits prod.splits)
qed

lemma mark_chunk_step:
  assumes "has_chunk (sr_vault s) ch" "mark_chunk now ch s = (r, t)"
  shows "pulls X D s t"
proof -
  let ?s = "s\<lparr>sr_job := (sr_job s)\<lparr>sj_done_chunks := os_insert ch (sj_done_chunks (sr_job s))\<rparr>\<rparr>"
  have old: "pulls X D s ?s" by (rule keeps_loads_pulls) (use assms(1) kl.refl in auto)
  have ck: "steps (pulls X D) (checkpoint now (\<lambda>j. j))" by (rule checkpoint_pulls) simp
  have "pulls X D ?s t"
    using assms(2) stepsD [OF ck, of ?s r t]
    by (auto simp: mark_chunk_def Let_def ret_def pl.refl split: if_splits)
  with old show ?thesis by (rule pl.trans)
qed

text \<open>The step of one chunk: it may fail, but if it ends well the chunk is stored or was claimed.\<close>

lemma sync_chunk_step:
  assumes run: "sync_chunk X fetch now ch u s = (r, t)"
  shows "pulls X D s t" "r = Ok () \<Longrightarrow> claims_ok D s \<Longrightarrow> has_chunk (sr_vault t) ch \<or> ch \<in> D"
proof -
  obtain r1 s1 where g: "chunk_arrives X fetch ch s = (r1, s1)" by (cases "chunk_arrives X fetch ch s")
  note arr = chunk_arrives_step [OF g]
  have both: "pulls X D s t \<and> (r = Ok () \<longrightarrow> claims_ok D s \<longrightarrow> has_chunk (sr_vault t) ch \<or> ch \<in> D)"
  proof (cases "ch \<in> set (sj_done_chunks (sr_job s))")
    case True
    then show ?thesis using run by (auto simp: sync_chunk_def ret_def pl.refl claims_ok_def)
  next
    case new: False
    show ?thesis
    proof (cases "r1 = Ok ()")
      case True
      then have m: "mark_chunk now ch s1 = (r, t)" using run new g by (simp add: sync_chunk_def bindop_def)
      have p: "pulls X D s1 t" by (rule mark_chunk_step [OF arr(2) [OF True] m])
      then have "grows (sr_vault s1) (sr_vault t)" by (simp add: pulls_def keeps_loads_def)
      then have "has_chunk (sr_vault t) ch" using arr(2) [OF True] by (rule grows_has_chunk)
      then show ?thesis using pl.trans [OF arr(1) p] by blast
    next
      case False
      then have "t = s1 \<and> r \<noteq> Ok ()" using run new g by (cases r1) (auto simp: sync_chunk_def bindop_def)
      then show ?thesis using arr(1) by blast
    qed
  qed
  then show "pulls X D s t" by blast
  show "r = Ok () \<Longrightarrow> claims_ok D s \<Longrightarrow> has_chunk (sr_vault t) ch \<or> ch \<in> D" using both by blast
qed

lemma pullsD:
  assumes "pulls X D s t"
  shows "load_commit X (sr_vault s) h = Ok c \<Longrightarrow> load_commit X (sr_vault t) h = Ok c"
    and "load_tree X (sr_vault s) h = Ok tr \<Longrightarrow> load_tree X (sr_vault t) h = Ok tr"
    and "has_chunk (sr_vault s) h \<Longrightarrow> has_chunk (sr_vault t) h"
    and "claims_ok D s \<Longrightarrow> claims_ok D t"
  using assms by (auto simp: pulls_def keeps_loads_def keeps_def intro: grows_has_chunk)

lemma sync_chunks_pulls: "steps (pulls X D) (for_op (sync_chunk X fetch now) chs ())"
  by (intro pl.steps_for stepsI) (rule sync_chunk_step(1))

lemma sync_chunks_Ok:
  assumes "for_op (sync_chunk X fetch now) chs () s = (Ok (), t)" "claims_ok D s"
  shows "\<forall>ch\<in>set chs. has_chunk (sr_vault t) ch \<or> ch \<in> D"
  using assms
proof (induction chs arbitrary: s)
  case (Cons ch chs)
  obtain s1 where s1: "sync_chunk X fetch now ch () s = (Ok (), s1)" "for_op (sync_chunk X fetch now) chs () s1 = (Ok (), t)"
    using Cons.prems(1) by (auto simp: bindop_Ok_iff)
  note st = sync_chunk_step [OF s1(1)]
  have "claims_ok D s1" by (rule pullsD(4) [OF st(1) Cons.prems(2)])
  moreover have "pulls X D s1 t" by (rule stepsD [OF sync_chunks_pulls s1(2)])
  ultimately show ?case
    using Cons.IH [OF s1(2)] st(2) [OF refl Cons.prems(2)] pullsD(3) by fastforce
qed simp

section \<open>The whole graph arrives\<close>

text \<open>A commit that is here: it loads, its tree loads, and its chunks are stored or were claimed.\<close>

definition arrived :: "ext \<Rightarrow> content_hash set \<Rightarrow> vault \<Rightarrow> content_hash \<Rightarrow> content_hash set \<Rightarrow> bool" where
  "arrived X D v h S \<longleftrightarrow> (\<exists>c t. load_commit X v h = Ok c \<and> load_tree X v (c_tree c) = Ok t
     \<and> (\<forall>ch\<in>set (all_chunk_hashes t). has_chunk v ch \<or> ch \<in> D) \<and> set (c_parents c) \<subseteq> S)"

lemma arrived_pulls: "pulls X D s t \<Longrightarrow> arrived X D (sr_vault s) h S \<Longrightarrow> S \<subseteq> S' \<Longrightarrow> arrived X D (sr_vault t) h S'"
  unfolding arrived_def by (blast intro: pullsD)

lemma sync_loop_pulls: "steps (pulls X D) (sync_loop X fetch now queue visited)"
proof (induction X fetch now queue visited rule: sync_loop.induct)
  case (2 X fetch now c queue visited)
  then show ?case
    by (simp add: pl.steps_fail sync_commit_pulls sync_tree_pulls sync_chunks_pulls pl.steps_bindI)
qed (simp add: pl.steps_ret)

lemma sync_loop_arrives:
  assumes "sync_loop X fetch now queue visited s = (Ok (), t)" "claims_ok D s"
    and "\<forall>h\<in>set visited. arrived X D (sr_vault s) h (set visited \<union> set queue)"
  shows "\<exists>V. set visited \<union> set queue \<subseteq> V \<and> (\<forall>h\<in>V. arrived X D (sr_vault t) h V)"
  using assms
proof (induction X fetch now queue visited arbitrary: s rule: sync_loop.induct)
  case (1 X fetch now visited)
  then show ?case by (intro exI [of _ "set visited"]) (simp add: ret_def)
next
  case (2 X fetch now c queue visited)
  have room: "\<not> length visited > MAX_JOB_COMMITS" using "2.prems"(1) by (auto simp: fail_def)
  show ?case
  proof (cases "c \<in> set visited")
    case True
    then have eq: "set visited \<union> set (c # queue) = set visited \<union> set queue" by auto
    have run: "sync_loop X fetch now queue visited s = (Ok (), t)" using "2.prems"(1) room True by simp
    show ?thesis unfolding eq by (rule "2.IH"(1) [OF room True run "2.prems"(2,3) [unfolded eq]])
  next
    case False
    have run: "bindop (sync_commit X fetch now c) (\<lambda>commit.
           bindop (sync_tree X fetch now (c_tree commit)) (\<lambda>t.
           bindop (for_op (sync_chunk X fetch now) (all_chunk_hashes t) ()) (\<lambda>_.
             sync_loop X fetch now (queue @ c_parents commit) (os_insert c visited)))) s = (Ok (), t)"
      using "2.prems"(1) room False by simp
    obtain cm s1 where r1: "sync_commit X fetch now c s = (Ok cm, s1)"
      and run1: "bindop (sync_tree X fetch now (c_tree cm)) (\<lambda>t.
           bindop (for_op (sync_chunk X fetch now) (all_chunk_hashes t) ()) (\<lambda>_.
             sync_loop X fetch now (queue @ c_parents cm) (os_insert c visited))) s1 = (Ok (), t)"
      using run by (rule bindop_OkE)
    obtain tr s2 where r2: "sync_tree X fetch now (c_tree cm) s1 = (Ok tr, s2)"
      and run2: "bindop (for_op (sync_chunk X fetch now) (all_chunk_hashes tr) ()) (\<lambda>_.
             sync_loop X fetch now (queue @ c_parents cm) (os_insert c visited)) s2 = (Ok (), t)"
      using run1 by (rule bindop_OkE)
    obtain s3 where r3: "for_op (sync_chunk X fetch now) (all_chunk_hashes tr) () s2 = (Ok (), s3)"
      and r4: "sync_loop X fetch now (queue @ c_parents cm) (os_insert c visited) s3 = (Ok (), t)"
      using run2 by (rule bindop_OkE) simp
    note r = r1 r2 r3 r4
    have l1: "load_commit X (sr_vault s1) c = Ok cm" and l2: "load_tree X (sr_vault s2) (c_tree cm) = Ok tr"
      using r(1,2) by (auto simp: sync_commit_def sync_tree_def bindop_Ok_iff ask_Ok_iff)
    have p: "pulls X D s s1" "pulls X D s1 s2" "pulls X D s2 s3"
      using stepsD [OF sync_commit_pulls r(1)] stepsD [OF sync_tree_pulls r(2)] stepsD [OF sync_chunks_pulls r(3)]
      by blast+
    have p13: "pulls X D s1 s3" and ps: "pulls X D s s3" using p pl.trans by blast+
    let ?S = "set (os_insert c visited) \<union> set (queue @ c_parents cm)"
    have "claims_ok D s2" using pullsD(4) p(1,2) "2.prems"(2) by blast
    then have "arrived X D (sr_vault s3) c ?S"
      using pullsD(1) [OF p13 l1] pullsD(2) [OF p(3) l2] sync_chunks_Ok [OF r(3)]
      unfolding arrived_def by (intro exI [of _ cm] exI [of _ tr]) auto
    moreover have "\<forall>h\<in>set visited. arrived X D (sr_vault s3) h ?S"
    proof
      fix h
      assume "h \<in> set visited"
      with "2.prems"(3) have "arrived X D (sr_vault s) h (set visited \<union> set (c # queue))" by blast
      then show "arrived X D (sr_vault s3) h ?S" by (rule arrived_pulls [OF ps]) auto
    qed
    ultimately have "\<forall>h\<in>set (os_insert c visited). arrived X D (sr_vault s3) h ?S" by simp
    then have "\<exists>V. ?S \<subseteq> V \<and> (\<forall>h\<in>V. arrived X D (sr_vault t) h V)"
      by (rule "2.IH"(2) [OF room False r(4) pullsD(4) [OF ps "2.prems"(2)]])
    then show ?thesis by auto
  qed
qed

section \<open>The end of a run\<close>

lemma set_head_public_frame: "set_head_public X h v = (r, w) \<Longrightarrow> \<exists>a b. w = v\<lparr>d_head := a, d_heads := b\<rparr>"
proof -
  have "steps (\<lambda>v w. \<exists>a b. w = v\<lparr>d_head := a, d_heads := b\<rparr>) (set_head_public X h)"
  proof (rule stepsI)
    fix v r w
    assume "set_head_public X h v = (r, w)"
    then have "w = v\<lparr>d_head := d_head w, d_heads := d_heads w\<rparr>"
      by (auto simp: set_head_public_def set_head_def record_head_def write_heads_def bindop_def ask_def modify_def
          split: res.splits)
    then show "\<exists>a b. w = v\<lparr>d_head := a, d_heads := b\<rparr>" by blast
  qed
  then show "set_head_public X h v = (r, w) \<Longrightarrow> ?thesis" by (rule stepsD)
qed

text \<open>It fails only if the commit does not load, and then nothing was written.\<close>

lemma set_head_public_Ok:
  assumes "hex_law X" "wf_hash h" "set_head_public X h v = (r, w)"
  shows "r = Ok () \<Longrightarrow> head_of X w = Ok (Some h)" "r \<noteq> Ok () \<Longrightarrow> w = v"
proof -
  obtain v1 where v1: "set_head X h v = (Ok (), v1)" by (auto simp: set_head_def modify_def)
  have hd1: "head_of X v1 = Ok (Some h)" by (rule head_of_set_head [OF assms(1,2) v1])
  then obtain hs where hs: "list_heads X v1 = Ok hs" by (simp add: list_heads_def list_heads_file_only_def)
  have "set_head_public X h v = (case load_commit X v h of
      Ok _ \<Rightarrow> (Ok (), v1\<lparr>d_heads := Some (heads_body X (os_insert h hs))\<rparr>)
    | Err e \<Rightarrow> (Err e, v) | Panic \<Rightarrow> (Panic, v))"
    by (simp add: set_head_public_def record_head_def write_heads_def bindop_def ask_def modify_def v1 hs split: res.split)
  then show "r = Ok () \<Longrightarrow> head_of X w = Ok (Some h)" "r \<noteq> Ok () \<Longrightarrow> w = v"
    using assms(3) hd1 by (auto simp: head_of_def split: res.splits)
qed

lemma heads_frame_same:
  assumes "w = v\<lparr>d_head := a, d_heads := b\<rparr>"
  shows "load_commit X w = load_commit X v" "load_tree X w = load_tree X v" "has_chunk w = has_chunk v"
    "is_complete X w = is_complete X v" "keeps_loads X v (w\<lparr>d_head := d_head v, d_heads := d_heads v\<rparr>)"
    "cas_ok X w = cas_ok X v" "grows v w"
proof -
  show c: "load_commit X w = load_commit X v" by (rule ext, rule load_commit_cong) (simp_all add: assms)
  show t: "load_tree X w = load_tree X v" by (rule ext, rule load_tree_cong) (simp_all add: assms)
  show k: "has_chunk w = has_chunk v" by (rule ext) (simp add: has_chunk_def assms)
  have o: "has_commit_object w = has_commit_object v" "has_tree_object w = has_tree_object v"
    by (rule ext, simp add: has_commit_object_def has_tree_object_def assms)+
  show "is_complete X w = is_complete X v" by (intro ext) (simp only: is_complete_def c t k o)
  show "keeps_loads X v (w\<lparr>d_head := d_head v, d_heads := d_heads v\<rparr>)" by (simp add: assms kl.refl)
  show "cas_ok X w = cas_ok X v" "grows v w" by (simp_all add: assms cas_ok_def grows_def)
qed

lemma checkpoint_vault: "checkpoint now f s = (r, t) \<Longrightarrow> r = Ok () \<and> (\<exists>job. sr_vault t = persist_job job (sr_vault s))"
  by (auto simp: checkpoint_def modify_def Let_def)

lemma persist_same:
  "load_commit X (persist_job job v) = load_commit X v" "load_tree X (persist_job job v) = load_tree X v"
  "has_chunk (persist_job job v) = has_chunk v" "head_of X (persist_job job v) = head_of X v"
  "is_complete X (persist_job job v) = is_complete X v" "d_head (persist_job job v) = d_head v"
  "d_heads (persist_job job v) = d_heads v" "cas_ok X (persist_job job v) = cas_ok X v" "grows v (persist_job job v)"
proof -
  have sd: "side v (persist_job job v)" by (simp add: side_def core_def persist_job_def)
  note l = loads_side [OF sd] and d = sideD [OF sd]
  show "load_commit X (persist_job job v) = load_commit X v" "load_tree X (persist_job job v) = load_tree X v"
    "head_of X (persist_job job v) = head_of X v" by (rule l)+
  show k: "has_chunk (persist_job job v) = has_chunk v" by (rule ext) (simp add: has_chunk_def d)
  have o: "has_commit_object (persist_job job v) = has_commit_object v" "has_tree_object (persist_job job v) = has_tree_object v"
    by (rule ext, simp add: has_commit_object_def has_tree_object_def d)+
  show "is_complete X (persist_job job v) = is_complete X v" by (intro ext) (simp only: is_complete_def l k o)
  show "d_head (persist_job job v) = d_head v" "d_heads (persist_job job v) = d_heads v"
    "cas_ok X (persist_job job v) = cas_ok X v" "grows v (persist_job job v)"
    by (simp_all add: d cas_ok_def side_grows [OF sd])
qed

lemma bindop_unitE:
  assumes "bindop m f s = (Ok y, u)"
  obtains t where "m s = (Ok (), t)" "f () t = (Ok y, u)"
  using assms by (rule bindop_OkE) simp

text \<open>The phases of a run that ends well.\<close>

definition sync_finish ::
  "ext \<Rightarrow> u64 \<Rightarrow> content_hash \<Rightarrow> bool \<Rightarrow> sync_result sop"
where
  "sync_finish X now target set_hd =
     bindop (if set_hd then on_vault (set_head_public X target) else ret ()) (\<lambda>_.
     bindop (checkpoint now (\<lambda>j. j\<lparr>sj_state := Done\<rparr>)) (\<lambda>_.
     ask (\<lambda>s. Ok \<lparr>sy_target = target, sy_commits_imported = sr_commits s, sy_trees_imported = sr_trees s,
                sy_chunks_imported = sr_chunks s, sy_head_updated = set_hd\<rparr>)))"

lemma sync_body_phases:
  assumes "sync_body X fetch now target set_hd s = (Ok res, t)"
  obtains s1 s2 s3 where "sync_loop X fetch now [target] [] s = (Ok (), s1)"
    "checkpoint now (\<lambda>j. j\<lparr>sj_state := Verifying\<rparr>) s1 = (Ok (), s2)" "is_complete X (sr_vault s2) target = Ok True"
    "(if set_hd then on_vault (set_head_public X target) else ret ()) s2 = (Ok (), s3)"
    "checkpoint now (\<lambda>j. j\<lparr>sj_state := Done\<rparr>) s3 = (Ok (), t)" "sy_head_updated res = set_hd"
proof -
  note body = assms [unfolded sync_body_def sync_finish_def [symmetric]]
  obtain s1 where s1: "sync_loop X fetch now [target] [] s = (Ok (), s1)"
    "bindop (checkpoint now (\<lambda>j. j\<lparr>sj_state := Verifying\<rparr>)) (\<lambda>_.
     bindop (ask (\<lambda>s. is_complete X (sr_vault s) target)) (\<lambda>complete.
       if \<not> complete then fail (Verify ''sync finished but target not complete'')
       else sync_finish X now target set_hd)) s1 = (Ok res, t)"
    using body by (rule bindop_unitE)
  obtain s2 where s2: "checkpoint now (\<lambda>j. j\<lparr>sj_state := Verifying\<rparr>) s1 = (Ok (), s2)"
    "bindop (ask (\<lambda>s. is_complete X (sr_vault s) target)) (\<lambda>complete.
       if \<not> complete then fail (Verify ''sync finished but target not complete'')
       else sync_finish X now target set_hd) s2 = (Ok res, t)"
    using s1(2) by (rule bindop_unitE)
  have fin: "is_complete X (sr_vault s2) target = Ok True" "sync_finish X now target set_hd s2 = (Ok res, t)"
    using s2(2) by (auto simp: bindop_Ok_iff ask_Ok_iff fail_def split: if_splits)
  obtain s3 where s3: "(if set_hd then on_vault (set_head_public X target) else ret ()) s2 = (Ok (), s3)"
    "bindop (checkpoint now (\<lambda>j. j\<lparr>sj_state := Done\<rparr>)) (\<lambda>_.
     ask (\<lambda>s. Ok \<lparr>sy_target = target, sy_commits_imported = sr_commits s, sy_trees_imported = sr_trees s,
                sy_chunks_imported = sr_chunks s, sy_head_updated = set_hd\<rparr>)) s3 = (Ok res, t)"
    using fin(2) unfolding sync_finish_def by (rule bindop_unitE)
  obtain s4 where "checkpoint now (\<lambda>j. j\<lparr>sj_state := Done\<rparr>) s3 = (Ok (), s4)" "s4 = t" "sy_head_updated res = set_hd"
    using s3(2) by (rule bindop_unitE) (auto simp: ask_Ok_iff)
  with that s1(1) s2(1) fin(1) s3(1) show thesis by blast
qed

section \<open>What a fetch achieves\<close>

lemma checkpoint_eq:
  "\<exists>job. checkpoint now f s = (Ok (), s\<lparr>sr_job := job, sr_vault := persist_job job (sr_vault s)\<rparr>)"
  by (auto simp: checkpoint_def modify_def Let_def)

text \<open>\<open>fetched X v w\<close>: \<open>w\<close> has all the objects of \<open>v\<close>, whatever became of the heads.\<close>

definition fetched :: "ext \<Rightarrow> vault \<Rightarrow> vault \<Rightarrow> bool" where
  "fetched X v w \<longleftrightarrow>
     (\<forall>h c. load_commit X v h = Ok c \<longrightarrow> load_commit X w h = Ok c)
   \<and> (\<forall>h t. load_tree X v h = Ok t \<longrightarrow> load_tree X w h = Ok t)
   \<and> grows v w \<and> keeps (cas_ok X) v w"

interpretation fe: evolution "fetched X" for X
  by unfold_locales (auto simp: fetched_def gr.refl keep.refl intro: gr.trans keep.trans)

lemma keeps_loads_iff: "keeps_loads X v w \<longleftrightarrow> fetched X v w \<and> d_head w = d_head v \<and> d_heads w = d_heads v"
  by (auto simp: keeps_loads_def fetched_def)

lemma keeps_loads_fetched: "keeps_loads X v w \<Longrightarrow> fetched X v w"
  by (simp add: keeps_loads_iff)

lemma fetched_heads:
  assumes "keeps_loads X v u" "w = u\<lparr>d_head := a, d_heads := b\<rparr>"
  shows "fetched X v w"
proof -
  note e = heads_frame_same [OF assms(2)]
  have "fetched X u w" unfolding fetched_def keeps_def e(1,2,6) using e(7) by blast
  then show ?thesis by (rule fe.trans [OF keeps_loads_fetched [OF assms(1)]])
qed

lemma sync_body_fetched:
  assumes "sync_body X fetch now target set_hd s = (r, t)"
  shows "fetched X (sr_vault s) (sr_vault t)"
    and "hex_law X \<Longrightarrow> wf_hash target \<Longrightarrow> \<not> (set_hd \<and> is_ok r) \<Longrightarrow> keeps_loads X (sr_vault s) (sr_vault t)"
proof -
  obtain r1 s1 where s1: "sync_loop X fetch now [target] [] s = (r1, s1)" by (cases "sync_loop X fetch now [target] [] s")
  have k1: "keeps_loads X (sr_vault s) (sr_vault s1)"
    using stepsD [OF sync_loop_pulls s1] by (simp add: pulls_def)
  obtain job where s2: "checkpoint now (\<lambda>j. j\<lparr>sj_state := Verifying\<rparr>) s1
      = (Ok (), s1\<lparr>sr_job := job, sr_vault := persist_job job (sr_vault s1)\<rparr>)"
    using checkpoint_eq by blast
  let ?v2 = "persist_job job (sr_vault s1)" and ?s2 = "s1\<lparr>sr_job := job, sr_vault := persist_job job (sr_vault s1)\<rparr>"
  have k2: "keeps_loads X (sr_vault s) ?v2" by (rule kl.trans [OF k1 persist_job_loads])
  show "fetched X (sr_vault s) (sr_vault t)"
    and "hex_law X \<Longrightarrow> wf_hash target \<Longrightarrow> \<not> (set_hd \<and> is_ok r) \<Longrightarrow> keeps_loads X (sr_vault s) (sr_vault t)"
  proof -
    have early: "keeps_loads X (sr_vault s) (sr_vault t)" if "r1 \<noteq> Ok () \<or> is_complete X ?v2 target \<noteq> Ok True"
      using that assms k1 k2
      by (cases r1; cases "is_complete X ?v2 target")
        (auto simp: sync_body_def bindop_def s1 s2 ask_def fail_def split: if_splits simp del: sync_loop.simps)
    have late: "fetched X (sr_vault s) (sr_vault t) \<and> (hex_law X \<and> wf_hash target \<and> \<not> (set_hd \<and> is_ok r) \<longrightarrow>
        keeps_loads X (sr_vault s) (sr_vault t))" if "r1 = Ok ()" "is_complete X ?v2 target = Ok True"
    proof -
      have run: "sync_finish X now target set_hd ?s2 = (r, t)"
        using assms that by (simp add: sync_body_def sync_finish_def bindop_def s1 s2 ask_def del: sync_loop.simps)
      obtain r3 v3 where v3: "(if set_hd then set_head_public X target else ret ()) ?v2 = (r3, v3)"
        by (cases "(if set_hd then set_head_public X target else ret ()) ?v2")
      have fr: "\<exists>a b. v3 = ?v2\<lparr>d_head := a, d_heads := b\<rparr>"
      proof (cases set_hd)
        case True
        then show ?thesis using set_head_public_frame v3 by simp
      next
        case False
        then have "v3 = ?v2\<lparr>d_head := d_head ?v2, d_heads := d_heads ?v2\<rparr>" using v3 by (simp add: ret_def)
        then show ?thesis by blast
      qed
      obtain job2 where t: "if is_ok r3 then sr_vault t = persist_job job2 v3 \<and> is_ok r else sr_vault t = v3 \<and> \<not> is_ok r"
      proof -
        have m: "(if set_hd then on_vault (set_head_public X target) else ret ()) ?s2 = (r3, ?s2\<lparr>sr_vault := v3\<rparr>)"
          using v3 by (auto simp: on_vault_def ret_def split: if_splits)
        obtain job2 where "checkpoint now (\<lambda>j. j\<lparr>sj_state := Done\<rparr>) (?s2\<lparr>sr_vault := v3\<rparr>)
            = (Ok (), (?s2\<lparr>sr_vault := v3\<rparr>)\<lparr>sr_job := job2, sr_vault := persist_job job2 v3\<rparr>)"
          using checkpoint_eq [of now _ "?s2\<lparr>sr_vault := v3\<rparr>"] by auto
        then have "if is_ok r3 then sr_vault t = persist_job job2 v3 \<and> is_ok r else sr_vault t = v3 \<and> \<not> is_ok r"
          using run unfolding sync_finish_def bindop_def m by (cases r3) (auto simp: ask_def)
        then show thesis by (rule that)
      qed
      obtain a b where ab: "v3 = ?v2\<lparr>d_head := a, d_heads := b\<rparr>" using fr by blast
      have "fetched X (sr_vault s) (sr_vault t)"
      proof (cases "is_ok r3")
        case True
        then have "sr_vault t = (persist_job job2 ?v2)\<lparr>d_head := a, d_heads := b\<rparr>"
          using t ab by (simp add: persist_job_def)
        then show ?thesis by (rule fetched_heads [OF kl.trans [OF k2 persist_job_loads]])
      next
        case False
        then show ?thesis using t ab fetched_heads [OF k2] by simp
      qed
      moreover have "keeps_loads X (sr_vault s) (sr_vault t)" if "hex_law X" "wf_hash target" "\<not> (set_hd \<and> is_ok r)"
      proof (cases set_hd)
        case True
        then have no: "\<not> is_ok r3" using t that(3) by (auto split: if_splits)
        then have "v3 = ?v2" using set_head_public_Ok(2) [OF that(1,2)] v3 True by (cases r3) auto
        then show ?thesis using no t k2 by simp
      next
        case False
        then have "is_ok r3 \<and> v3 = ?v2" using v3 by (auto simp: ret_def)
        then show ?thesis using t kl.trans [OF k2 persist_job_loads] by simp
      qed
      ultimately show ?thesis by blast
    qed
    show "fetched X (sr_vault s) (sr_vault t)" using early late keeps_loads_fetched by blast
    show "hex_law X \<Longrightarrow> wf_hash target \<Longrightarrow> \<not> (set_hd \<and> is_ok r) \<Longrightarrow> keeps_loads X (sr_vault s) (sr_vault t)"
      using early late by blast
  qed
qed

text \<open>The chunks an interrupted job claims to have fetched.\<close>

definition claimed :: "u64 \<Rightarrow> content_hash \<Rightarrow> vault \<Rightarrow> content_hash set" where
  "claimed now target v = set (sj_done_chunks (load_or_create_job now target v))"

lemma no_job_claims: "om_get (d_jobs v) target = None \<Longrightarrow> claimed now target v = {}"
  by (simp add: claimed_def load_or_create_job_def sync_job_new_def)

lemma fetch_dag_with_run:
  assumes run: "fetch_dag_with X fetch now target set_hd v = (r, w)" and "is_complete X v target \<noteq> Ok True"
  obtains (failed) "w = v" "\<not> is_ok r"
  | (ran) s t where "keeps_loads X v (sr_vault s)" "set (sj_done_chunks (sr_job s)) = claimed now target v"
      "sync_body X fetch now target set_hd s = (r, t)" "keeps_loads X (sr_vault t) w" "is_ok r \<Longrightarrow> w = sr_vault t"
proof (cases "is_complete X v target")
  case (Ok complete)
  let ?job = "(load_or_create_job now target v)\<lparr>sj_state := Fetching, sj_updated_at := now\<rparr>"
  let ?s = "\<lparr>sr_vault = persist_job ?job v, sr_job = ?job, sr_commits = 0, sr_trees = 0, sr_chunks = 0\<rparr>"
  obtain t where t: "sync_body X fetch now target set_hd ?s = (r, t)"
    "\<exists>job. w = persist_job job (sr_vault t) \<or> w = sr_vault t" "is_ok r \<Longrightarrow> w = sr_vault t"
  proof -
    obtain r1 t where b: "sync_body X fetch now target set_hd ?s = (r1, t)" by (cases "sync_body X fetch now target set_hd ?s")
    have "(case (r1, t) of
              (Err e, s) \<Rightarrow>
                (Err e, persist_job ((sr_job s)\<lparr>sj_state := Failed, sj_error := Some (error_text e), sj_updated_at := now\<rparr>) (sr_vault s))
            | (r, s) \<Rightarrow> (r, sr_vault s)) = (r, w)"
      using run assms(2) Ok by (simp add: fetch_dag_with_def bindop_def ask_def Let_def b)
    then have "r1 = r \<and> (\<exists>job. w = persist_job job (sr_vault t) \<or> w = sr_vault t) \<and> (is_ok r \<longrightarrow> w = sr_vault t)"
      by (cases r1) auto
    then show thesis using that b by blast
  qed
  have "keeps_loads X (sr_vault t) w" using t(2) persist_job_loads kl.refl by metis
  then show thesis using ran [OF _ _ t(1) _ t(3)] persist_job_loads by (simp add: claimed_def)
qed (use run in \<open>auto intro!: failed simp: fetch_dag_with_def bindop_def ask_def\<close>)

text \<open>
  A fetch keeps all that was there, whatever its outcome, and moves the heads only when it
  succeeds and was asked to.
\<close>

lemma fetch_dag_with_keeps:
  assumes "fetch_dag_with X fetch now target set_hd v = (r, w)"
  shows "fetched X v w"
    and "hex_law X \<Longrightarrow> wf_hash target \<Longrightarrow> \<not> (set_hd \<and> is_ok r) \<Longrightarrow> keeps_loads X v w"
proof -
  have "fetched X v w \<and> (hex_law X \<longrightarrow> wf_hash target \<longrightarrow> \<not> (set_hd \<and> is_ok r) \<longrightarrow> keeps_loads X v w)"
  proof (cases "is_complete X v target = Ok True")
    case True
    obtain r1 v1 where m: "(if set_hd then set_head_public X target else ret ()) v = (r1, v1)"
      by (cases "(if set_hd then set_head_public X target else ret ()) v")
    then have o: "w = v1 \<and> is_ok r = is_ok r1"
      using assms True by (cases r1) (auto simp: fetch_dag_with_def bindop_def ask_def ret_def)
    show ?thesis
    proof (cases set_hd)
      case True
      with m set_head_public_frame obtain a b where "v1 = v\<lparr>d_head := a, d_heads := b\<rparr>" by fastforce
      then have "fetched X v w" using fetched_heads [OF kl.refl] o by blast
      moreover have "keeps_loads X v w" if "hex_law X" "wf_hash target" "\<not> is_ok r"
      proof -
        have "r1 \<noteq> Ok ()" using o that by auto
        then have "v1 = v" using set_head_public_Ok(2) [OF that(1,2)] m True by simp
        then show ?thesis using o kl.refl by simp
      qed
      ultimately show ?thesis using True by blast
    next
      case False
      then have "w = v" using m o by (simp add: ret_def)
      then show ?thesis using kl.refl keeps_loads_fetched by blast
    qed
  next
    case False
    from assms this show ?thesis
    proof (cases rule: fetch_dag_with_run)
      case failed
      then show ?thesis using kl.refl keeps_loads_fetched by blast
    next
      case (ran s t)
      note b = sync_body_fetched [OF ran(3)]
      have "fetched X v w"
        using fe.trans [OF fe.trans [OF keeps_loads_fetched [OF ran(1)] b(1)] keeps_loads_fetched [OF ran(4)]] .
      moreover have "keeps_loads X v w" if "hex_law X" "wf_hash target" "\<not> (set_hd \<and> is_ok r)"
        using kl.trans [OF kl.trans [OF ran(1) b(2) [OF that]] ran(4)] .
      ultimately show ?thesis by blast
    qed
  qed
  then show "fetched X v w"
    and "hex_law X \<Longrightarrow> wf_hash target \<Longrightarrow> \<not> (set_hd \<and> is_ok r) \<Longrightarrow> keeps_loads X v w"
    by blast+
qed

text \<open>
  A fetch that succeeds ends with the target complete and, when asked to, as the head. Unless the
  target was complete before, its whole graph is there: every commit reachable from it loads with
  its tree, and each of its chunks is stored, or was claimed by the job that was resumed.
\<close>

lemma fetch_dag_with_Ok:
  assumes laws: "hex_law X" "wf_hash target" and run: "fetch_dag_with X fetch now target set_hd v = (Ok res, w)"
  shows "is_complete X w target = Ok True" "sy_head_updated res = set_hd"
    "set_hd \<Longrightarrow> head_of X w = Ok (Some target)"
    "is_complete X v target \<noteq> Ok True \<Longrightarrow> reach X w {target} h \<Longrightarrow>
      \<exists>S. arrived X (claimed now target v) w h S"
proof -
  have "is_complete X w target = Ok True \<and> sy_head_updated res = set_hd \<and> (set_hd \<longrightarrow> head_of X w = Ok (Some target))
    \<and> (is_complete X v target \<noteq> Ok True \<longrightarrow> reach X w {target} h \<longrightarrow> (\<exists>S. arrived X (claimed now target v) w h S))"
  proof (cases "is_complete X v target = Ok True")
    case True
    then have m: "(if set_hd then set_head_public X target else ret ()) v = (Ok (), w)" "sy_head_updated res = set_hd"
      using run by (auto simp: fetch_dag_with_def bindop_Ok_iff ask_Ok_iff ret_def)
    show ?thesis
    proof (cases set_hd)
      case hd: True
      with m have s: "set_head_public X target v = (Ok (), w)" by simp
      then obtain a b where "w = v\<lparr>d_head := a, d_heads := b\<rparr>" using set_head_public_frame by blast
      then have "is_complete X w = is_complete X v" by (rule heads_frame_same(4))
      then show ?thesis using True m set_head_public_Ok(1) [OF laws s refl] by simp
    next
      case False
      then show ?thesis using True m by (simp add: ret_def)
    qed
  next
    case False
    from run this obtain s t where r: "keeps_loads X v (sr_vault s)" "set (sj_done_chunks (sr_job s)) = claimed now target v"
      "sync_body X fetch now target set_hd s = (Ok res, t)" "w = sr_vault t"
      by (cases rule: fetch_dag_with_run) auto
    from r(3) obtain s1 s2 s3 where ph: "sync_loop X fetch now [target] [] s = (Ok (), s1)"
      "checkpoint now (\<lambda>j. j\<lparr>sj_state := Verifying\<rparr>) s1 = (Ok (), s2)" "is_complete X (sr_vault s2) target = Ok True"
      "(if set_hd then on_vault (set_head_public X target) else ret ()) s2 = (Ok (), s3)"
      "checkpoint now (\<lambda>j. j\<lparr>sj_state := Done\<rparr>) s3 = (Ok (), t)" "sy_head_updated res = set_hd"
      by (rule sync_body_phases)
    obtain j1 j2 where j: "sr_vault s2 = persist_job j1 (sr_vault s1)" "sr_vault t = persist_job j2 (sr_vault s3)"
      using checkpoint_vault [OF ph(2)] checkpoint_vault [OF ph(5)] by blast
    have "set_hd \<longrightarrow> set_head_public X target (sr_vault s2) = (Ok (), sr_vault s3)"
      using ph(4) by (auto simp: on_vault_def split: prod.splits)
    moreover have "\<exists>a b. sr_vault s3 = (sr_vault s2)\<lparr>d_head := a, d_heads := b\<rparr>"
    proof (cases set_hd)
      case False
      then have "sr_vault s3 = (sr_vault s2)\<lparr>d_head := d_head (sr_vault s2), d_heads := d_heads (sr_vault s2)\<rparr>"
        using ph(4) by (simp add: ret_def)
      then show ?thesis by blast
    qed (use calculation set_head_public_frame in blast)
    ultimately have hd: "set_hd \<longrightarrow> head_of X (sr_vault s3) = Ok (Some target)"
      and fr: "\<exists>a b. sr_vault s3 = (sr_vault s2)\<lparr>d_head := a, d_heads := b\<rparr>"
      using set_head_public_Ok(1) [OF laws] by blast+
    obtain a b where ab: "sr_vault s3 = (sr_vault s2)\<lparr>d_head := a, d_heads := b\<rparr>" using fr by blast
    have same: "load_commit X w = load_commit X (sr_vault s1)" "load_tree X w = load_tree X (sr_vault s1)"
      "has_chunk w = has_chunk (sr_vault s1)" "is_complete X w = is_complete X (sr_vault s2)"
      unfolding r(4) j(2) persist_same heads_frame_same(1-4) [OF ab] unfolding j(1) persist_same by (rule refl)+
    have "claims_ok (claimed now target v) s" using r(2) by (auto simp: claims_ok_def)
    from sync_loop_arrives [OF ph(1) this] obtain V where V: "target \<in> V"
      "\<forall>k\<in>V. arrived X (claimed now target v) (sr_vault s1) k V" by auto
    have arr: "arrived X (claimed now target v) w k V" if "k \<in> V" for k
      using V(2) that unfolding arrived_def same by blast
    have "parents_in X w V V" unfolding parents_in_def using arr unfolding arrived_def by fastforce
    then have "reach X w {target} h \<Longrightarrow> h \<in> V" using reach_least V(1) by (metis empty_subsetI insert_subset)
    then show ?thesis using arr ph(3,6) same(4) hd by (auto simp: r(4) j(2) persist_same)
  qed
  then show "is_complete X w target = Ok True" "sy_head_updated res = set_hd"
    "set_hd \<Longrightarrow> head_of X w = Ok (Some target)"
    "is_complete X v target \<noteq> Ok True \<Longrightarrow> reach X w {target} h \<Longrightarrow>
      \<exists>S. arrived X (claimed now target v) w h S"
    by blast+
qed

section \<open>Writes of a fetch\<close>

text \<open>What the writes of a vault respect, a fetch respects: the relation is lifted to the run.\<close>

sublocale object_writes \<subseteq> run: evolution "\<lambda>s t. R (sr_vault s) (sr_vault t)"
  by unfold_locales (auto intro: refl trans)

lemma steps_if_state: "steps R m \<Longrightarrow> steps R n \<Longrightarrow> steps R (\<lambda>s. if p s then m s else n s)"
  by (simp add: steps_def)

context object_writes
begin

lemma on_vault_steps: "steps R m \<Longrightarrow> steps (\<lambda>s t. R (sr_vault s) (sr_vault t)) (on_vault m)"
  by (rule stepsI) (auto simp: on_vault_def split: prod.splits dest: stepsD)

lemma persist_steps: "R v (persist_job job v)"
  by (rule side_write) (simp add: side_def core_def persist_job_def)

lemma checkpoint_steps: "steps (\<lambda>s t. R (sr_vault s) (sr_vault t)) (checkpoint now f)"
  unfolding checkpoint_def by (rule steps_modify) (simp add: Let_def persist_steps)

lemma count_steps: "(\<And>s. sr_vault (f s) = sr_vault s) \<Longrightarrow> steps (\<lambda>s t. R (sr_vault s) (sr_vault t)) (modify f)"
  by (rule steps_modify) (simp add: refl)

lemma fetch_import_steps:
  "(\<And>d. steps R (imp h d)) \<Longrightarrow> steps (\<lambda>s t. R (sr_vault s) (sr_vault t)) (fetch_import fetch h imp)"
  unfolding fetch_import_def by (auto intro!: run.steps_intros on_vault_steps)

lemmas run_steps = run.steps_intros steps_if_state checkpoint_steps fetch_import_steps count_steps object_steps

lemma sync_commit_steps: "steps (\<lambda>s t. R (sr_vault s) (sr_vault t)) (sync_commit X fetch now c)"
  unfolding sync_commit_def by (intro run_steps) simp_all

lemma sync_tree_steps: "steps (\<lambda>s t. R (sr_vault s) (sr_vault t)) (sync_tree X fetch now th)"
  unfolding sync_tree_def by (intro run_steps) simp_all

lemma mark_chunk_steps: "steps (\<lambda>s t. R (sr_vault s) (sr_vault t)) (mark_chunk now ch)"
proof (rule stepsI)
  fix s r t
  assume "mark_chunk now ch s = (r, t)"
  then show "R (sr_vault s) (sr_vault t)"
    by (auto simp: mark_chunk_def Let_def ret_def refl split: if_splits dest!: stepsD [OF checkpoint_steps])
qed

lemma sync_chunk_steps: "steps (\<lambda>s t. R (sr_vault s) (sr_vault t)) (sync_chunk X fetch now ch acc)"
  unfolding sync_chunk_def chunk_arrives_def by (intro run_steps mark_chunk_steps) simp_all

lemma sync_chunks_steps: "steps (\<lambda>s t. R (sr_vault s) (sr_vault t)) (for_op (sync_chunk X fetch now) chs acc)"
  by (intro run.steps_for sync_chunk_steps)

lemma sync_loop_steps_eq:
  "Y = X \<Longrightarrow> steps (\<lambda>s t. R (sr_vault s) (sr_vault t)) (sync_loop Y fetch now queue visited)"
proof (induction Y fetch now queue visited rule: sync_loop.induct)
  case (2 Y fetch now c queue visited)
  then show ?case
    by (simp add: run.steps_fail sync_commit_steps sync_tree_steps sync_chunks_steps run.steps_bindI)
qed (simp add: run.steps_ret)

lemmas sync_loop_steps = sync_loop_steps_eq [OF HOL.refl]

lemma sync_body_steps: "steps (\<lambda>s t. R (sr_vault s) (sr_vault t)) (sync_body X fetch now target set_hd)"
  unfolding sync_body_def
  by (intro run_steps sync_loop_steps) (auto intro!: run_steps on_vault_steps)

lemma fetch_dag_with_steps: "steps R (fetch_dag_with X fetch now target set_hd)"
  unfolding fetch_dag_with_def
proof (intro steps_bindI steps_ask steps_if steps_ret object_steps stepsI)
  fix v r w
  assume run: "(let job = (load_or_create_job now target v)\<lparr>sj_state := Fetching, sj_updated_at := now\<rparr>;
             s = \<lparr>sr_vault = persist_job job v, sr_job = job, sr_commits = 0, sr_trees = 0, sr_chunks = 0\<rparr>
         in case sync_body X fetch now target set_hd s of
              (Err e, s) \<Rightarrow>
                (Err e, persist_job ((sr_job s)\<lparr>sj_state := Failed, sj_error := Some (error_text e), sj_updated_at := now\<rparr>) (sr_vault s))
            | (r, s) \<Rightarrow> (r, sr_vault s)) = (r, w)"
  let ?job = "(load_or_create_job now target v)\<lparr>sj_state := Fetching, sj_updated_at := now\<rparr>"
  let ?s = "\<lparr>sr_vault = persist_job ?job v, sr_job = ?job, sr_commits = 0, sr_trees = 0, sr_chunks = 0\<rparr>"
  obtain r1 t where b: "sync_body X fetch now target set_hd ?s = (r1, t)" by (cases "sync_body X fetch now target set_hd ?s")
  have "R v (sr_vault t)" using trans [OF persist_steps] stepsD [OF sync_body_steps b] by simp
  moreover have "\<exists>job. w = persist_job job (sr_vault t) \<or> w = sr_vault t"
    using run b by (cases r1) (auto simp: Let_def)
  ultimately show "R v w" using trans persist_steps by blast
qed

lemma fetch_dag_steps: "steps R (fetch_dag X T peers now target set_hd)"
  unfolding fetch_dag_def by (intro steps_if steps_fail fetch_dag_with_steps)

end

end
