(* ===== verification/Health.thy ===== *)
theory Health
  imports Network
begin

text \<open>
  Health reports and differences of commits (\<open>src/src/health.rs\<close>). A report accumulates a level and
  a list of checks; it is shown that the level is the worst of the checks and what makes it
  critical or clean. \<open>assess_vault\<close> may seed the policy file, so it is an operation on the vault, and
  the cluster's report is one on the base directory.
\<close>

section \<open>Reports\<close>

datatype health_level = Fine | Warn | Crit

record health_check =
  hc_name :: string
  hc_level :: health_level
  hc_message :: string

fun worst :: "health_level \<Rightarrow> health_level \<Rightarrow> health_level" where
  "worst Crit _ = Crit"
| "worst _ Crit = Crit"
| "worst Warn _ = Warn"
| "worst _ Warn = Warn"
| "worst Fine Fine = Fine"

type_synonym report = "health_level \<times> health_check list"

text \<open>
  \<open>level = worst(level, l); checks.push(HealthCheck { ... })\<close>. For \<open>Fine\<close> the code leaves the level alone,
  which is the same.
\<close>

definition push_check :: "string \<Rightarrow> health_level \<Rightarrow> string \<Rightarrow> report \<Rightarrow> report" where
  "push_check name l msg = (\<lambda>(level, checks). (worst level l, checks @ [\<lparr>hc_name = name, hc_level = l, hc_message = msg\<rparr>]))"

definition push_if :: "bool \<Rightarrow> string \<Rightarrow> health_level \<Rightarrow> string \<Rightarrow> report \<Rightarrow> report" where
  "push_if b name l msg r = (if b then push_check name l msg r else r)"

record policy_snapshot =
  sp_snapshot_interval_secs :: u64
  sp_live_mode :: bool
  sp_retain_snapshots :: u64
  sp_max_head_age_secs :: u64
  sp_secs_until_auto_snapshot :: "u64 option"
  sp_last_auto_snapshot_at :: u64

record vault_health =
  vh_vault :: string
  vh_vault_id :: string
  vh_level :: health_level
  vh_head :: "string option"
  vh_head_age_secs :: "u64 option"
  vh_encryption :: bool
  vh_key_wrapped :: bool
  vh_members :: nat
  vh_config_seq :: u64
  vh_config_signed :: bool
  vh_complete :: bool
  vh_file_count :: nat
  vh_chunk_count :: nat
  vh_alternate_heads :: nat
  vh_replication :: replication_info
  vh_policy :: policy_snapshot
  vh_checks :: "health_check list"

section \<open>One vault\<close>

text \<open>What the report has of the head: hex, age, completeness and the number of files.\<close>

type_synonym head_facts = "string option \<times> u64 option \<times> bool \<times> nat"

definition assess_head :: "ext \<Rightarrow> vault \<Rightarrow> policy \<Rightarrow> u64 \<Rightarrow> content_hash option \<Rightarrow> report \<Rightarrow> (head_facts \<times> report) result" where
  "assess_head X v pol now head r = (case head of
     None \<Rightarrow> Ok ((None, None, True, 0), push_check ''head'' Warn ''no commits yet'' r)
   | Some h \<Rightarrow>
       tryr (load_commit X v h) (\<lambda>c.
       let age = sat_sub now (c_timestamp c) in
       tryr (is_complete X v h) (\<lambda>complete.
       tryr (load_tree X v (c_tree c)) (\<lambda>t.
       let r = push_if (\<not> complete) ''completeness'' Crit ''HEAD is incomplete (missing tree/chunks)'' r in
       tryr (head_stale X v pol now) (\<lambda>stale.
       let r = push_if stale ''head_age'' Warn (''HEAD is '' @ dec_string (unat age) @ ''s old (policy max ''
                 @ dec_string (unat (pl_max_head_age_secs pol)) @ '')'') r
       in Ok ((Some (to_hex X h), Some age, complete, length (entries t)), r))))))"

definition assess_replication :: "replication_info \<Rightarrow> report \<Rightarrow> report" where
  "assess_replication repl r =
     push_if (0 < ri_under_replicated repl \<and> 1 < ri_min_replicas repl) ''replication'' Warn
       (''~'' @ dec_string (ri_under_replicated repl) @ '' chunks under min_replicas='' @ dec_string (unat (ri_min_replicas repl)))
     (push_if (0 < ri_missing_local repl) ''local_chunks'' Crit
       (dec_string (ri_missing_local repl) @ '' live chunks missing locally'') r)"

definition assess_config :: "vault_config \<Rightarrow> report \<Rightarrow> report" where
  "assess_config c r =
     push_if (vc_config_sig c = None) ''config_sig'' Warn ''vault config is unsigned''
     (if vc_encryption_enabled c \<and> vc_key_wrapped c then push_check ''key'' Fine ''passphrase-wrapped vault key'' r
      else push_if (vc_encryption_enabled c) ''key'' Fine ''encryption on (plaintext vault.key on disk)'' r)"

text \<open>The message on alternate heads has an em dash, three bytes of UTF-8.\<close>

definition assess_alternates :: "nat \<Rightarrow> report \<Rightarrow> report" where
  "assess_alternates alts =
     push_if (0 < alts) ''multi_head'' Warn
       (dec_string alts @ '' alternate head(s) '' @ [CHR 0xE2, CHR 0x80, CHR 0x94] @ '' merge recommended'')"

definition assess_overall :: "report \<Rightarrow> report" where
  "assess_overall r = push_if (snd r = []) ''overall'' Fine ''healthy'' r"

definition or_default :: "'a \<Rightarrow> ('s, 'e, 'a) op \<Rightarrow> ('s, 'e, 'a) op" where
  "or_default d m = bindop (attempt m) (\<lambda>r. ret (case r of Ok x \<Rightarrow> x | _ \<Rightarrow> d))"

definition health_of ::
  "vault \<Rightarrow> u64 \<Rightarrow> policy \<Rightarrow> policy_state \<Rightarrow> replication_info \<Rightarrow> head_facts \<Rightarrow> report \<Rightarrow> nat \<Rightarrow> vault_health"
where
  "health_of v now pol st repl = (\<lambda>(head_hexs, head_age, complete, file_count) r alts.
     let c = v_config v;
         (level, checks) = assess_overall (assess_alternates alts (assess_config c (assess_replication repl r)))
     in \<lparr>vh_vault = v_name v, vh_vault_id = vc_vault_id c, vh_level = level, vh_head = head_hexs,
         vh_head_age_secs = head_age, vh_encryption = vc_encryption_enabled c, vh_key_wrapped = vc_key_wrapped c,
         vh_members = length (vc_members c), vh_config_seq = vc_config_seq c,
         vh_config_signed = (vc_config_sig c \<noteq> None), vh_complete = complete, vh_file_count = file_count,
         vh_chunk_count = chunk_count v, vh_alternate_heads = alts, vh_replication = repl,
         vh_policy = \<lparr>sp_snapshot_interval_secs = pl_snapshot_interval_secs pol, sp_live_mode = pl_live_mode pol,
           sp_retain_snapshots = pl_retain_snapshots pol, sp_max_head_age_secs = pl_max_head_age_secs pol,
           sp_secs_until_auto_snapshot = secs_until_snapshot pol st now,
           sp_last_auto_snapshot_at = ps_last_auto_snapshot_at st\<rparr>,
         vh_checks = checks\<rparr>)"

definition assess_vault :: "ext \<Rightarrow> u64 \<Rightarrow> vault_health vop" where
  "assess_vault X now =
     bindop (or_default policy_default load_policy) (\<lambda>pol.
     bindop (or_default policy_state_default (ask load_state)) (\<lambda>st.
     bindop (ask (replication_status X)) (\<lambda>repl.
     bindop (ask (head_of X)) (\<lambda>head.
     bindop (ask (\<lambda>v. assess_head X v pol now head (Fine, []))) (\<lambda>(facts, r).
     bindop (ask (list_heads X)) (\<lambda>heads.
       ask (\<lambda>v. Ok (health_of v now pol st repl facts r (length heads - 1)))))))))"

section \<open>The cluster\<close>

record peer_summary =
  sm_peer :: string
  sm_alive :: "bool option"
  sm_last_seen_secs_ago :: "u64 option"
  sm_rtt_ms :: "u64 option"

record cluster_health =
  ch_level :: health_level
  ch_node_id :: "string option"
  ch_peer_count :: nat
  ch_peers_alive :: nat
  ch_peers_dead :: nat
  ch_peer_details :: "peer_summary list"
  ch_vault_count :: nat
  ch_vaults :: "vault_health list"
  ch_checks :: "health_check list"

definition summarise_peer :: "u64 \<Rightarrow> peer_health \<Rightarrow> string \<Rightarrow> peer_summary" where
  "summarise_peer now h peer =
     \<lparr>sm_peer = peer, sm_alive = om_get (hs_alive h) peer,
      sm_last_seen_secs_ago = map_option (sat_sub now) (om_get (hs_last_seen h) peer),
      sm_rtt_ms = om_get (hs_rtt_ms h) peer\<rparr>"

definition count_alive :: "bool \<Rightarrow> peer_summary list \<Rightarrow> nat" where
  "count_alive b ps = length (filter (\<lambda>p. sm_alive p = Some b) ps)"

text \<open>\<open>home\<close> and \<open>rid\<close> are what opening a vault reads and draws.\<close>

definition assess_named ::
  "ext \<Rightarrow> u64 \<Rightarrow> string json_file \<Rightarrow> (string \<Rightarrow> bytes) \<Rightarrow> string \<Rightarrow> report \<times> vault_health list
    \<Rightarrow> (base_dir, soal_error, report \<times> vault_health list) op"
where
  "assess_named X now home rid name = (\<lambda>(r, vaults) base.
     case open_vault X (rid name) home name (om_get base name) of
       Ok v \<Rightarrow>
         (case assess_vault X now v of
            (Ok h, v) \<Rightarrow> (Ok ((worst (fst r) (vh_level h), snd r), vaults @ [h]), om_insert name v base)
          | (Err e, v) \<Rightarrow> (Ok (push_check (''vault:'' @ name) Crit (error_text e) r, vaults), om_insert name v base)
          | (Panic, v) \<Rightarrow> (Panic, om_insert name v base))
     | Err e \<Rightarrow> (Ok (push_check (''vault:'' @ name) Warn (''could not open: '' @ error_text e) r, vaults), base)
     | Panic \<Rightarrow> (Panic, base))"

definition assess_peers :: "u64 \<Rightarrow> string list \<Rightarrow> peer_health option \<Rightarrow> peer_summary list" where
  "assess_peers now peer_ids health = (case health of None \<Rightarrow> [] | Some h \<Rightarrow> map (summarise_peer now h) peer_ids)"

definition assess_cluster_with_peers ::
  "ext \<Rightarrow> u64 \<Rightarrow> string json_file \<Rightarrow> (string \<Rightarrow> bytes) \<Rightarrow> string option \<Rightarrow> nat \<Rightarrow> string list \<Rightarrow> peer_health option
    \<Rightarrow> (base_dir, soal_error, cluster_health) op"
where
  "assess_cluster_with_peers X now home rid node_id peer_count peer_ids health = (\<lambda>base.
     let names = list_vaults base;
         details = assess_peers now peer_ids health;
         alive = count_alive True details; dead = count_alive False details;
         r = push_if (0 < dead) ''peer_liveness'' Warn (dec_string dead @ '' peer(s) failed last probe'') (Fine, []);
         r = push_if (peer_count = 0) ''peers'' Warn ''no peers configured'' r
     in bindop (for_op (assess_named X now home rid) names (r, [])) (\<lambda>(r, vaults).
          let (level, checks) = push_if (names = []) ''vaults'' Warn ''no vaults'' r
          in ret \<lparr>ch_level = level, ch_node_id = node_id, ch_peer_count = peer_count, ch_peers_alive = alive,
                 ch_peers_dead = dead, ch_peer_details = details, ch_vault_count = length names,
                 ch_vaults = vaults, ch_checks = checks\<rparr>) base)"

definition assess_cluster ::
  "ext \<Rightarrow> u64 \<Rightarrow> string json_file \<Rightarrow> (string \<Rightarrow> bytes) \<Rightarrow> string option \<Rightarrow> nat \<Rightarrow> (base_dir, soal_error, cluster_health) op"
where
  "assess_cluster X now home rid node_id peer_count =
     assess_cluster_with_peers X now home rid node_id peer_count [] None"

fun level_debug :: "health_level \<Rightarrow> string" where
  "level_debug Fine = ''Ok''" | "level_debug Warn = ''Warn''" | "level_debug Crit = ''Crit''"

definition format_vault_health :: "vault_health \<Rightarrow> string" where
  "format_vault_health h =
     (let head = (case vh_head h of Some s \<Rightarrow> s | None \<Rightarrow> ''(none)'');
          head_short = (if length head > 12 then take 12 head else head)
      in ''['' @ level_debug (vh_level h) @ ''] '' @ vh_vault h @ '' files='' @ dec_string (vh_file_count h)
         @ '' chunks='' @ dec_string (vh_chunk_count h) @ '' head='' @ head_short @ '' repl_under''
         @ [CHR 0xE2, CHR 0x89, CHR 0x88] @ dec_string (ri_under_replicated (vh_replication h))
         @ '' alts='' @ dec_string (vh_alternate_heads h))"

section \<open>Differences\<close>

record tree_diff =
  td_from :: string
  td_to :: string
  td_added :: "string list"
  td_removed :: "string list"
  td_changed :: "string list"

fun diff_step :: "tree \<Rightarrow> string \<times> tree_entry \<Rightarrow> string list \<times> string list \<Rightarrow> string list \<times> string list" where
  "diff_step ta (path, entry) (added, changed) =
     (case om_get (entries ta) path of
        None \<Rightarrow> (added @ [path], changed)
      | Some old \<Rightarrow> if old \<noteq> entry then (added, changed @ [path]) else (added, changed))"

definition diff_trees :: "tree \<Rightarrow> tree \<Rightarrow> string list \<times> string list \<times> string list" where
  "diff_trees ta tb =
     (let (added, changed) = fold (diff_step ta) (entries tb) ([], []);
          removed = filter (\<lambda>path. \<not> om_mem (entries tb) path) (om_keys (entries ta))
      in (sort added, sort removed, sort changed))"

definition diff_commits :: "ext \<Rightarrow> vault \<Rightarrow> content_hash \<Rightarrow> content_hash \<Rightarrow> tree_diff result" where
  "diff_commits X v from to =
     tryr (load_commit X v from) (\<lambda>ca.
     tryr (load_commit X v to) (\<lambda>cb.
     tryr (load_tree X v (c_tree ca)) (\<lambda>ta.
     tryr (load_tree X v (c_tree cb)) (\<lambda>tb.
       let (added, removed, changed) = diff_trees ta tb
       in Ok \<lparr>td_from = to_hex X from, td_to = to_hex X to, td_added = added, td_removed = removed,
              td_changed = changed\<rparr>))))"

section \<open>The level of a report\<close>

definition rank :: "health_level \<Rightarrow> nat" where
  "rank l = (case l of Fine \<Rightarrow> 0 | Warn \<Rightarrow> 1 | Crit \<Rightarrow> 2)"

lemma rank_inject [simp]: "rank a = rank b \<longleftrightarrow> a = b"
  by (cases a; cases b) (simp_all add: rank_def)

lemma rank_worst: "rank (worst a b) = max (rank a) (rank b)"
  by (cases a; cases b) (simp_all add: rank_def)

lemma worst_simps [simp]:
  "worst l Fine = l" "worst Fine l = l" "worst l Crit = Crit" "worst Crit l = Crit"
  "worst a b = Crit \<longleftrightarrow> a = Crit \<or> b = Crit" "worst a b = Fine \<longleftrightarrow> a = Fine \<and> b = Fine"
  by (cases l; simp; fail)+ (cases a; cases b; simp)+

text \<open>The level is the worst of the checks.\<close>

definition fair :: "report \<Rightarrow> bool" where
  "fair r \<longleftrightarrow> fst r = foldr worst (map hc_level (snd r)) Fine"

lemma foldr_worst_snoc: "foldr worst ls l = worst (foldr worst ls Fine) l"
proof (induction ls)
  case (Cons a ls)
  have "worst a (worst b c) = worst (worst a b) c" for b c by (cases a; cases b; cases c) simp_all
  then show ?case using Cons by simp
qed simp

lemma fair_push: "fair r \<Longrightarrow> fair (push_if b name l msg r)" "fair r \<Longrightarrow> fair (push_check name l msg r)"
  by (auto simp: fair_def push_if_def push_check_def foldr_worst_snoc [of _ l] split: prod.splits)

lemma push_if_level: "fst (push_if b name l msg r) = worst (fst r) (if b then l else Fine)"
  by (simp add: push_if_def push_check_def split: prod.split)

lemma push_check_level: "fst (push_check name l msg r) = worst (fst r) l"
  by (simp add: push_check_def split: prod.split)

lemmas level_simps = push_if_level push_check_level

lemma or_default_run:
  assumes "or_default d m s = (Ok x, t)"
  obtains r where "m s = (r, t)" "x = (case r of Ok y \<Rightarrow> y | _ \<Rightarrow> d)"
  using assms by (auto simp: or_default_def bindop_def attempt_def ret_def split: prod.splits res.splits)

lemma assess_head_level:
  assumes "assess_head X v pol now head (Fine, []) = Ok ((hs, age, complete, n), r)"
  shows "fair r \<and> (fst r = Crit \<longleftrightarrow> \<not> complete)
    \<and> (fst r = Fine \<longleftrightarrow> complete \<and> head \<noteq> None \<and> head_stale X v pol now = Ok False)"
proof (cases head)
  case None
  then show ?thesis using assms by (auto simp: assess_head_def fair_def push_check_def)
next
  case (Some h)
  have f: "fair (Fine, [])" by (simp add: fair_def)
  from assms Some obtain stale where st: "head_stale X v pol now = Ok stale"
    and r: "r = push_if stale ''head_age'' Warn (''HEAD is '' @ dec_string (unat (the age)) @ ''s old (policy max ''
                 @ dec_string (unat (pl_max_head_age_secs pol)) @ '')'')
        (push_if (\<not> complete) ''completeness'' Crit ''HEAD is incomplete (missing tree/chunks)'' (Fine, []))"
    by (auto simp: assess_head_def Let_def elim!: tryr_OkE)
  then show ?thesis using Some fair_push(1) f by (auto simp: level_simps)
qed

text \<open>
  A vault is critical exactly when its head is incomplete or a live chunk is missing, and clean
  exactly when it has a complete head that is not stale, enough replicas, a signed
  configuration and no other heads.
\<close>

lemma assess_vault_run:
  assumes "assess_vault X now v = (Ok h, w)"
  obtains pol st repl hd hs age complete n r heads alts where
    "or_default policy_default load_policy v = (Ok pol, w)" "replication_status X w = Ok repl" "head_of X w = Ok hd"
    "assess_head X w pol now hd (Fine, []) = Ok ((hs, age, complete, n), r)" "list_heads X w = Ok heads" "alts = length heads - 1"
    "h = health_of w now pol st repl (hs, age, complete, n) r alts"
proof -
  have st: "or_default policy_state_default (ask load_state) u = (Ok st, u') \<Longrightarrow> u' = u" for u u' st
    by (auto simp: or_default_def bindop_def attempt_def ask_def ret_def split: res.splits)
  show thesis
    using assms that
    by (fastforce simp: assess_vault_def bindop_Ok_iff ask_Ok_iff split: prod.splits dest!: st)
qed

lemma assess_head_complete:
  "assess_head X v pol now head r = Ok ((hs, age, complete, n), r') \<Longrightarrow>
    (case head of None \<Rightarrow> complete | Some k \<Rightarrow> is_complete X v k = Ok complete)"
  by (auto simp: assess_head_def Let_def split: option.splits elim!: tryr_OkE)

text \<open>What the counts of the replication status count.\<close>

lemma replication_status_counts:
  assumes "replication_status X v = Ok repl"
  shows "0 < ri_missing_local repl \<longleftrightarrow> (\<exists>ch. live_chunk X v {k. live_commit X v k} ch \<and> \<not> has_chunk v ch)"
    and "0 < ri_under_replicated repl \<longleftrightarrow>
      (\<exists>ch. live_chunk X v {k. live_commit X v k} ch \<and> estimated_replicas X v ch < unat (vc_min_replicas (v_config v)))"
    and "ri_min_replicas repl = vc_min_replicas (v_config v)"
proof -
  obtain live where live: "live_chunk_hashes X v = Ok live"
    and repl: "ri_missing_local repl = length (filter (\<lambda>h. \<not> has_chunk v h) live)"
      "ri_under_replicated repl = length (filter (\<lambda>h. estimated_replicas X v h < unat (vc_min_replicas (v_config v))) live)"
    and min: "ri_min_replicas repl = vc_min_replicas (v_config v)"
    using assms by (auto simp: replication_status_def Let_def elim!: tryr_OkE)
  note set_live = live_chunks_from_roots [OF live [unfolded live_chunk_hashes_def]]
  show "0 < ri_missing_local repl \<longleftrightarrow> (\<exists>ch. live_chunk X v {k. live_commit X v k} ch \<and> \<not> has_chunk v ch)"
    "0 < ri_under_replicated repl \<longleftrightarrow>
      (\<exists>ch. live_chunk X v {k. live_commit X v k} ch \<and> estimated_replicas X v ch < unat (vc_min_replicas (v_config v)))"
    by (auto simp: repl filter_empty_conv set_live)
  show "ri_min_replicas repl = vc_min_replicas (v_config v)" by (rule min)
qed

abbreviation policy_or_default :: "vault \<Rightarrow> policy" where
  "policy_or_default v \<equiv> (case fst (load_policy v) of Ok pol \<Rightarrow> pol | _ \<Rightarrow> policy_default)"

lemma assess_vault_level:
  assumes "assess_vault X now v = (Ok h, w)"
  shows "vh_level h = foldr worst (map hc_level (vh_checks h)) Fine"
    and "vh_level h = Crit \<longleftrightarrow> (\<exists>k. head_of X w = Ok (Some k) \<and> is_complete X w k \<noteq> Ok True)
      \<or> (\<exists>ch. live_chunk X w {k. live_commit X w k} ch \<and> \<not> has_chunk w ch)"
    and "vh_level h = Fine \<longleftrightarrow> (\<exists>k. head_of X w = Ok (Some k) \<and> is_complete X w k = Ok True)
      \<and> (\<forall>ch. live_chunk X w {k. live_commit X w k} ch \<longrightarrow> has_chunk w ch
          \<and> (1 < vc_min_replicas (v_config w) \<longrightarrow> unat (vc_min_replicas (v_config w)) \<le> estimated_replicas X w ch))
      \<and> vc_config_sig (v_config w) \<noteq> None \<and> (\<exists>hs. list_heads X w = Ok hs \<and> length hs \<le> 1)
      \<and> head_stale X w (policy_or_default v) now = Ok False"
    and "side v w"
proof -
  from assms obtain pol st repl hd hs age complete n r heads alts where g:
    "or_default policy_default load_policy v = (Ok pol, w)" "replication_status X w = Ok repl" "head_of X w = Ok hd"
    "assess_head X w pol now hd (Fine, []) = Ok ((hs, age, complete, n), r)" "list_heads X w = Ok heads" "alts = length heads - 1"
    "h = health_of w now pol st repl (hs, age, complete, n) r alts"
    by (rule assess_vault_run)
  obtain x where x: "load_policy v = (x, w)" "pol = (case x of Ok y \<Rightarrow> y | _ \<Rightarrow> policy_default)"
    using g(1) by (rule or_default_run)
  then have pol: "policy_or_default v = pol" by simp
  show "side v w" by (rule stepsD [OF load_policy_side x(1)])
  note hl = assess_head_level [OF g(4)] and hc = assess_head_complete [OF g(4)] and counts = replication_status_counts [OF g(2)]
  let ?r = "assess_overall (assess_alternates alts (assess_config (v_config w) (assess_replication repl r)))"
  have f: "fair ?r"
    using hl by (simp add: assess_overall_def assess_alternates_def assess_config_def assess_replication_def fair_push)
  have e: "vh_level h = fst ?r" "vh_checks h = snd ?r"
    by (simp_all add: g(7) health_of_def Let_def split: prod.split)
  have l: "fst ?r = worst (worst (worst (worst (worst (fst r) (if 0 < ri_missing_local repl then Crit else Fine))
      (if 0 < ri_under_replicated repl \<and> 1 < ri_min_replicas repl then Warn else Fine)) Fine)
      (if vc_config_sig (v_config w) = None then Warn else Fine)) (if 0 < alts then Warn else Fine)"
    by (simp add: assess_overall_def assess_alternates_def assess_config_def assess_replication_def level_simps)
  show "vh_level h = foldr worst (map hc_level (vh_checks h)) Fine" using f by (simp add: e fair_def)
  have crit: "vh_level h = Crit \<longleftrightarrow> \<not> complete \<or> 0 < ri_missing_local repl"
    using hl by (simp add: e l)
  show "vh_level h = Crit \<longleftrightarrow> (\<exists>k. head_of X w = Ok (Some k) \<and> is_complete X w k \<noteq> Ok True)
      \<or> (\<exists>ch. live_chunk X w {k. live_commit X w k} ch \<and> \<not> has_chunk w ch)"
    unfolding crit counts(1) g(3) using hc by (cases hd) simp_all
  have fine: "vh_level h = Fine \<longleftrightarrow> complete \<and> hd \<noteq> None \<and> head_stale X w pol now = Ok False
      \<and> \<not> 0 < ri_missing_local repl \<and> \<not> (0 < ri_under_replicated repl \<and> 1 < ri_min_replicas repl)
      \<and> vc_config_sig (v_config w) \<noteq> None \<and> alts = 0"
    using hl by (auto simp: e l)
  have head: "complete \<and> hd \<noteq> None \<longleftrightarrow> (\<exists>k. head_of X w = Ok (Some k) \<and> is_complete X w k = Ok True)"
    unfolding g(3) using hc by (cases hd) simp_all
  have alts: "alts = 0 \<longleftrightarrow> (\<exists>hs. list_heads X w = Ok hs \<and> length hs \<le> 1)" by (simp add: g(5,6))
  show "vh_level h = Fine \<longleftrightarrow> (\<exists>k. head_of X w = Ok (Some k) \<and> is_complete X w k = Ok True)
      \<and> (\<forall>ch. live_chunk X w {k. live_commit X w k} ch \<longrightarrow> has_chunk w ch
          \<and> (1 < vc_min_replicas (v_config w) \<longrightarrow> unat (vc_min_replicas (v_config w)) \<le> estimated_replicas X w ch))
      \<and> vc_config_sig (v_config w) \<noteq> None \<and> (\<exists>hs. list_heads X w = Ok hs \<and> length hs \<le> 1)
      \<and> head_stale X w (policy_or_default v) now = Ok False"
    unfolding fine pol counts head [symmetric] alts [symmetric] by (auto simp: not_less)
qed

section \<open>Differences are exact\<close>

lemma fold_diff_step:
  "distinct (map fst es) \<Longrightarrow> fold (diff_step ta) es (a, c) =
    (a @ map fst (filter (\<lambda>(p, e). om_get (entries ta) p = None) es),
     c @ map fst (filter (\<lambda>(p, e). \<exists>old. om_get (entries ta) p = Some old \<and> old \<noteq> e) es))"
  by (induction es arbitrary: a c) (auto split: option.split)

lemma diff_trees_exact:
  assumes "om_wf (entries ta)" "om_wf (entries tb)" "diff_trees ta tb = (added, removed, changed)"
  shows "set added = {p. om_get (entries ta) p = None \<and> om_get (entries tb) p \<noteq> None}"
    "set removed = {p. om_get (entries ta) p \<noteq> None \<and> om_get (entries tb) p = None}"
    "set changed = {p. om_get (entries ta) p \<noteq> None \<and> om_get (entries tb) p \<noteq> None \<and> om_get (entries ta) p \<noteq> om_get (entries tb) p}"
    "sorted_wrt (<) added" "sorted_wrt (<) removed" "sorted_wrt (<) changed"
proof -
  let ?P = "\<lambda>(p, e). om_get (entries ta) p = None" and ?Q = "\<lambda>(p, e). \<exists>old. om_get (entries ta) p = Some old \<and> old \<noteq> e"
  note d = om_wf_distinct [OF assms(1)] om_wf_distinct [OF assms(2)]
  have e: "added = sort (map fst (filter ?P (entries tb)))" "changed = sort (map fst (filter ?Q (entries tb)))"
    "removed = sort (filter (\<lambda>p. \<not> om_mem (entries tb) p) (om_keys (entries ta)))"
    using assms(3) by (auto simp: diff_trees_def fold_diff_step [OF d(2)])
  note g = om_get_mem [OF assms(2)]
  show "set added = {p. om_get (entries ta) p = None \<and> om_get (entries tb) p \<noteq> None}"
    by (auto simp: e image_iff simp flip: g)
  show "set changed = {p. om_get (entries ta) p \<noteq> None \<and> om_get (entries tb) p \<noteq> None \<and> om_get (entries ta) p \<noteq> om_get (entries tb) p}"
    by (auto simp: e image_iff simp flip: g)
  show "set removed = {p. om_get (entries ta) p \<noteq> None \<and> om_get (entries tb) p = None}"
    by (auto simp: e set_om_keys) (auto simp: om_mem_def)
  have s: "sorted_wrt (<) (sort xs)" if "distinct xs" for xs :: "string list"
    using that by (simp add: strict_sorted_iff)
  show "sorted_wrt (<) added" "sorted_wrt (<) changed" "sorted_wrt (<) removed"
    unfolding e using d by (auto intro!: s distinct_map_filter simp: om_keys_def)
qed

lemma diff_commits_exact:
  assumes "diff_commits X v a b = Ok d" "load_commit X v a = Ok ca" "load_commit X v b = Ok cb"
    "load_tree X v (c_tree ca) = Ok ta" "load_tree X v (c_tree cb) = Ok tb" "om_wf (entries ta)" "om_wf (entries tb)"
  shows "set (td_added d) = {p. om_get (entries ta) p = None \<and> om_get (entries tb) p \<noteq> None}
    \<and> set (td_removed d) = {p. om_get (entries ta) p \<noteq> None \<and> om_get (entries tb) p = None}
    \<and> set (td_changed d) = {p. om_get (entries ta) p \<noteq> None \<and> om_get (entries tb) p \<noteq> None
          \<and> om_get (entries ta) p \<noteq> om_get (entries tb) p}
    \<and> sorted_wrt (<) (td_added d) \<and> sorted_wrt (<) (td_removed d) \<and> sorted_wrt (<) (td_changed d)"
proof -
  obtain added removed changed where dt: "diff_trees ta tb = (added, removed, changed)" by (cases "diff_trees ta tb")
  then have "td_added d = added" "td_removed d = removed" "td_changed d = changed"
    using assms(1-5) by (auto simp: diff_commits_def)
  then show ?thesis using diff_trees_exact [OF assms(6,7) dt] by simp
qed

end
