(* ===== verification/Invite.thy ===== *)
theory Invite
  imports VaultConfig
begin

text \<open>
  Invites (\<open>src/src/invite.rs\<close>): a signed token that carries a vault's identity, its members and,
  for an encrypted vault, its key sealed under a secret in the token; and joining a vault from
  one. serde JSON and base64 are parameters with their documented round trips.
\<close>

section \<open>Invites\<close>

datatype invite_role = ReadRole | WriteRole

fun role_as_str :: "invite_role \<Rightarrow> string" where
  "role_as_str ReadRole = ''read''"
| "role_as_str WriteRole = ''write''"

definition role_parse :: "string \<Rightarrow> invite_role result" where
  "role_parse s0 =
     (let s = ascii_lower (str_trim s0) in
      if s = ''read'' \<or> s = ''r'' then Ok ReadRole
      else if s = ''write'' \<or> s = ''w'' \<or> s = ''rw'' then Ok WriteRole
      else Err (Other (''unknown invite role: '' @ s)))"

record invite =
  iv_protocol_version :: u64
  iv_vault_id_hex :: string
  iv_vault_name :: string
  iv_encryption_enabled :: bool
  iv_min_replicas :: u8
  iv_config_seq :: u64
  iv_members :: "string list"
  iv_role :: invite_role
  iv_issuer :: string
  iv_created_at :: u64
  iv_expires_at :: u64
  iv_invite_secret_hex :: string
  iv_sealed_key_hex :: string
  iv_signature_hex :: string

text \<open>The serialisation libraries.\<close>

record token_ext =
  k_json :: "invite \<Rightarrow> bytes option" \<comment> \<open>\<open>serde_json::to_vec\<close>\<close>
  k_of_json :: "bytes \<Rightarrow> invite option"
  k_sorted_json :: "invite \<Rightarrow> bytes option" \<comment> \<open>the fields but the signature, sorted by name\<close>
  k_b64 :: "bytes \<Rightarrow> string" \<comment> \<open>URL-safe, no padding\<close>
  k_unb64 :: "string \<Rightarrow> bytes option"
  k_unb64_pad :: "string \<Rightarrow> bytes option"

definition INVITE_AAD :: bytes where
  "INVITE_AAD = as_bytes ''soal/invite/key/v1''"

definition DEFAULT_TTL_SECS :: u64 where
  "DEFAULT_TTL_SECS = 7 * 24 * 3600"

definition is_expired :: "invite \<Rightarrow> u64 \<Rightarrow> bool" where
  "is_expired iv now \<longleftrightarrow> now > iv_expires_at iv"

definition invite_vault_id_bytes :: "ext \<Rightarrow> invite \<Rightarrow> bytes result" where
  "invite_vault_id_bytes X iv = vault_id_from_hex X (iv_vault_id_hex iv)"

definition base64_url_decode :: "token_ext \<Rightarrow> string \<Rightarrow> bytes result" where
  "base64_url_decode K s =
     (case k_unb64 K (str_trim s) of
        Some b \<Rightarrow> Ok b
      | None \<Rightarrow> ok_or (Other ''base64'') (k_unb64_pad K (str_trim s)))"

definition to_token :: "token_ext \<Rightarrow> invite \<Rightarrow> string result" where
  "to_token K iv = tryr (ok_or Serde (k_json K iv)) (\<lambda>json. Ok (k_b64 K json))"

definition from_token :: "token_ext \<Rightarrow> string \<Rightarrow> invite result" where
  "from_token K token0 =
     (let token = str_trim token0 in
      tryr (if starts_with token ''{'' then Ok (as_bytes token) else base64_url_decode K token) (\<lambda>bytes.
        ok_or (Other ''invite decode'') (k_of_json K bytes)))"

definition invite_sign_preimage :: "token_ext \<Rightarrow> invite \<Rightarrow> bytes result" where
  "invite_sign_preimage K iv =
     tryr (ok_or Serde (k_sorted_json K (iv\<lparr>iv_signature_hex := []\<rparr>))) (\<lambda>json. Ok (frame DOMAIN_INVITE json))"

section \<open>Issuing and checking\<close>

definition ensure_listed :: "string \<Rightarrow> string list \<Rightarrow> string list" where
  "ensure_listed n ms = (if member_listed ms n then ms else ms @ [n])"

text \<open>\<open>secret\<close> and \<open>nonce\<close> are the random bytes drawn.\<close>

definition seal_vault_key :: "ext \<Rightarrow> bytes \<Rightarrow> bytes \<Rightarrow> vault \<Rightarrow> string result" where
  "seal_vault_key X secret nonce v =
     (if vc_encryption_enabled (v_config v) then
        tryr (ok_or (Other ''encrypted vault has no key loaded'') (v_key v)) (\<lambda>key.
        tryr (wrap_key X nonce key secret INVITE_AAD) (\<lambda>sealed. Ok (x_hex_enc X sealed)))
      else Ok [])"

definition unsigned_invite ::
  "ext \<Rightarrow> u64 \<Rightarrow> bytes \<Rightarrow> vault \<Rightarrow> bytes \<Rightarrow> invite_role \<Rightarrow> u64 option \<Rightarrow> string \<Rightarrow> invite"
where
  "unsigned_invite X now secret v sk role ttl_secs sealed_key_hex =
     (let ttl = (case ttl_secs of Some t \<Rightarrow> t | None \<Rightarrow> DEFAULT_TTL_SECS); c = v_config v;
          issuer = x_pk_display X (x_public X sk)
      in \<lparr>iv_protocol_version = PROTOCOL_VERSION, iv_vault_id_hex = vc_vault_id c, iv_vault_name = v_name v,
          iv_encryption_enabled = vc_encryption_enabled c, iv_min_replicas = vc_min_replicas c,
          iv_config_seq = vc_config_seq c, iv_members = ensure_listed issuer (vc_members c), iv_role = role,
          iv_issuer = issuer, iv_created_at = now, iv_expires_at = sat_add now ttl,
          iv_invite_secret_hex = x_hex_enc X secret, iv_sealed_key_hex = sealed_key_hex, iv_signature_hex = []\<rparr>)"

definition generate_invite ::
  "ext \<Rightarrow> token_ext \<Rightarrow> u64 \<Rightarrow> bytes \<Rightarrow> bytes \<Rightarrow> vault \<Rightarrow> bytes \<Rightarrow> invite_role \<Rightarrow> u64 option \<Rightarrow> invite result"
where
  "generate_invite X K now secret nonce v sk role ttl_secs =
     tryr (seal_vault_key X secret nonce v) (\<lambda>sealed_key_hex.
       let iv = unsigned_invite X now secret v sk role ttl_secs sealed_key_hex
       in tryr (invite_sign_preimage K iv) (\<lambda>msg. Ok (iv\<lparr>iv_signature_hex := x_hex_enc X (x_sign X sk msg)\<rparr>)))"

definition verify_invite :: "ext \<Rightarrow> token_ext \<Rightarrow> invite \<Rightarrow> u64 \<Rightarrow> unit result" where
  "verify_invite X K iv now =
     (if iv_protocol_version iv \<noteq> PROTOCOL_VERSION then
        Err (Verify (''unsupported invite protocol_version '' @ dec_string (unat (iv_protocol_version iv))))
      else if is_expired iv now then Err (Verify ''invite expired'')
      else if iv_signature_hex iv = [] then Err (Verify ''invite unsigned'')
      else tryr (ok_or (Verify ''bad invite signature hex'') (x_hex_dec X (str_trim (iv_signature_hex iv)))) (\<lambda>sig.
        if length sig \<noteq> 64 then Err (Verify ''invite signature must be 64 bytes'')
        else tryr (ok_or (Verify ''bad invite issuer'') (x_pk_parse X (iv_issuer iv))) (\<lambda>pk.
          tryr (invite_sign_preimage K iv) (\<lambda>msg.
            if x_verify X pk msg sig then Ok () else Err (Verify ''invite signature invalid'')))))"

section \<open>Joining\<close>

definition invite_key :: "ext \<Rightarrow> invite \<Rightarrow> bytes option result" where
  "invite_key X iv =
     (if iv_encryption_enabled iv then
        tryr (ok_or (Other ''bad invite secret'') (x_hex_dec X (str_trim (iv_invite_secret_hex iv)))) (\<lambda>secret.
          if length secret \<noteq> 32 then Err (Other ''invite secret must be 32 bytes'')
          else tryr (ok_or (Other ''bad sealed key'') (x_hex_dec X (str_trim (iv_sealed_key_hex iv)))) (\<lambda>sealed.
            tryr (unwrap_key X sealed secret INVITE_AAD) (\<lambda>k. Ok (Some k))))
      else Ok None)"

definition invite_members :: "ext \<Rightarrow> string json_file \<Rightarrow> invite \<Rightarrow> string list" where
  "invite_members X home iv =
     ensure_listed (iv_issuer iv)
       (case local_author_sync X home of Ok me \<Rightarrow> ensure_listed me (iv_members iv) | _ \<Rightarrow> iv_members iv)"

text \<open>
  The vault is made with \<open>create_for_test\<close>, its configuration is aligned with the invite and
  written, and it is opened again. \<open>default_home\<close> is the home that \<open>Vault::open\<close> binds.
\<close>

definition join_finish ::
  "ext \<Rightarrow> bytes \<Rightarrow> string json_file \<Rightarrow> string json_file \<Rightarrow> string \<Rightarrow> invite \<Rightarrow> vault \<Rightarrow> (base_dir, soal_error, vault) op"
where
  "join_finish X rid default_home home name iv v =
     (let c = (v_config v)\<lparr>vc_min_replicas := max (iv_min_replicas iv) 1, vc_config_seq := iv_config_seq iv,
                vc_vault_id := iv_vault_id_hex iv\<rparr>;
          v = write_config c (v\<lparr>v_config := c\<rparr>)
      in bindop (modify (om_insert name v)) (\<lambda>_ base.
           case open_vault X rid default_home name (om_get base name) of
             Ok u \<Rightarrow> (Ok (with_soal_home home u), om_insert name u base)
           | Err e \<Rightarrow> (Err e, base)
           | Panic \<Rightarrow> (Panic, base)))"

definition join_invite ::
  "ext \<Rightarrow> token_ext \<Rightarrow> u64 \<Rightarrow> bytes \<Rightarrow> string json_file \<Rightarrow> string json_file \<Rightarrow> string \<Rightarrow> string option
    \<Rightarrow> (base_dir, soal_error, vault) op"
where
  "join_invite X K now rid default_home home token local_name =
     bindop (ask (\<lambda>_. from_token K token)) (\<lambda>iv.
     bindop (ask (\<lambda>_. verify_invite X K iv now)) (\<lambda>_.
     let name = (case local_name of Some n \<Rightarrow> n | None \<Rightarrow> iv_vault_name iv) in
     bindop (ask (\<lambda>_. invite_vault_id_bytes X iv)) (\<lambda>vault_id.
     bindop (ask (\<lambda>_. invite_key X iv)) (\<lambda>key.
     bindop (ask (\<lambda>base. create_for_test X now [] (om_mem base name) name (iv_encryption_enabled iv) vault_id key
               (invite_members X home iv)))
       (join_finish X rid default_home home name iv)))))"

section \<open>Documented behaviour of the libraries\<close>

text \<open>Reading what was written; the base64 alphabet is printable and has no brace.\<close>

definition token_law :: "token_ext \<Rightarrow> bool" where
  "token_law K \<longleftrightarrow>
     (\<forall>i b. k_json K i = Some b \<longrightarrow> k_of_json K b = Some i)
   \<and> (\<forall>b. k_unb64 K (k_b64 K b) = Some b \<and> list_all (\<lambda>c. graphic c \<and> c \<noteq> CHR ''{'') (k_b64 K b))"

section \<open>Round trips\<close>

lemma role_roundtrip: "role_parse (role_as_str r) = Ok r"
proof -
  have "str_trim (role_as_str r) = role_as_str r" by (rule trim_all_graphic) (cases r; simp add: graphic_def)
  moreover have "ascii_lower (role_as_str r) = role_as_str r"
    by (cases r) (simp_all add: ascii_lower_def to_lower_def Let_def)
  ultimately show ?thesis by (cases r) (simp_all add: role_parse_def)
qed

lemma from_to_token:
  assumes "token_law K" "to_token K iv = Ok token"
  shows "from_token K token = Ok iv"
proof -
  obtain json where j: "k_json K iv = Some json" "token = k_b64 K json"
    using assms(2) by (auto simp: to_token_def tryr_eq_Ok ok_or_eq_Ok)
  have g: "list_all (\<lambda>c. graphic c \<and> c \<noteq> CHR ''{'') token" using assms(1) j by (simp add: token_law_def)
  then have t: "str_trim token = token" by (intro trim_all_graphic) (auto simp: list_all_iff)
  have "\<not> starts_with token ''{''"
    using g by (cases token) (auto simp: starts_with_def)
  moreover have "k_unb64 K token = Some json" "k_of_json K json = Some iv" using assms(1) j by (simp_all add: token_law_def)
  ultimately show ?thesis by (simp add: from_token_def t base64_url_decode_def)
qed

lemma preimage_unsigned_invite [simp]:
  "invite_sign_preimage K (iv\<lparr>iv_signature_hex := s\<rparr>) = invite_sign_preimage K iv"
  by (simp add: invite_sign_preimage_def)

lemma wrap_key_not_Nil: "hex_law X \<Longrightarrow> length b = 64 \<Longrightarrow> x_hex_enc X b \<noteq> []"
  using hex_length [of X b] by auto

lemma unsigned_invite_fields [simp]:
  "iv_protocol_version (unsigned_invite X now secret v sk role ttl s) = PROTOCOL_VERSION"
  "iv_vault_id_hex (unsigned_invite X now secret v sk role ttl s) = vc_vault_id (v_config v)"
  "iv_encryption_enabled (unsigned_invite X now secret v sk role ttl s) = vc_encryption_enabled (v_config v)"
  "iv_config_seq (unsigned_invite X now secret v sk role ttl s) = vc_config_seq (v_config v)"
  "iv_members (unsigned_invite X now secret v sk role ttl s) = ensure_listed (x_pk_display X (x_public X sk)) (vc_members (v_config v))"
  "iv_issuer (unsigned_invite X now secret v sk role ttl s) = x_pk_display X (x_public X sk)"
  "iv_invite_secret_hex (unsigned_invite X now secret v sk role ttl s) = x_hex_enc X secret"
  "iv_sealed_key_hex (unsigned_invite X now secret v sk role ttl s) = s"
  by (simp_all add: unsigned_invite_def Let_def)

lemma generate_invite_Ok:
  assumes "generate_invite X K now secret nonce v sk role ttl = Ok iv"
  obtains sealed msg where "seal_vault_key X secret nonce v = Ok sealed" "invite_sign_preimage K iv = Ok msg"
    "iv = (unsigned_invite X now secret v sk role ttl sealed)\<lparr>iv_signature_hex := x_hex_enc X (x_sign X sk msg)\<rparr>"
  using assms by (auto simp: generate_invite_def Let_def elim!: tryr_OkE)

text \<open>An invite verifies until it expires.\<close>

lemma generated_invite_verifies:
  assumes laws: "sign_law X" "hex_law X" "pk_law X" and sk: "length sk = 32"
    and g: "generate_invite X K now secret nonce v sk role ttl = Ok iv"
  shows "verify_invite X K iv t = (if t > iv_expires_at iv then Err (Verify ''invite expired'') else Ok ())"
proof -
  from g obtain sealed msg where m: "invite_sign_preimage K iv = Ok msg"
    "iv = (unsigned_invite X now secret v sk role ttl sealed)\<lparr>iv_signature_hex := x_hex_enc X (x_sign X sk msg)\<rparr>"
    by (rule generate_invite_Ok)
  then have p: "invite_sign_preimage K (unsigned_invite X now secret v sk role ttl sealed) = Ok msg" by simp
  have l: "length (x_sign X sk msg) = 64" "x_verify X (x_public X sk) msg (x_sign X sk msg)"
    using laws(1) sk by (simp_all add: sign_law_def)
  have "x_pk_parse X (x_pk_display X (x_public X sk)) = Some (x_public X sk)" using laws(3) sk by (simp add: pk_law_def)
  then show ?thesis
    using p l laws(2) wrap_key_not_Nil [OF laws(2) l(1)]
    by (simp add: m(2) verify_invite_def is_expired_def hex_trim hex_dec_enc)
qed

lemma invite_carries_key:
  assumes "aead_law X" "hex_law X" "length nonce = NONCE_LEN" "length secret = 32"
    and "generate_invite X K now secret nonce v sk role ttl = Ok iv"
    and "\<And>k. v_key v = Some k \<Longrightarrow> length k = 32"
  shows "invite_key X iv = Ok (if vc_encryption_enabled (v_config v) then v_key v else None)"
proof -
  from assms(5) obtain sealed msg where g: "seal_vault_key X secret nonce v = Ok sealed"
    "iv = (unsigned_invite X now secret v sk role ttl sealed)\<lparr>iv_signature_hex := x_hex_enc X (x_sign X sk msg)\<rparr>"
    by (rule generate_invite_Ok)
  show ?thesis
  proof (cases "vc_encryption_enabled (v_config v)")
    case True
    then obtain key s where k: "v_key v = Some key" "wrap_key X nonce key secret INVITE_AAD = Ok s" "sealed = x_hex_enc X s"
      using g(1) by (auto simp: seal_vault_key_def ok_or_eq_Ok elim!: tryr_OkE)
    have "unwrap_key X s secret INVITE_AAD = Ok key" by (rule unwrap_wrap_key [OF assms(1,3) assms(6) k(2)]) (rule k(1))
    then show ?thesis using True k assms(2,4) by (simp add: g(2) invite_key_def hex_trim hex_dec_enc)
  qed (simp add: g(2) invite_key_def)
qed

lemma listed_ensured: "member_listed (ensure_listed n ms) n" "set ms \<subseteq> set (ensure_listed n ms)"
  by (auto simp: ensure_listed_def member_listed_def eq_ignore_case_def)

lemma listed_mono: "set ms \<subseteq> set ns \<Longrightarrow> member_listed ms n \<Longrightarrow> member_listed ns n"
  by (auto simp: member_listed_def list_ex_iff)

lemma invite_members_listed:
  "set (iv_members iv) \<subseteq> set (invite_members X home iv)" "member_listed (invite_members X home iv) (iv_issuer iv)"
  "local_author_sync X home = Ok me \<Longrightarrow> member_listed (invite_members X home iv) me"
proof -
  show "member_listed (invite_members X home iv) (iv_issuer iv)" unfolding invite_members_def by (rule listed_ensured)
  show "set (iv_members iv) \<subseteq> set (invite_members X home iv)"
  proof -
    have "set (iv_members iv) \<subseteq> set (case local_author_sync X home of Ok me \<Rightarrow> ensure_listed me (iv_members iv) | _ \<Rightarrow> iv_members iv)"
      using listed_ensured(2) by (auto split: res.split)
    also have "\<dots> \<subseteq> set (invite_members X home iv)" unfolding invite_members_def by (rule listed_ensured(2))
    finally show ?thesis .
  qed
  show "local_author_sync X home = Ok me \<Longrightarrow> member_listed (invite_members X home iv) me"
    unfolding invite_members_def using listed_mono [OF listed_ensured(2) listed_ensured(1)] by simp
qed

text \<open>
  Whoever joins from the token of an invite, before it expires and where no vault of that name
  exists, has a vault with the same identity and key, in which the issuer and the joiner are
  members.
\<close>

lemma join_restores_vault:
  assumes laws: "aead_law X" "hex_law X" "sign_law X" "pk_law X" "token_law K"
    and lens: "length nonce = NONCE_LEN" "length secret = 32" "length sk = 32"
    and key: "\<And>k. v_key v = Some k \<Longrightarrow> length k = 32"
    and vid: "vault_id_bytes X v = Ok vid" and sq: "vc_config_seq (v_config v) \<noteq> 0"
    and iv: "generate_invite X K t0 secret nonce v sk role ttl = Ok iv" and tok: "to_token K iv = Ok token"
    and time: "now \<le> iv_expires_at iv" and free: "om_get base name = None"
  shows "\<exists>u base'. join_invite X K now rid dh home token (Some name) base = (Ok u, base')
    \<and> vault_id_bytes X u = Ok vid \<and> v_key u = (if vc_encryption_enabled (v_config v) then v_key v else None)
    \<and> v_name u = name \<and> is_member u (x_pk_display X (x_public X sk))
    \<and> (\<forall>me. local_author_sync X home = Ok me \<longrightarrow> is_member u me)
    \<and> (\<forall>m\<in>set (vc_members (v_config v)). is_member u m) \<and> (\<forall>m. m \<noteq> name \<longrightarrow> om_get base' m = om_get base m)"
proof -
  from iv obtain sealed msg where g:
    "iv = (unsigned_invite X t0 secret v sk role ttl sealed)\<lparr>iv_signature_hex := x_hex_enc X (x_sign X sk msg)\<rparr>"
    by (rule generate_invite_Ok)
  let ?enc = "vc_encryption_enabled (v_config v)" and ?ms = "invite_members X home iv"
  let ?key = "if ?enc then v_key v else None"
  have vh: "vc_vault_id (v_config v) \<noteq> []" "vault_id_from_hex X (vc_vault_id (v_config v)) = Ok vid"
    using vid by (auto simp: vault_id_bytes_def split: if_splits)
  have pre: "from_token K token = Ok iv" "verify_invite X K iv now = Ok ()"
    "invite_vault_id_bytes X iv = Ok vid" "invite_key X iv = Ok ?key"
    using from_to_token [OF laws(5) tok] generated_invite_verifies [OF laws(3,2,4) lens(3) iv] time vh(2)
      invite_carries_key [OF laws(1,2) lens(1,2) iv key]
    by (simp_all add: g invite_vault_id_bytes_def)
  define old where "old = \<lparr>vc_name = name, vc_encryption_enabled = ?enc, vc_min_replicas = DEFAULT_MIN_REPLICAS, vc_created_at = now,
      vc_vault_id = x_hex_enc X vid, vc_config_seq = 1, vc_members = ?ms,
      vc_owner = (case ?ms of [] \<Rightarrow> None | m # _ \<Rightarrow> Some m), vc_config_sig = None, vc_key_wrapped = False, vc_key_hex = None\<rparr>"
  define made where "made = (write_config old (empty_root name old ?key None))\<lparr>d_key := map_option (x_hex_enc X) ?key\<rparr>"
  have has: "?enc \<longrightarrow> v_key v \<noteq> None"
    using iv by (auto simp: generate_invite_def seal_vault_key_def ok_or_eq_Ok elim!: tryr_OkE)
  then have mk: "create_for_test X now [] (om_mem base name) name ?enc vid ?key ?ms = Ok made"
    using free by (auto simp: made_def old_def create_for_test_def om_mem_def Let_def write_key_file_def write_config_def empty_root_def)
  define c where "c = old\<lparr>vc_min_replicas := max (iv_min_replicas iv) 1, vc_config_seq := vc_config_seq (v_config v),
      vc_vault_id := vc_vault_id (v_config v)\<rparr>"
  define al where "al = write_config c (made\<lparr>v_config := c\<rparr>)"
  have al: "d_config al = Good c" "v_name al = name" "v_config al = c" "v_key al = ?key" "d_wrapped al = NoFile"
    "d_key al = map_option (x_hex_enc X) ?key" "vc_name c = name" "vc_encryption_enabled c = ?enc" "\<not> vc_key_wrapped c"
    "vc_vault_id c = vc_vault_id (v_config v)" "vc_config_seq c = vc_config_seq (v_config v)" "vc_members c = ?ms"
    by (simp_all add: al_def c_def made_def old_def write_config_def empty_root_def)
  have opened: "open_vault X rid dh name (Some al) = Ok (al\<lparr>v_home := Some dh\<rparr>)"
  proof -
    have same: "al\<lparr>v_name := name, v_config := c, v_key := ?key, v_home := Some dh\<rparr> = al\<lparr>v_home := Some dh\<rparr>"
      by (simp add: al_def made_def write_config_def empty_root_def)
    show ?thesis
    proof (cases "?enc")
      case True
      then obtain k where k: "v_key v = Some k" using has by auto
      have "key_from_hex X (x_hex_enc X k) = Ok k"
        using key [OF k] laws(2) by (simp add: key_from_hex_def hex_trim hex_dec_enc)
      then show ?thesis
        using True k vh(1) sq same by (simp add: open_vault_def open_with_passphrase_def load_or_migrate_key_def al)
    qed (use vh(1) sq same in \<open>simp add: open_vault_def open_with_passphrase_def al\<close>)
  qed
  let ?u = "al\<lparr>v_home := Some home\<rparr>"
  have f: "iv_encryption_enabled iv = ?enc" "iv_vault_id_hex iv = vc_vault_id (v_config v)"
    "iv_config_seq iv = vc_config_seq (v_config v)" "iv_issuer iv = x_pk_display X (x_public X sk)"
    by (simp_all add: g)
  have "(v_config made)\<lparr>vc_min_replicas := max (iv_min_replicas iv) 1, vc_config_seq := vc_config_seq (v_config v),
      vc_vault_id := vc_vault_id (v_config v)\<rparr> = c"
    by (simp add: made_def c_def write_config_def empty_root_def)
  then have run: "join_invite X K now rid dh home token (Some name) base
      = (Ok ?u, om_insert name (al\<lparr>v_home := Some dh\<rparr>) (om_insert name al base))"
    by (simp add: join_invite_def join_finish_def bindop_def ask_def modify_def pre f mk Let_def om_get_insert opened with_soal_home_def
        flip: al_def)
  have mem: "is_member ?u m" if "member_listed ?ms m" for m
    using that by (simp add: is_member_iff al)
  have "member_listed (iv_members iv) m" if "m \<in> set (vc_members (v_config v))" for m
    using listed_ensured(2) that by (fastforce simp: g member_listed_def list_ex_iff eq_ignore_case_def)
  then have "is_member ?u m" if "m \<in> set (vc_members (v_config v))" for m
    using that by (intro mem listed_mono [OF invite_members_listed(1)])
  moreover have "is_member ?u (x_pk_display X (x_public X sk))"
    using mem [OF invite_members_listed(2) [of X home iv]] f(4) by simp
  ultimately show ?thesis
    using mem invite_members_listed(3) vh
    unfolding run by (intro exI conjI) (auto simp: om_get_insert vault_id_bytes_def al)
qed

end
