(* ===== verification/Schedule.thy ===== *)
theory Schedule
  imports Replication
begin

text \<open>
  Timed maintenance (\<open>maybe_auto_snapshot\<close> of \<open>src/src/policy.rs\<close> and \<open>src/src/schedule.rs\<close>): the
  automatic snapshot, one tick of the scheduler, the polling loop. A tick reads the wall clock
  through the argument \<open>now\<close>; the loop reads it and the monotonic clock through \<open>clock\<close>.
\<close>

section \<open>Automatic snapshots\<close>

definition auto_taken :: "ext \<Rightarrow> u64 \<Rightarrow> content_hash \<Rightarrow> policy_state \<Rightarrow> policy_state" where
  "auto_taken X now h st =
     \<lparr>ps_last_auto_snapshot_at = now, ps_last_auto_snapshot_head = Some (to_hex X h),
      ps_auto_snapshot_count = sat_add (ps_auto_snapshot_count st) 1, ps_updated_at = now\<rparr>"

definition maybe_auto_snapshot :: "ext \<Rightarrow> u64 \<Rightarrow> policy \<Rightarrow> string \<Rightarrow> content_hash option vop" where
  "maybe_auto_snapshot X now p message_prefix =
     bindop (ask load_state) (\<lambda>st.
       if \<not> snapshot_due p st now then ret None
       else bindop (ask (head_of X)) (\<lambda>head. case head of
         None \<Rightarrow> ret None
       | Some _ \<Rightarrow>
           let msg = message_prefix @ '' auto @'' @ chrono_like_stamp now in
           bindop (snapshot X now msg) (\<lambda>h.
           bindop (register_snapshot X now h msg True) (\<lambda>_.
           bindop (apply_retention p) (\<lambda>_.
           bindop (save_state (auto_taken X now h st)) (\<lambda>_. ret (Some h)))))))"

definition force_auto_snapshot :: "ext \<Rightarrow> u64 \<Rightarrow> string \<Rightarrow> content_hash vop" where
  "force_auto_snapshot X now message =
     bindop load_policy (\<lambda>p.
     bindop (ask load_state) (\<lambda>st.
     bindop (ask (head_of X)) (\<lambda>head. case head of
       None \<Rightarrow> fail (Other ''no HEAD to snapshot'')
     | Some _ \<Rightarrow>
         bindop (snapshot X now message) (\<lambda>h.
         bindop (apply_retention p) (\<lambda>_.
         bindop (save_state (auto_taken X now h st)) (\<lambda>_. ret h))))))"

section \<open>Ticks\<close>

record schedule_tick =
  st_vault :: string
  st_snapshot :: "string option"
  st_pins_added :: nat
  st_snapshots_pruned :: nat
  st_gc_removed :: nat
  st_skipped_reason :: "string option"

definition run_tick :: "ext \<Rightarrow> u64 \<Rightarrow> policy \<Rightarrow> schedule_tick vop" where
  "run_tick X now p =
     bindop (ask (\<lambda>v. Ok (v_name v))) (\<lambda>name.
     bindop (maybe_auto_snapshot X now p ''scheduled'') (\<lambda>snap.
     bindop (ensure_local_pins X now) (\<lambda>pins.
     bindop (apply_retention p) (\<lambda>pruned.
     bindop (if 0 < pruned \<or> snap \<noteq> None
             then bindop (attempt (gc_all X)) (\<lambda>r. ret (case r of Ok n \<Rightarrow> n | _ \<Rightarrow> 0))
             else ret 0) (\<lambda>removed.
       ret \<lparr>st_vault = name, st_snapshot = map_option (to_hex X) snap, st_pins_added = pins,
            st_snapshots_pruned = pruned, st_gc_removed = removed,
            st_skipped_reason =
              (if snap \<noteq> None then None
               else if pl_snapshot_interval_secs p = 0 then Some ''auto-snapshot disabled''
               else Some ''interval not elapsed'')\<rparr>)))))"

text \<open>
  \<open>run_for\<close>: \<open>clock 0\<close> is the monotonic time the deadline is computed from and the wall-clock time of
  the first tick, \<open>clock i\<close> the time of the i-th loop test and of the tick after it. None is a loop
  that still runs when its fuel is spent; the ticks made until then have their effect.
\<close>

fun run_loop ::
  "ext \<Rightarrow> (nat \<Rightarrow> nat \<times> u64) \<Rightarrow> nat \<Rightarrow> nat \<Rightarrow> nat \<Rightarrow> nat \<Rightarrow> schedule_tick list \<Rightarrow> schedule_tick list option vop"
where
  "run_loop X clock poll deadline 0 i ticks = ret None"
| "run_loop X clock poll deadline (Suc n) i ticks =
     (if fst (clock i) + poll < deadline then
        bindop load_policy (\<lambda>p.
        bindop (run_tick X (snd (clock i)) p) (\<lambda>t.
          run_loop X clock poll deadline n (Suc i) (ticks @ [t])))
      else ret (Some ticks))"

definition run_for ::
  "ext \<Rightarrow> (nat \<Rightarrow> nat \<times> u64) \<Rightarrow> nat \<Rightarrow> nat \<Rightarrow> nat \<Rightarrow> schedule_tick list option vop"
where
  "run_for X clock duration poll fuel =
     bindop load_policy (\<lambda>p.
     bindop (run_tick X (snd (clock 0)) p) (\<lambda>t.
       run_loop X clock poll (fst (clock 0) + duration) fuel 1 [t]))"

section \<open>Objects under maintenance\<close>

lemma save_state_side: "steps side (save_state st)"
  unfolding save_state_def by (intro steps_modify) (simp add: side_def core_def)

lemmas maint_side = register_snapshot_side apply_retention_side save_state_side ensure_local_pins_side
  load_policy_side

lemma steps_case_option: "steps R f \<Longrightarrow> (\<And>x. steps R (g x)) \<Longrightarrow> steps R (case m of None \<Rightarrow> f | Some x \<Rightarrow> g x)"
  by (cases m) auto

context object_writes
begin

lemmas maint_steps = maint_side [THEN side_steps]

lemma maybe_auto_steps: "steps R (maybe_auto_snapshot X now p pre)"
  unfolding maybe_auto_snapshot_def Let_def
  by (intro steps_intros steps_case_option snapshot_steps maint_steps)

lemma force_auto_steps: "steps R (force_auto_snapshot X now msg)"
  unfolding force_auto_snapshot_def
  by (intro steps_intros steps_case_option snapshot_steps maint_steps)

lemma run_tick_steps: "steps R (gc_all X) \<Longrightarrow> steps R (run_tick X now p)"
  unfolding run_tick_def
  by (intro steps_intros maybe_auto_steps maint_steps)

lemma run_loop_steps: "steps R (gc_all X) \<Longrightarrow> steps R (run_loop X clock poll deadline n i ticks)"
  by (induction n arbitrary: i ticks) (auto intro!: steps_intros run_tick_steps maint_steps)

lemma run_for_steps: "steps R (gc_all X) \<Longrightarrow> steps R (run_for X clock duration poll fuel)"
  unfolding run_for_def by (intro steps_intros run_loop_steps run_tick_steps maint_steps)

end

lemmas run_tick_cas = oc.run_tick_steps [OF gc_cas]
lemmas run_for_cas = oc.run_for_steps [OF gc_cas]

section \<open>When snapshots are taken\<close>

lemma maybe_auto_None:
  assumes "maybe_auto_snapshot X now p pre v = (Ok None, w)"
  shows "w = v"
  using assms
  by (auto simp: maybe_auto_snapshot_def bindop_Ok_iff ask_Ok_iff ret_def Let_def split: if_splits option.splits)

lemma auto_registry_side:
  "steps side (bindop (register_snapshot X now h msg True) (\<lambda>_.
     bindop (apply_retention p) (\<lambda>_. bindop (save_state st) (\<lambda>_. ret (Some h)))))"
  by (intro sd.steps_intros maint_side)

lemma maybe_auto_Some:
  assumes "maybe_auto_snapshot X now p pre v = (Ok (Some h), w)"
  obtains st h0 u where "load_state v = Ok st" "snapshot_due p st now" "head_of X v = Ok (Some h0)"
    "snapshot X now (pre @ '' auto @'' @ chrono_like_stamp now) v = (Ok h, u)" "side u w"
    "load_state w = Ok (auto_taken X now h st)"
proof -
  let ?m = "pre @ '' auto @'' @ chrono_like_stamp now"
  obtain st where st: "load_state v = Ok st"
    "(if \<not> snapshot_due p st now then ret None
       else bindop (ask (head_of X)) (\<lambda>head. case head of
         None \<Rightarrow> ret None
       | Some _ \<Rightarrow>
           bindop (snapshot X now ?m) (\<lambda>h.
           bindop (register_snapshot X now h ?m True) (\<lambda>_.
           bindop (apply_retention p) (\<lambda>_.
           bindop (save_state (auto_taken X now h st)) (\<lambda>_. ret (Some h))))))) v = (Ok (Some h), w)"
    using assms unfolding maybe_auto_snapshot_def Let_def by (elim bindop_OkE) (simp add: ask_Ok_iff)
  have due: "snapshot_due p st now" using st(2) by (auto simp: ret_def split: if_splits)
  obtain h0 where h0: "head_of X v = Ok (Some h0)"
    "bindop (snapshot X now ?m) (\<lambda>h.
           bindop (register_snapshot X now h ?m True) (\<lambda>_.
           bindop (apply_retention p) (\<lambda>_.
           bindop (save_state (auto_taken X now h st)) (\<lambda>_. ret (Some h))))) v = (Ok (Some h), w)"
    using st(2) due by (auto simp: bindop_Ok_iff ask_Ok_iff ret_def split: option.splits)
  obtain h' u where u: "snapshot X now ?m v = (Ok h', u)"
    "bindop (register_snapshot X now h' ?m True) (\<lambda>_.
           bindop (apply_retention p) (\<lambda>_.
           bindop (save_state (auto_taken X now h' st)) (\<lambda>_. ret (Some h')))) u = (Ok (Some h), w)"
    using h0(2) by (rule bindop_OkE)
  have "h' = h" using u(2) by (auto simp: bindop_Ok_iff ret_def)
  moreover have "load_state w = Ok (auto_taken X now h' st)"
    using u(2) by (auto simp: bindop_Ok_iff ret_def save_state_def modify_def load_state_def)
  moreover have "side u w"
    by (rule stepsD [OF auto_registry_side u(2)])
  ultimately show thesis using that [OF st(1) due h0(1)] u(1) by blast
qed

text \<open>The next one is due when the interval has passed since, and not before.\<close>

lemma due_after_auto:
  assumes "pl_snapshot_interval_secs p \<noteq> 0" "now \<noteq> 0"
  shows "snapshot_due p (auto_taken X now h st) later \<longleftrightarrow>
    unat (pl_snapshot_interval_secs p) \<le> unat later - unat now"
  using assms by (simp add: snapshot_due_def auto_taken_def word_le_nat_alt unat_sat_sub)

section \<open>What can be restored\<close>

text \<open>Two states with the same tree under a head, the same chunks and key restore alike.\<close>

lemma restore_same:
  assumes "load_commit X v h = Ok c" "load_commit X w h' = Ok c'" "c_tree c' = c_tree c"
    and "load_tree X w = load_tree X v" "d_chunks w = d_chunks v" "v_key w = v_key v"
  shows "restore X F w h' target = restore X F v h target"
proof -
  have "restore_file X w n sz hs = restore_file X v n sz hs" for n sz hs
    by (rule restore_file_get) (simp_all add: assms(5,6))
  then have "restore_entry X F w target = restore_entry X F v target" by (intro ext) (simp add: restore_entry_def split: prod.split tree_entry.split)
  then show ?thesis using assms by (simp add: restore_def bindop_def ask_def)
qed

definition same_chunks :: "vault \<Rightarrow> vault \<Rightarrow> bool" where
  "same_chunks v w \<longleftrightarrow> v_key w = v_key v \<and> d_chunks w = d_chunks v"

interpretation sch: evolution same_chunks
  by unfold_locales (auto simp: same_chunks_def)

lemma snapshot_same_chunks: "steps same_chunks (snapshot X now msg)"
proof -
  have tree: "steps same_chunks (save_tree X t)" and com: "steps same_chunks (save_commit X c)"
    and head: "steps same_chunks (set_head X h)" for t c h
    by (rule stepsI, auto simp: same_chunks_def save_tree_eq save_commit_eq set_head_def modify_def split: res.splits)+
  have "steps same_chunks (snapshot_commit X now msg)"
    unfolding snapshot_commit_def by (intro sch.steps_intros steps_case_option tree com head)
  moreover have "same_chunks v w" if "side v w" for v w
    using sideD(3,8) [OF that] by (simp add: same_chunks_def)
  ultimately show ?thesis
    unfolding snapshot_def by (intro sch.steps_bindI steps_mono [OF snapshot_registry_side])
qed

lemma dec_string_ascii: "list_all (\<lambda>a. a < 128) (map of_char (dec_string n) :: nat list)"
proof (induction n rule: dec_string.induct)
  case (1 n)
  have small: "(of_char (char_of (48 + k)) :: nat) < 128" if "k < 10" for k :: nat
    using that by simp
  show ?case
    using 1 small [of n] small [of "n mod 10"] by (cases "n < 10") (simp_all add: dec_string.simps [of n])
qed

lemma utf8_ascii_prefix:
  "list_all (\<lambda>a. a < 128) (map of_char s :: nat list) \<Longrightarrow> utf8_str (s @ dec_string n)"
  by (simp add: utf8_str_def utf8_ok_ascii dec_string_ascii)

text \<open>A tick, whatever it snapshots, prunes and collects, leaves the head's files restorable as before.\<close>

lemma run_tick_restore:
  assumes laws: "hash_law X" "hex_law X" and run: "run_tick X now p v = (Ok t, w)"
    and head: "head_of X v = Ok (Some h0)" "load_commit X v h0 = Ok c" "wf_hash (c_tree c)"
    and small: "\<And>h u. snapshot X now (''scheduled auto @'' @ chrono_like_stamp now) v = (Ok h, u) \<Longrightarrow> small_objects u"
  shows "\<exists>hd'. head_of X w = Ok (Some hd') \<and> (\<forall>F target. restore X F w hd' target = restore X F v h0 target)"
proof -
  obtain snap v1 n1 v2 n2 v3 k where r: "maybe_auto_snapshot X now p ''scheduled'' v = (Ok snap, v1)"
    "ensure_local_pins X now v1 = (Ok n1, v2)" "apply_retention p v2 = (Ok n2, v3)"
    "(if 0 < n2 \<or> snap \<noteq> None
             then bindop (attempt (gc_all X)) (\<lambda>r. ret (case r of Ok n \<Rightarrow> n | _ \<Rightarrow> 0))
             else ret 0) v3 = (Ok k, w)"
    using run unfolding run_tick_def by (elim bindop_OkE) (simp add: ask_Ok_iff ret_apply)
  have gc: "w = v3 \<or> (\<exists>r. gc_all X v3 = (r, w))"
    using r(4) by (cases "0 < n2 \<or> snap \<noteq> None") (auto simp: bindop_Ok_iff attempt_Ok_iff ret_apply)
  have "\<exists>hd1 c1. head_of X v1 = Ok (Some hd1) \<and> load_commit X v1 hd1 = Ok c1 \<and> c_tree c1 = c_tree c
      \<and> load_tree X v1 = load_tree X v \<and> d_chunks v1 = d_chunks v \<and> v_key v1 = v_key v"
  proof (cases snap)
    case None
    then show ?thesis using maybe_auto_None r(1) head by blast
  next
    case (Some h)
    obtain u where u: "snapshot X now (''scheduled'' @ '' auto @'' @ chrono_like_stamp now) v = (Ok h, u)" "side u v1"
      using maybe_auto_Some r(1) Some by metis
    have msg: "utf8_str (''scheduled'' @ '' auto @'' @ chrono_like_stamp now)"
      using utf8_ascii_prefix [of "''scheduled'' @ '' auto @''" "unat now"] by (simp add: chrono_like_stamp_def)
    have "small_objects u" using small u(1) by simp
    note sn = snapshot_Ok [OF laws u(1) msg head this]
    note fr = stepsD [OF snapshot_same_chunks u(1), unfolded same_chunks_def]
    show ?thesis using sn fr head(1) loads_side [OF u(2)] sideD [OF u(2)] by auto
  qed
  then obtain hd1 c1 where h1: "head_of X v1 = Ok (Some hd1)" "load_commit X v1 hd1 = Ok c1" "c_tree c1 = c_tree c"
      "load_tree X v1 = load_tree X v" "d_chunks v1 = d_chunks v" "v_key v1 = v_key v" by blast
  have sd: "side v1 v3"
    using stepsD [OF ensure_local_pins_side r(2)] stepsD [OF apply_retention_side r(3)] by (rule sd.trans)
  have h3: "head_of X v3 = Ok (Some hd1)" using h1(1) by (simp add: loads_side [OF sd])
  have r3: "restore X F v3 hd1 target = restore X F v h0 target" for F target
    by (rule restore_same [OF head(2), of v3 hd1 c1]) (simp_all add: h1 loads_side [OF sd] sideD [OF sd])
  have "head_of X w = Ok (Some hd1) \<and> (\<forall>F target. restore X F w hd1 target = restore X F v3 hd1 target)"
    using gc h3 gc_attempt_keeps [OF _ head_live [OF h3] h3] by blast
  with r3 show ?thesis by auto
qed

section \<open>The polling loop\<close>

text \<open>
  The monotonic clock does not go back, and between one loop test and the next, where the loop sleeps,
  it moves on by at least the poll interval. Then the loop ends: \<open>duration div poll\<close> passes are
  enough, and at most that many are made after the first tick, which may be as short as it likes.
\<close>

definition sleeps :: "(nat \<Rightarrow> nat \<times> u64) \<Rightarrow> nat \<Rightarrow> bool" where
  "sleeps clock poll \<longleftrightarrow> fst (clock 0) \<le> fst (clock 1)
     \<and> (\<forall>i\<ge>1. fst (clock i) + poll \<le> fst (clock (Suc i)))"

text \<open>The loop has returned: a result or an error, with no more ticks than \<open>n\<close>.\<close>

definition ended :: "nat \<Rightarrow> (soal_error, schedule_tick list option) res \<Rightarrow> bool" where
  "ended n r \<longleftrightarrow> (case r of Ok ticks \<Rightarrow> \<exists>ts. ticks = Some ts \<and> length ts \<le> n | _ \<Rightarrow> True)"

lemma ended_simps [simp]: "ended n (Ok (Some ts)) \<longleftrightarrow> length ts \<le> n" "\<not> ended n (Ok None)" "ended n (Err e)" "ended n Panic"
  by (simp_all add: ended_def)

lemma ended_bindop: "(\<And>a w. f v = (Ok a, w) \<Longrightarrow> ended n (fst (g a w))) \<Longrightarrow> ended n (fst (bindop f g v))"
  by (cases "f v"; cases "fst (f v)") (auto simp: bindop_def)

lemma run_loop_ends:
  assumes "sleeps clock poll" "1 \<le> i" "deadline \<le> fst (clock i) + Suc n * poll"
  shows "ended (length ticks + n) (fst (run_loop X clock poll deadline (Suc n) i ticks v))"
  using assms(2,3)
proof (induction n arbitrary: i ticks v)
  case 0
  then show ?case by (simp add: ret_def)
next
  case (Suc n)
  have "fst (clock i) + poll \<le> fst (clock (Suc i))" using assms(1) Suc.prems(1) by (simp add: sleeps_def)
  then have "deadline \<le> fst (clock (Suc i)) + Suc n * poll" using Suc.prems(2) by simp
  from Suc.IH [OF _ this] have next_pass:
    "ended (Suc (length ticks + n)) (fst (run_loop X clock poll deadline (Suc n) (Suc i) (ticks @ [t]) w))" for t w
    by (simp del: run_loop.simps) (metis add_Suc length_append_singleton)
  show ?case
    by (subst run_loop.simps(2)) (auto simp: ret_def simp del: run_loop.simps intro!: ended_bindop next_pass)
qed

lemma run_for_ends:
  assumes "sleeps clock poll" "0 < poll"
  shows "ended (Suc (duration div poll)) (fst (run_for X clock duration poll (Suc (duration div poll)) v))"
proof -
  have "fst (clock 0) \<le> fst (clock 1)" using assms(1) by (simp add: sleeps_def)
  moreover have "duration \<le> Suc (duration div poll) * poll"
    using dividend_less_times_div [OF assms(2), of duration] by (simp add: mult.commute)
  ultimately have le: "fst (clock 0) + duration \<le> fst (clock 1) + Suc (duration div poll) * poll" by linarith
  have "ended (Suc (duration div poll))
      (fst (run_loop X clock poll (fst (clock 0) + duration) (Suc (duration div poll)) 1 [t] w))" for t w
    using run_loop_ends [OF assms(1) _ le, of "[t]" X w] by simp
  then show ?thesis unfolding run_for_def by (intro ended_bindop)
qed

end
