(* ===== verification/Watch.thy ===== *)
theory Watch
  imports Schedule
begin

text \<open>
  The live watcher (\<open>src/src/watch.rs\<close>): events collected in a pending set, flushed into the vault
  once the tree has been quiet for the debounce time. A round of its loop is one observation:
  the time, what the channel gave, and the file system as a flush would find it. The waiting
  itself is not modelled, nor is \<open>on_commit\<close>, which has no access to the vault. File names are
  UTF-8 and paths are in the normal form the watcher reports.
\<close>

section \<open>Paths as keys\<close>

text \<open>\<open>Ord\<close> of \<open>Component\<close>: by variant, then by name; \<open>PathBuf\<close> compares component by component.\<close>

definition component_key :: "component \<Rightarrow> nat \<times> string" where
  "component_key c = (case c of RootDir \<Rightarrow> (1, []) | CurDir \<Rightarrow> (2, []) | ParentDir \<Rightarrow> (3, []) | Normal s \<Rightarrow> (4, s))"

lemma component_key_inject: "component_key a = component_key b \<longleftrightarrow> a = b"
  by (cases a; cases b) (simp_all add: component_key_def)

instantiation component :: linorder
begin

definition less_eq_component :: "component \<Rightarrow> component \<Rightarrow> bool" where
  "less_eq_component a b \<longleftrightarrow> component_key a \<le> component_key b"

definition less_component :: "component \<Rightarrow> component \<Rightarrow> bool" where
  "less_component a b \<longleftrightarrow> component_key a < component_key b"

instance
proof
  fix a b c :: component
  note d = less_eq_component_def less_component_def
  show "(a < b) = (a \<le> b \<and> \<not> b \<le> a)" unfolding d by (rule less_le_not_le)
  show "a \<le> a" unfolding d by (rule order_refl)
  show "a \<le> c" if "a \<le> b" "b \<le> c" using that unfolding d by (rule order_trans)
  show "a = b" if "a \<le> b" "b \<le> a"
    using that unfolding d component_key_inject [symmetric] by (rule order_antisym)
  show "a \<le> b \<or> b \<le> a" unfolding d by (rule linear)
qed

end

definition component_str :: "component \<Rightarrow> string" where
  "component_str c = (case c of RootDir \<Rightarrow> [slash] | CurDir \<Rightarrow> ''.'' | ParentDir \<Rightarrow> ''..'' | Normal s \<Rightarrow> s)"

definition display_path :: "path \<Rightarrow> string" where
  "display_path p = (case p of RootDir # q \<Rightarrow> slash # join_with [slash] (map component_str q)
     | _ \<Rightarrow> join_with [slash] (map component_str p))"

definition strip_path :: "path \<Rightarrow> path \<Rightarrow> path option" where
  "strip_path root p = (if prefix root p then Some (drop (length root) p) else None)"

section \<open>Adding what changed\<close>

type_synonym file_system = "path \<Rightarrow> fs_tree"

definition is_file :: "file_system \<Rightarrow> path \<Rightarrow> bool" where
  "is_file fs p \<longleftrightarrow> (case fs p of FsFile _ \<Rightarrow> True | _ \<Rightarrow> False)"

datatype event_kind = EvAny | EvAccess | EvCreate | EvModify | EvRemove | EvOther

definition is_interesting :: "event_kind \<Rightarrow> bool" where
  "is_interesting k \<longleftrightarrow> (case k of EvCreate \<Rightarrow> True | EvModify \<Rightarrow> True | EvAny \<Rightarrow> True | _ \<Rightarrow> False)"

definition relative_name :: "path \<Rightarrow> path \<Rightarrow> string" where
  "relative_name root file =
     join_with [slash] (map component_str (case strip_path root file of Some rel \<Rightarrow> rel | None \<Rightarrow> file))"

definition add_relative :: "ext \<Rightarrow> u64 \<Rightarrow> file_system \<Rightarrow> path \<Rightarrow> path \<Rightarrow> content_hash vop" where
  "add_relative X now fs root file =
     (let logical = relative_name root file in
      if logical = [] then fail (InvalidPath ''empty watch logical path'')
      else add_path X now (fs file) logical)"

definition ingest_path :: "ext \<Rightarrow> u64 \<Rightarrow> file_system \<Rightarrow> path \<Rightarrow> path \<Rightarrow> content_hash vop" where
  "ingest_path X now fs root file = add_relative X now fs root file"

record watch_batch =
  wb_commits :: "(path \<times> content_hash) list"
  wb_errors :: "string list"

definition ends_with :: "string \<Rightarrow> string \<Rightarrow> bool" where
  "ends_with s t \<longleftrightarrow> starts_with (rev s) (rev t)"

text \<open>Hidden files and those of editors are skipped; \<open>file_name\<close> is the last component if it is a name.\<close>

definition skipped :: "path \<Rightarrow> bool" where
  "skipped p \<longleftrightarrow> (case rev p of
     Normal name # _ \<Rightarrow> starts_with name ''.'' \<or> ends_with name ''~'' \<or> ends_with name ''.swp''
   | _ \<Rightarrow> False)"

definition flush_file ::
  "ext \<Rightarrow> (path \<Rightarrow> u64) \<Rightarrow> file_system \<Rightarrow> path \<Rightarrow> path \<Rightarrow> watch_batch \<Rightarrow> watch_batch vop"
where
  "flush_file X now fs root file batch =
     (if \<not> is_file fs file \<or> skipped file then ret batch
      else bindop (attempt (add_relative X (now file) fs root file)) (\<lambda>r.
        ret (case r of
               Ok h \<Rightarrow> batch\<lparr>wb_commits := wb_commits batch @ [(file, h)]\<rparr>
             | Err e \<Rightarrow> batch\<lparr>wb_errors := wb_errors batch @ [display_path file @ '': '' @ error_text e]\<rparr>
             | Panic \<Rightarrow> batch)))"

definition flush_pending ::
  "ext \<Rightarrow> (path \<Rightarrow> u64) \<Rightarrow> file_system \<Rightarrow> path \<Rightarrow> path oset \<Rightarrow> watch_batch \<Rightarrow> watch_batch vop"
where
  "flush_pending X now fs root pending batch = for_op (flush_file X now fs root) pending batch"

section \<open>The loop\<close>

datatype received = Event event_kind "path list" | NotifyError string | RecvTimeout | Disconnected

text \<open>Times are milliseconds since the watch started.\<close>

record watch_round =
  wr_elapsed :: nat \<comment> \<open>at the head of the loop\<close>
  wr_received :: received
  wr_time :: nat \<comment> \<open>when the channel answered\<close>
  wr_fs :: file_system
  wr_now :: "path \<Rightarrow> u64"

record watch_state =
  ws_pending :: "path oset"
  ws_last_event :: nat
  ws_batch :: watch_batch

definition flush_state :: "ext \<Rightarrow> path \<Rightarrow> watch_round \<Rightarrow> watch_state \<Rightarrow> watch_state vop" where
  "flush_state X root rd st =
     bindop (flush_pending X (wr_now rd) (wr_fs rd) root (ws_pending st) (ws_batch st)) (\<lambda>b.
       ret (st\<lparr>ws_pending := [], ws_batch := b\<rparr>))"

definition notice :: "watch_round \<Rightarrow> event_kind \<Rightarrow> path list \<Rightarrow> watch_state \<Rightarrow> watch_state" where
  "notice rd kind paths st =
     (let st = st\<lparr>ws_last_event := wr_time rd\<rparr> in
      if is_interesting kind then
        st\<lparr>ws_pending := fold os_insert (filter (is_file (wr_fs rd)) paths) (ws_pending st)\<rparr>
      else st)"

text \<open>The flag says that the loop breaks.\<close>

definition watch_step ::
  "ext \<Rightarrow> path \<Rightarrow> nat \<Rightarrow> nat option \<Rightarrow> watch_round \<Rightarrow> watch_state \<Rightarrow> (bool \<times> watch_state) vop"
where
  "watch_step X root debounce max_duration rd st =
     (if (case max_duration of Some m \<Rightarrow> m \<le> wr_elapsed rd | None \<Rightarrow> False) then
        bindop (flush_state X root rd st) (\<lambda>st. ret (True, st))
      else case wr_received rd of
        Event kind paths \<Rightarrow> ret (False, notice rd kind paths st)
      | NotifyError e \<Rightarrow>
          ret (False, st\<lparr>ws_batch := (ws_batch st)\<lparr>wb_errors := wb_errors (ws_batch st) @ [''notify: '' @ e]\<rparr>\<rparr>)
      | RecvTimeout \<Rightarrow>
          if ws_pending st \<noteq> [] \<and> debounce \<le> wr_time rd - ws_last_event st then
            bindop (flush_state X root rd st) (\<lambda>st. ret (False, st))
          else ret (False, st)
      | Disconnected \<Rightarrow> ret (True, st))"

text \<open>The rounds seen so far; \<open>None\<close> while the loop has not ended.\<close>

fun watch_loop ::
  "ext \<Rightarrow> path \<Rightarrow> nat \<Rightarrow> nat option \<Rightarrow> watch_round list \<Rightarrow> watch_state \<Rightarrow> watch_batch option vop"
where
  "watch_loop X root debounce max_duration [] st = ret None"
| "watch_loop X root debounce max_duration (rd # rds) st =
     bindop (watch_step X root debounce max_duration rd st) (\<lambda>(over, st).
       if over then ret (Some (ws_batch st)) else watch_loop X root debounce max_duration rds st)"

definition watch_vault_path ::
  "ext \<Rightarrow> path \<Rightarrow> bool \<Rightarrow> nat \<Rightarrow> nat option \<Rightarrow> watch_round list \<Rightarrow> watch_batch option vop"
where
  "watch_vault_path X root exists debounce max_duration rounds =
     (if \<not> exists then fail (Other (''watch path does not exist: '' @ display_path root))
      else watch_loop X root debounce max_duration rounds
             \<lparr>ws_pending = [], ws_last_event = 0, ws_batch = \<lparr>wb_commits = [], wb_errors = []\<rparr>\<rparr>)"

section \<open>What the watcher keeps\<close>

text \<open>Whatever the writes of a vault respect, the watcher respects.\<close>

context object_writes
begin

lemma flush_steps: "steps R (flush_pending X now fs root pending batch)"
  unfolding flush_pending_def flush_file_def add_relative_def
  by (auto intro!: steps_intros add_path_steps simp: Let_def)

lemma watch_step_steps: "steps R (watch_step X root debounce max_duration rd st)"
  unfolding watch_step_def flush_state_def
  by (auto intro!: steps_intros flush_steps split: received.split)

lemma watch_loop_steps: "steps R (watch_loop X root debounce max_duration rounds st)"
proof (induction rounds arbitrary: st)
  case (Cons rd rds)
  then show ?case by (auto intro!: steps_intros watch_step_steps)
qed (simp add: steps_ret)

lemma watch_steps: "steps R (watch_vault_path X root exists debounce max_duration rounds)"
  unfolding watch_vault_path_def by (auto intro!: steps_intros watch_loop_steps)

end

section \<open>Names and flushes\<close>

lemma component_str_Normal: "map component_str (map Normal segs) = segs"
  by (induction segs) (simp_all add: component_str_def)

text \<open>A file under the watched root is added under its path relative to the root.\<close>

lemma relative_name_under: "relative_name root (root @ map Normal (split_on slash n)) = n"
proof -
  have "relative_name root (root @ map Normal (split_on slash n)) = join_with [slash] (split_on slash n)"
    by (simp only: relative_name_def strip_path_def prefixI if_True option.case append_eq_conv_conj
        component_str_Normal prefix_def simp_thms ex_simps) (simp add: component_str_Normal del: map_map)
  then show ?thesis by (simp add: join_split)
qed

lemma ingest_eq_add:
  assumes "n \<noteq> []"
  shows "ingest_path X now fs root (root @ map Normal (split_on slash n)) v
    = add_path X now (fs (root @ map Normal (split_on slash n))) n v"
  using assms by (simp add: ingest_path_def add_relative_def relative_name_under)

text \<open>A flush handles each file that is there and is not skipped once, in order: it is committed or its error is noted.\<close>

definition due :: "file_system \<Rightarrow> path \<Rightarrow> bool" where
  "due fs p \<longleftrightarrow> is_file fs p \<and> \<not> skipped p"

lemma flush_file_Ok:
  assumes "flush_file X now fs root file b v = (Ok b', w)"
  shows "if due fs file then
      (\<exists>h. add_relative X (now file) fs root file v = (Ok h, w) \<and> b' = b\<lparr>wb_commits := wb_commits b @ [(file, h)]\<rparr>)
      \<or> (\<exists>e. add_relative X (now file) fs root file v = (Err e, w)
            \<and> b' = b\<lparr>wb_errors := wb_errors b @ [display_path file @ '': '' @ error_text e]\<rparr>)
    else b' = b \<and> w = v"
  using assms
  by (auto simp: flush_file_def due_def bindop_def attempt_def ret_def split: prod.splits res.splits if_splits)

text \<open>
  One add after the other: \<open>rs\<close> are the outcomes of adding \<open>files\<close> in their order, \<open>vs\<close> the states before
  the first, between them and after the last.
\<close>

definition adds_run ::
  "ext \<Rightarrow> (path \<Rightarrow> u64) \<Rightarrow> file_system \<Rightarrow> path \<Rightarrow> path list \<Rightarrow> content_hash result list \<Rightarrow> vault list \<Rightarrow> bool"
where
  "adds_run X now fs root files rs vs \<longleftrightarrow> length rs = length files \<and> length vs = Suc (length files)
     \<and> (\<forall>i<length files. add_relative X (now (files ! i)) fs root (files ! i) (vs ! i) = (rs ! i, vs ! Suc i) \<and> rs ! i \<noteq> Panic)"

fun added_files :: "path list \<Rightarrow> content_hash result list \<Rightarrow> (path \<times> content_hash) list" where
  "added_files (p # ps) (Ok h # rs) = (p, h) # added_files ps rs"
| "added_files (p # ps) (r # rs) = added_files ps rs"
| "added_files ps rs = []"

fun failed_files :: "path list \<Rightarrow> content_hash result list \<Rightarrow> string list" where
  "failed_files (p # ps) (Err e # rs) = (display_path p @ '': '' @ error_text e) # failed_files ps rs"
| "failed_files (p # ps) (r # rs) = failed_files ps rs"
| "failed_files ps rs = []"

lemma adds_run_Cons:
  assumes "add_relative X (now p) fs root p v = (r, vs ! 0)" "r \<noteq> Panic" "adds_run X now fs root files rs vs"
  shows "adds_run X now fs root (p # files) (r # rs) (v # vs)"
  using assms by (simp add: adds_run_def All_less_Suc2)

lemma flush_pending_Ok:
  assumes "flush_pending X now fs root pending b v = (Ok b', w)"
  shows "\<exists>rs vs. adds_run X now fs root (filter (due fs) pending) rs vs
    \<and> vs ! 0 = v \<and> vs ! length (filter (due fs) pending) = w
    \<and> wb_commits b' = wb_commits b @ added_files (filter (due fs) pending) rs
    \<and> wb_errors b' = wb_errors b @ failed_files (filter (due fs) pending) rs"
  using assms
proof (induction pending arbitrary: b v)
  case Nil
  then show ?case by (intro exI [of _ "[]"] exI [of _ "[v]"]) (simp add: flush_pending_def ret_def adds_run_def)
next
  case (Cons p pending)
  let ?files = "filter (due fs) pending"
  obtain b1 v1 where r: "flush_file X now fs root p b v = (Ok b1, v1)" "flush_pending X now fs root pending b1 v1 = (Ok b', w)"
    using Cons.prems by (auto simp: flush_pending_def bindop_Ok_iff)
  obtain rs vs where ih: "adds_run X now fs root ?files rs vs" "vs ! 0 = v1" "vs ! length ?files = w"
    "wb_commits b' = wb_commits b1 @ added_files ?files rs" "wb_errors b' = wb_errors b1 @ failed_files ?files rs"
    using Cons.IH [OF r(2)] by blast
  note f = flush_file_Ok [OF r(1)]
  show ?case
  proof (cases "due fs p")
    case True
    with f consider (added) h where "add_relative X (now p) fs root p v = (Ok h, v1)" "b1 = b\<lparr>wb_commits := wb_commits b @ [(p, h)]\<rparr>"
      | (failed) e where "add_relative X (now p) fs root p v = (Err e, v1)"
          "b1 = b\<lparr>wb_errors := wb_errors b @ [display_path p @ '': '' @ error_text e]\<rparr>"
      by auto
    then show ?thesis
    proof cases
      case added
      then have "adds_run X now fs root (p # ?files) (Ok h # rs) (v # vs)"
        using ih(1,2) by (intro adds_run_Cons) simp_all
      then show ?thesis using added ih(3-5) True by (intro exI [of _ "Ok h # rs"] exI [of _ "v # vs"]) simp
    next
      case failed
      then have "adds_run X now fs root (p # ?files) (Err e # rs) (v # vs)"
        using ih(1,2) by (intro adds_run_Cons) simp_all
      then show ?thesis using failed ih(3-5) True by (intro exI [of _ "Err e # rs"] exI [of _ "v # vs"]) simp
    qed
  next
    case False
    then show ?thesis using ih f by auto
  qed
qed

text \<open>
  Between flushes the vault is untouched, and a round flushes only when the watch is over or no
  event came for the debounce time.
\<close>

lemma watch_step_quiet:
  assumes "watch_step X root debounce max_duration rd st v = (r, w)" "w \<noteq> v"
  shows "(\<exists>m. max_duration = Some m \<and> m \<le> wr_elapsed rd)
    \<or> wr_received rd = RecvTimeout \<and> ws_pending st \<noteq> [] \<and> debounce \<le> wr_time rd - ws_last_event st"
  using assms by (auto simp: watch_step_def ret_def split: option.splits received.splits if_splits)

text \<open>Once the rounds reach the given duration, the loop has ended.\<close>

lemma watch_loop_ends:
  assumes "watch_loop X root debounce (Some m) rounds st v = (Ok b, w)" "\<exists>rd\<in>set rounds. m \<le> wr_elapsed rd"
  shows "b \<noteq> None"
  using assms
proof (induction rounds arbitrary: st v)
  case (Cons rd rds)
  obtain over st1 v1 where s: "watch_step X root debounce (Some m) rd st v = (Ok (over, st1), v1)"
    "(if over then ret (Some (ws_batch st1)) else watch_loop X root debounce (Some m) rds st1) v1 = (Ok b, w)"
    using Cons.prems(1) by (auto simp: bindop_Ok_iff)
  show ?case
  proof (cases over)
    case False
    then have "\<not> m \<le> wr_elapsed rd" using s(1) by (auto simp: watch_step_def bindop_Ok_iff ret_def)
    then show ?thesis using Cons.IH [of st1 v1] Cons.prems(2) s(2) False by auto
  qed (use s(2) in \<open>auto simp: ret_def\<close>)
qed simp

end
