(* ===== verification/Api.thy ===== *)
theory Api
  imports Sync Health Invite Watch
begin

text \<open>
  The embeddable session (\<open>src/src/api.rs\<close>): every operation opens the named vault of the
  session's base directory, works on it and leaves it there. Then the base directory as a state
  machine: any operation of the library on any of its vaults, in any order, with vaults created
  and joined in between, and what stays true of every vault.
\<close>

section \<open>Sessions\<close>

text \<open>
  \<open>ss_home\<close> is the \<open>node.json\<close> of the session's home, \<open>ss_default_home\<close> that of the home which
  opening a vault binds first, and \<open>ss_rid\<close> the random id drawn for a vault that has none.
\<close>

record session =
  ss_home :: "string json_file"
  ss_default_home :: "string json_file"
  ss_passphrase :: "string option"
  ss_rid :: "string \<Rightarrow> bytes"

type_synonym 'a bop = "(base_dir, soal_error, 'a) op"

definition session_open :: "string json_file \<Rightarrow> string json_file \<Rightarrow> (string \<Rightarrow> bytes) \<Rightarrow> session" where
  "session_open home default_home rid =
     \<lparr>ss_home = home, ss_default_home = default_home, ss_passphrase = None, ss_rid = rid\<rparr>"

definition with_passphrase :: "string \<Rightarrow> session \<Rightarrow> session" where
  "with_passphrase pass S = S\<lparr>ss_passphrase := Some pass\<rparr>"

definition session_list_vaults :: "base_dir \<Rightarrow> string list" where
  "session_list_vaults base = list_vaults base"

definition session_open_vault :: "ext \<Rightarrow> session \<Rightarrow> string \<Rightarrow> vault bop" where
  "session_open_vault X S name = (\<lambda>base.
     case open_with_passphrase X (ss_rid S name) (ss_default_home S) name (om_get base name) (ss_passphrase S) of
       Ok v \<Rightarrow> let v = with_soal_home (ss_home S) v in (Ok v, om_insert name v base)
     | Err e \<Rightarrow> (Err e, base)
     | Panic \<Rightarrow> (Panic, base))"

text \<open>\<open>let mut v = self.open_vault(name)?; ... \<close>, the vault left on disk as the operation leaves it.\<close>

definition with_vault :: "ext \<Rightarrow> session \<Rightarrow> string \<Rightarrow> 'a vop \<Rightarrow> 'a bop" where
  "with_vault X S name m =
     bindop (session_open_vault X S name) (\<lambda>v base. case m v of (r, w) \<Rightarrow> (r, om_insert name w base))"

definition session_create_vault ::
  "ext \<Rightarrow> session \<Rightarrow> u64 \<Rightarrow> bytes \<Rightarrow> bytes \<Rightarrow> string \<Rightarrow> bool \<Rightarrow> u8 \<Rightarrow> vault bop"
where
  "session_create_vault X S now rkey rid name encrypt_it min_replicas =
     bindop (ask (\<lambda>base. create_with_policy X now rkey rid (ss_default_home S) (om_mem base name) name encrypt_it min_replicas))
       (\<lambda>v.
     let v = with_soal_home (ss_home S) v in
     bindop (\<lambda>base. case save_policy (policy_default\<lparr>pl_min_replicas := max min_replicas 1\<rparr>) v of
               (r, w) \<Rightarrow> (r, om_insert name w base)) (\<lambda>_.
       session_open_vault X S name))"

definition session_add_path :: "ext \<Rightarrow> session \<Rightarrow> u64 \<Rightarrow> string \<Rightarrow> fs_tree \<Rightarrow> string \<Rightarrow> content_hash bop" where
  "session_add_path X S now name path logical =
     with_vault X S name
       (bindop (add_path X now path logical) (\<lambda>h. bindop (attempt (ensure_local_pins X now)) (\<lambda>_. ret h)))"

definition session_snapshot :: "ext \<Rightarrow> session \<Rightarrow> u64 \<Rightarrow> string \<Rightarrow> string \<Rightarrow> content_hash bop" where
  "session_snapshot X S now name message = with_vault X S name (snapshot X now message)"

text \<open>The files written are the result, here and their outcome.\<close>

definition session_restore ::
  "ext \<Rightarrow> session \<Rightarrow> (write_log \<Rightarrow> fsq) \<Rightarrow> string \<Rightarrow> content_hash \<Rightarrow> string \<Rightarrow> (unit result \<times> write_log) bop"
where
  "session_restore X S F name commit_hash target =
     with_vault X S name (\<lambda>v. (Ok (restore X F v commit_hash target []), v))"

definition session_head :: "ext \<Rightarrow> session \<Rightarrow> string \<Rightarrow> content_hash option bop" where
  "session_head X S name = with_vault X S name (ask (head_of X))"

definition session_set_policy :: "ext \<Rightarrow> session \<Rightarrow> string \<Rightarrow> policy \<Rightarrow> policy bop" where
  "session_set_policy X S name p = with_vault X S name (apply_policy X p)"

definition session_policy :: "ext \<Rightarrow> session \<Rightarrow> string \<Rightarrow> policy bop" where
  "session_policy X S name = with_vault X S name load_policy"

definition session_health_vault :: "ext \<Rightarrow> session \<Rightarrow> u64 \<Rightarrow> string \<Rightarrow> vault_health bop" where
  "session_health_vault X S now name = with_vault X S name (assess_vault X now)"

definition session_health_cluster :: "ext \<Rightarrow> session \<Rightarrow> u64 \<Rightarrow> nat \<Rightarrow> string option \<Rightarrow> cluster_health bop" where
  "session_health_cluster X S now peer_count node_id =
     assess_cluster X now (ss_default_home S) (ss_rid S) node_id peer_count"

definition session_diff :: "ext \<Rightarrow> session \<Rightarrow> string \<Rightarrow> content_hash \<Rightarrow> content_hash \<Rightarrow> tree_diff bop" where
  "session_diff X S name from to = with_vault X S name (ask (\<lambda>v. diff_commits X v from to))"

definition session_generate_invite ::
  "ext \<Rightarrow> token_ext \<Rightarrow> session \<Rightarrow> u64 \<Rightarrow> bytes \<Rightarrow> bytes \<Rightarrow> string \<Rightarrow> bytes \<Rightarrow> invite_role \<Rightarrow> u64 option \<Rightarrow> invite bop"
where
  "session_generate_invite X K S now secret nonce name sk role ttl_secs =
     with_vault X S name (ask (\<lambda>v. generate_invite X K now secret nonce v sk role ttl_secs))"

definition session_join_invite ::
  "ext \<Rightarrow> token_ext \<Rightarrow> session \<Rightarrow> u64 \<Rightarrow> string \<Rightarrow> string option \<Rightarrow> vault bop"
where
  "session_join_invite X K S now token local_name =
     join_invite X K now (ss_rid S (case local_name of Some n \<Rightarrow> n | None \<Rightarrow> [])) (ss_default_home S) (ss_home S) token local_name"

definition session_sync_head ::
  "ext \<Rightarrow> session \<Rightarrow> 'addr transport \<Rightarrow> network \<Rightarrow> u64 \<Rightarrow> string \<Rightarrow> content_hash \<Rightarrow> bool \<Rightarrow> sync_result bop"
where
  "session_sync_head X S T n now name head set_hd = with_vault X S name (fetch_dag X T (n_peers n) now head set_hd)"

text \<open>The announcement works on the node; the vault is only read.\<close>

definition session_announce_head ::
  "ext \<Rightarrow> session \<Rightarrow> 'addr transport \<Rightarrow> bytes \<Rightarrow> u64 \<Rightarrow> string \<Rightarrow> content_hash
    \<Rightarrow> (base_dir \<times> network, soal_error, unit) op"
where
  "session_announce_head X S T fresh now name head = (\<lambda>(base, n).
     case session_open_vault X S name base of
       (Ok v, base) \<Rightarrow> (case announce_head_signed X T fresh now v head n of
           (Ok _, n) \<Rightarrow> (Ok (), base, n) | (Err e, n) \<Rightarrow> (Err e, base, n) | (Panic, n) \<Rightarrow> (Panic, base, n))
     | (Err e, base) \<Rightarrow> (Err e, base, n)
     | (Panic, base) \<Rightarrow> (Panic, base, n))"

section \<open>Operations on a vault\<close>

text \<open>Everything the library does to an open vault, whatever its outcome.\<close>

inductive vault_step :: "ext \<Rightarrow> vault \<Rightarrow> vault \<Rightarrow> bool" for X where
  add: "add_path X now path name v = (r, w) \<Longrightarrow> vault_step X v w"
| snap: "snapshot X now msg v = (r, w) \<Longrightarrow> vault_step X v w"
| merge: "merge_head X now h label v = (r, w) \<Longrightarrow> vault_step X v w"
| ingest: "ingest_commit_from_peer X fetch peer h v = (r, w) \<Longrightarrow> vault_step X v w"
| import_commit: "import_commit_bytes X h data v = (r, w) \<Longrightarrow> vault_step X v w"
| import_tree: "import_tree_bytes X h data v = (r, w) \<Longrightarrow> vault_step X v w"
| import_chunk: "import_stored_chunk X h data v = (r, w) \<Longrightarrow> vault_step X v w"
| fetch: "fetch_dag X (T :: string transport) peers now h set_hd v = (r, w) \<Longrightarrow> vault_step X v w"
| set_head: "set_head_public X h v = (r, w) \<Longrightarrow> vault_step X v w"
| divergent: "set_divergent_head X h v = (r, w) \<Longrightarrow> vault_step X v w"
| watch: "watch_vault_path X root ex debounce dur rounds v = (r, w) \<Longrightarrow> vault_step X v w"
| tick: "run_tick X now p v = (r, w) \<Longrightarrow> vault_step X v w"
| forced: "force_auto_snapshot X now msg v = (r, w) \<Longrightarrow> vault_step X v w"
| collect: "gc_all X v = (r, w) \<Longrightarrow> vault_step X v w"
| pins: "ensure_local_pins X now v = (r, w) \<Longrightarrow> vault_step X v w"
| note_peer: "note_peer_has X now peer cids v = (r, w) \<Longrightarrow> vault_step X v w"
| read_policy: "load_policy v = (r, w) \<Longrightarrow> vault_step X v w"
| assess: "assess_vault X now v = (r, w) \<Longrightarrow> vault_step X v w"
| policy: "apply_policy X p v = (r, w) \<Longrightarrow> vault_step X v w"
| replicas: "set_min_replicas X n v = (r, w) \<Longrightarrow> vault_step X v w"
| member: "add_member X m v = (r, w) \<Longrightarrow> vault_step X v w"
| unmember: "remove_member X m v = (r, w) \<Longrightarrow> vault_step X v w"
| passphrase: "enable_passphrase X salt nonce pass v = (r, w) \<Longrightarrow> vault_step X v w"

text \<open>A step of the base directory: a vault is created, joined, or opened and worked on.\<close>

inductive base_step :: "ext \<Rightarrow> token_ext \<Rightarrow> session \<Rightarrow> base_dir \<Rightarrow> base_dir \<Rightarrow> bool" for X K S where
  created: "session_create_vault X S now rkey rid name en n base = (r, base') \<Longrightarrow> base_step X K S base base'"
| joined: "session_join_invite X K S now token nm base = (r, base') \<Longrightarrow> base_step X K S base base'"
| opened: "session_open_vault X S name base = (r, base') \<Longrightarrow> base_step X K S base base'"
| worked: "session_open_vault X S name base = (Ok v, base') \<Longrightarrow> vault_step X v w \<Longrightarrow>
    base_step X K S base (om_insert name w base')"

inductive_cases base_stepE: "base_step X K S base base'"

definition base_reach :: "ext \<Rightarrow> token_ext \<Rightarrow> session \<Rightarrow> base_dir \<Rightarrow> bool" where
  "base_reach X K S base \<longleftrightarrow> (base_step X K S)\<^sup>*\<^sup>* [] base"

section \<open>What stays true of every vault\<close>

text \<open>
  The object directories are content addressed; a configuration asks for at least one replica and
  holds no key; and once the key is wrapped under a passphrase, no plain key file is there.
\<close>

definition conf_ok :: "vault_config \<Rightarrow> bool" where
  "conf_ok c \<longleftrightarrow> vc_min_replicas c \<noteq> 0 \<and> vc_key_hex c = None"

definition vault_ok :: "ext \<Rightarrow> vault \<Rightarrow> bool" where
  "vault_ok X v \<longleftrightarrow> cas_ok X v \<and> conf_ok (v_config v) \<and> (\<exists>c. d_config v = Good c \<and> conf_ok c)
     \<and> (d_wrapped v = NoFile \<or> d_key v = None)"

lemma same_config_ok: "same_config v w \<Longrightarrow> keeps (cas_ok X) v w \<Longrightarrow> keeps (vault_ok X) v w"
  by (auto simp: same_config_def keeps_def vault_ok_def)

lemma object_steps_ok: "steps (keeps (cas_ok X)) m \<Longrightarrow> steps same_config m \<Longrightarrow> steps (keeps (vault_ok X)) m"
  by (auto simp: steps_def intro: same_config_ok)

lemma gc_same_config: "steps same_config (gc_all X)"
proof -
  have "steps same_config (gc_unreachable_chunks X)"
    unfolding gc_unreachable_chunks_def
    by (intro sc.steps_bindI sc.steps_ask) (simp add: steps_def same_config_def split: prod.split)
  moreover have "steps same_config (gc_unreachable_objects X)"
    unfolding gc_unreachable_objects_def
    by (intro sc.steps_bindI sc.steps_ask) (simp add: steps_def same_config_def split: prod.split)
  ultimately show ?thesis
    unfolding gc_all_def by (intro sc.steps_bindI) (auto intro!: sc.steps_intros split: prod.split)
qed

text \<open>Only the configuration changes, in memory and on disk alike.\<close>

lemma vault_ok_config:
  "vault_ok X v \<Longrightarrow> conf_ok c \<Longrightarrow> vault_ok X (v\<lparr>v_config := c\<rparr>)"
  "vault_ok X v \<Longrightarrow> vault_ok X (v\<lparr>d_config := Good (v_config v)\<rparr>)"
  by (auto simp: vault_ok_def cas_ok_def)

lemma vault_ok_conf: "vault_ok X v \<Longrightarrow> conf_ok (v_config v)"
  by (simp add: vault_ok_def)

lemma persist_ok: "steps (keeps (vault_ok X)) persist_config"
  unfolding persist_config_def by (rule steps_modify) (simp add: keeps_def write_config_def vault_ok_config(2))

lemma sign_conf_ok: "sign_vault_config X sk c = Ok c' \<Longrightarrow> conf_ok c \<Longrightarrow> conf_ok c'"
  by (auto simp: sign_vault_config_def conf_ok_def Let_def elim!: tryr_OkE)

lemma conf_ok_updates:
  "conf_ok c \<Longrightarrow> conf_ok (c\<lparr>vc_config_seq := n\<rparr>)" "conf_ok c \<Longrightarrow> conf_ok (c\<lparr>vc_owner := ow\<rparr>)"
  "conf_ok c \<Longrightarrow> conf_ok (c\<lparr>vc_members := ms\<rparr>)" "conf_ok c \<Longrightarrow> conf_ok (c\<lparr>vc_min_replicas := max r 1\<rparr>)"
  "conf_ok c \<Longrightarrow> conf_ok (c\<lparr>vc_key_wrapped := b, vc_key_hex := None\<rparr>)" "conf_ok c \<Longrightarrow> conf_ok (c\<lparr>vc_key_wrapped := b\<rparr>)"
  "conf_ok c \<Longrightarrow> conf_ok (c\<lparr>vc_vault_id := i\<rparr>)"
  by (simp_all add: conf_ok_def max_one_neq_zero)

lemma bump_ok: "steps (keeps (vault_ok X)) (bump_and_sign_config X)"
proof -
  have inner: "keeps (vault_ok X) v w"
    if run: "(case v_home v of
         None \<Rightarrow> persist_config v
       | Some home \<Rightarrow>
           (case load_secret_key X home of
              Ok sk \<Rightarrow>
                (case sign_vault_config X sk (v_config v) of
                   Ok c \<Rightarrow> persist_config (v\<lparr>v_config := c\<rparr>)
                 | Err e \<Rightarrow> (Err e, v\<lparr>v_config := (v_config v)\<lparr>vc_owner := Some (x_pk_display X (x_public X sk))\<rparr>\<rparr>)
                 | Panic \<Rightarrow> (Panic, v))
            | _ \<Rightarrow> persist_config v)) = (r, w)" for v r w
  proof -
    have p: "persist_config u = (r, w) \<Longrightarrow> vault_ok X u \<Longrightarrow> vault_ok X w" for u
      using stepsD [OF persist_ok] by (auto simp: keeps_def)
    have "vault_ok X w" if v: "vault_ok X v"
      using run p vault_ok_config(1) [OF v] conf_ok_updates(2) [OF vault_ok_conf [OF v]] sign_conf_ok vault_ok_conf [OF v] v
      by (auto split: option.splits res.splits)
    then show ?thesis by (simp add: keeps_def)
  qed
  show ?thesis
    unfolding bump_and_sign_config_def
  proof (rule keep.steps_bindI)
    show "steps (keeps (vault_ok X)) (modify (\<lambda>v. v\<lparr>v_config := (v_config v)\<lparr>vc_config_seq := sat_add (vc_config_seq (v_config v)) 1\<rparr>\<rparr>))"
      by (rule steps_modify) (auto simp: keeps_def intro!: vault_ok_config(1) conf_ok_updates(1) vault_ok_conf)
  qed (rule stepsI, erule inner)
qed

lemma config_ops_ok:
  "steps (keeps (vault_ok X)) (set_min_replicas X n)" "steps (keeps (vault_ok X)) (add_member X m)"
  "steps (keeps (vault_ok X)) (remove_member X m)" "steps (keeps (vault_ok X)) (apply_policy X p)"
proof -
  have md: "steps (keeps (vault_ok X)) (modify (\<lambda>v. v\<lparr>v_config := f (v_config v)\<rparr>))" if "\<And>c. conf_ok c \<Longrightarrow> conf_ok (f c)" for f
    by (rule steps_modify) (auto simp: keeps_def intro!: vault_ok_config(1) that vault_ok_conf)
  show r: "steps (keeps (vault_ok X)) (set_min_replicas X n)" for n
    unfolding set_min_replicas_def by (intro keep.steps_bindI bump_ok md conf_ok_updates)
  show "steps (keeps (vault_ok X)) (add_member X m)"
    unfolding add_member_def Let_def
    by (intro keep.steps_if keep.steps_fail steps_if_state keep.steps_ret keep.steps_bindI bump_ok md conf_ok_updates)
  show "steps (keeps (vault_ok X)) (remove_member X m)"
  proof (rule stepsI)
    fix v r w
    assume "remove_member X m v = (r, w)"
    moreover have "steps (keeps (vault_ok X)) (bindop (modify (\<lambda>v. v\<lparr>v_config := (v_config v)\<lparr>vc_members := ms\<rparr>\<rparr>))
            (\<lambda>_. bindop (bump_and_sign_config X) (\<lambda>_. ret True)))" for ms
      by (intro keep.steps_bindI bump_ok md conf_ok_updates keep.steps_ret)
    ultimately show "keeps (vault_ok X) v w"
      by (auto simp: remove_member_def Let_def ret_def keep.refl split: if_splits dest: stepsD)
  qed
  have "steps (keeps (vault_ok X)) (save_policy p)"
    by (intro object_steps_ok oc.side_steps os.side_steps save_policy_side)
  then show "steps (keeps (vault_ok X)) (apply_policy X p)"
    unfolding apply_policy_def by (intro keep.steps_bindI keep.steps_ask keep.steps_ret steps_if_state r)
qed

lemma enable_passphrase_ok: "steps (keeps (vault_ok X)) (enable_passphrase X salt nonce pass)"
  unfolding enable_passphrase_def
  by (intro steps_if_state keep.steps_fail keep.steps_bindI keep.steps_ask steps_modify bump_ok)
    (auto simp: keeps_def vault_ok_def cas_ok_def write_wrapped_key_def intro: conf_ok_updates)

lemma assess_vault_side: "steps side (assess_vault X now)"
  unfolding assess_vault_def or_default_def
  by (auto intro!: sd.steps_intros load_policy_side split: prod.splits)

lemmas written_ok =
  object_steps_ok [OF oc.add_path_steps os.add_path_steps] object_steps_ok [OF oc.snapshot_steps os.snapshot_steps]
  object_steps_ok [OF oc.merge_head_steps os.merge_head_steps] object_steps_ok [OF oc.ingest_steps os.ingest_steps]
  object_steps_ok [OF oc.import_commit_steps os.import_commit_steps]
  object_steps_ok [OF oc.import_tree_steps os.import_tree_steps]
  object_steps_ok [OF oc.import_chunk_steps os.import_chunk_steps] object_steps_ok [OF oc.fetch_dag_steps os.fetch_dag_steps]
  object_steps_ok [OF oc.set_head_public_steps os.set_head_public_steps]
  object_steps_ok [OF oc.set_divergent_head_steps os.set_divergent_head_steps]
  object_steps_ok [OF oc.watch_steps os.watch_steps] object_steps_ok [OF run_tick_cas os.run_tick_steps [OF gc_same_config]]
  object_steps_ok [OF oc.force_auto_steps os.force_auto_steps] object_steps_ok [OF gc_cas gc_same_config]
  object_steps_ok [OF oc.side_steps [OF ensure_local_pins_side] os.side_steps [OF ensure_local_pins_side]]
  object_steps_ok [OF oc.side_steps [OF note_peer_has_side] os.side_steps [OF note_peer_has_side]]
  object_steps_ok [OF oc.side_steps [OF load_policy_side] os.side_steps [OF load_policy_side]]
  object_steps_ok [OF oc.side_steps [OF assess_vault_side] os.side_steps [OF assess_vault_side]]
  config_ops_ok enable_passphrase_ok

lemma vault_step_ok: "vault_step X v w \<Longrightarrow> vault_ok X v \<Longrightarrow> vault_ok X w"
proof -
  assume "vault_step X v w"
  then have "keeps (vault_ok X) v w" by cases (rule stepsD, rule written_ok, assumption)+
  then show "vault_ok X v \<Longrightarrow> vault_ok X w" by (simp add: keeps_def)
qed

section \<open>Opening and creating\<close>

lemma load_or_migrate_ok:
  assumes "load_or_migrate_key X pass c v = Ok (k, c', v')" "conf_ok c" "vault_ok X v"
  shows "conf_ok c' \<and> vault_ok X v'"
  using assms
  by (auto simp: load_or_migrate_key_def conf_ok_def elim!: tryr_OkE split: if_splits option.splits)

lemma open_ok:
  assumes "open_with_passphrase X rid home name (Some v) pass = Ok u" "vault_ok X v"
  shows "vault_ok X u"
proof -
  obtain c where c: "d_config v = Good c" "conf_ok c" using assms(2) by (auto simp: vault_ok_def)
  have fin: "vault_ok X ((if rw then write_config c1 v1 else v1)\<lparr>v_name := vc_name c1, v_config := c1, v_key := k, v_home := Some home\<rparr>)"
    if "conf_ok c1" "vault_ok X v1" for c1 v1 rw k
    using that by (auto simp: vault_ok_def cas_ok_def write_config_def)
  let ?p1 = "if vc_vault_id c = [] then (c\<lparr>vc_vault_id := x_hex_enc X rid\<rparr>, True) else (c, False)"
  let ?p2 = "if vc_config_seq (fst ?p1) = 0 then ((fst ?p1)\<lparr>vc_config_seq := 1\<rparr>, True) else ?p1"
  have p2: "conf_ok (fst ?p2)" using c(2) by (auto simp: conf_ok_def)
  from assms(1) c(1) obtain key c1 v1 where
    "(if vc_encryption_enabled (fst ?p2) then
        tryr (load_or_migrate_key X pass (fst ?p2) v) (\<lambda>(k, c, v). Ok (Some k, c, v)) else Ok (None, fst ?p2, v)) = Ok (key, c1, v1)"
    "u = (if snd ?p2 then write_config c1 v1 else v1)\<lparr>v_name := vc_name c1, v_config := c1, v_key := key, v_home := Some home\<rparr>"
    by (auto simp: open_with_passphrase_def Let_def split: if_splits elim!: tryr_OkE)
  note r = this
  have "conf_ok c1 \<and> vault_ok X v1"
  proof (cases "vc_encryption_enabled (fst ?p2)")
    case True
    with r(1) obtain k where "load_or_migrate_key X pass (fst ?p2) v = Ok (k, c1, v1)"
      by (simp only: if_True) (auto elim!: tryr_OkE)
    then show ?thesis using load_or_migrate_ok p2 assms(2) by blast
  next
    case False
    with r(1) have "fst ?p2 = c1" "v = v1" by (simp_all only: if_False res.inject prod.inject)
    then show ?thesis using p2 assms(2) by simp
  qed
  then show ?thesis unfolding r(2) using fin by blast
qed

lemma create_ok:
  assumes "create_with_policy X now rkey rid home ex name en n = Ok v"
  shows "vault_ok X v"
proof -
  have e: "cas_ok X (empty_root name c k h)" for c k h by (simp add: cas_ok_def empty_root_def addressed_def)
  have m: "max n 1 \<noteq> 0" by (rule max_one_neq_zero)
  let ?c = "\<lambda>ms. \<lparr>vc_name = name, vc_encryption_enabled = en, vc_min_replicas = max n 1, vc_created_at = now,
     vc_vault_id = x_hex_enc X rid, vc_config_seq = 1, vc_members = ms, vc_owner = (case ms of [] \<Rightarrow> None | m # _ \<Rightarrow> Some m),
     vc_config_sig = None, vc_key_wrapped = False, vc_key_hex = None\<rparr>"
  have k: "conf_ok (?c ms)" "conf_ok ((?c ms)\<lparr>vc_owner := ow\<rparr>)" for ms ow using m by (simp_all add: conf_ok_def)
  have made: "vault_ok X (write_config c (empty_root name c key h))" "vault_ok X (write_key_file X k (write_config c (empty_root name c key h)))"
    if "conf_ok c" for c key h k
    using that e by (auto simp: vault_ok_def cas_ok_def write_config_def write_key_file_def empty_root_def addressed_def)
  show ?thesis
    using assms k made sign_conf_ok
    by (auto simp: create_with_policy_def Let_def split: if_splits res.splits)
qed

definition base_ok :: "ext \<Rightarrow> base_dir \<Rightarrow> bool" where
  "base_ok X base \<longleftrightarrow> (\<forall>n v. om_get base n = Some v \<longrightarrow> vault_ok X v)"

lemma base_ok_insert: "base_ok X base \<Longrightarrow> vault_ok X v \<Longrightarrow> base_ok X (om_insert n v base)"
  by (auto simp: base_ok_def om_get_insert)

lemma session_open_ok:
  assumes "session_open_vault X S name base = (r, base')" "base_ok X base"
  shows "base_ok X base'" "r = Ok v \<Longrightarrow> vault_ok X v"
proof -
  let ?o = "open_with_passphrase X (ss_rid S name) (ss_default_home S) name (om_get base name) (ss_passphrase S)"
  have u: "vault_ok X (with_soal_home h u)" if o: "?o = Ok u" for u h
  proof -
    obtain d where d: "om_get base name = Some d" using o by (cases "om_get base name") (auto simp: open_with_passphrase_def)
    then have "vault_ok X u" using open_ok o assms(2) by (metis base_ok_def)
    then show ?thesis by (simp add: vault_ok_def cas_ok_def with_soal_home_def)
  qed
  show "base_ok X base'" "r = Ok v \<Longrightarrow> vault_ok X v"
    using assms base_ok_insert u by (auto simp: session_open_vault_def Let_def split: res.splits)
qed

lemma session_create_ok:
  assumes "session_create_vault X S now rkey rid name en n base = (r, base')" "base_ok X base"
  shows "base_ok X base'"
proof (cases "create_with_policy X now rkey rid (ss_default_home S) (om_mem base name) name en n")
  case (Ok v)
  let ?v = "with_soal_home (ss_home S) v" and ?p = "policy_default\<lparr>pl_min_replicas := max n 1\<rparr>"
  obtain r1 w where sp: "save_policy ?p ?v = (r1, w)" by (cases "save_policy ?p ?v")
  have "vault_ok X ?v" using create_ok [OF Ok] by (simp add: vault_ok_def cas_ok_def with_soal_home_def)
  moreover have sv: "steps (keeps (vault_ok X)) (save_policy ?p)"
    by (intro object_steps_ok oc.side_steps os.side_steps save_policy_side)
  ultimately have "vault_ok X w" using stepsD [OF sv sp] by (auto simp: keeps_def)
  then have b: "base_ok X (om_insert name w base)" by (rule base_ok_insert [OF assms(2)])
  then show ?thesis
    using assms(1) session_open_ok(1) [OF _ b] by (cases r1) (auto simp: session_create_vault_def bindop_def ask_def Ok sp Let_def)
qed (use assms in \<open>auto simp: session_create_vault_def bindop_def ask_def\<close>)

lemma create_for_test_ok:
  assumes "create_for_test X now rkey ex name en vid key ms = Ok v" "conf_ok c"
  shows "vault_ok X (write_config c (v\<lparr>v_config := c\<rparr>))"
  using assms
  by (auto simp: create_for_test_def Let_def vault_ok_def cas_ok_def addressed_def write_config_def write_key_file_def
      empty_root_def split: if_splits option.splits)

lemma join_finish_ok:
  assumes "join_finish X rid dh home name iv v base = (r, base')" "base_ok X base"
    and "create_for_test X now rkey ex name' en vid key ms = Ok v"
  shows "base_ok X base'"
proof -
  let ?c = "(v_config v)\<lparr>vc_min_replicas := max (iv_min_replicas iv) 1, vc_config_seq := iv_config_seq iv,
      vc_vault_id := iv_vault_id_hex iv\<rparr>"
  have "vc_key_hex (v_config v) = None"
    using assms(3) by (auto simp: create_for_test_def Let_def write_config_def write_key_file_def empty_root_def split: if_splits option.splits)
  then have "conf_ok ?c" by (simp add: conf_ok_def max_one_neq_zero)
  then have ok: "vault_ok X (write_config ?c (v\<lparr>v_config := ?c\<rparr>))" by (rule create_for_test_ok [OF assms(3)])
  note ins = base_ok_insert [OF assms(2) ok]
  have home: "vault_ok X u \<Longrightarrow> vault_ok X (with_soal_home home u)" for u
    by (simp add: vault_ok_def cas_ok_def with_soal_home_def)
  show ?thesis
    using assms(1) ins open_ok [OF _ ok] base_ok_insert home
    by (auto simp: join_finish_def bindop_def modify_def om_get_insert open_vault_def Let_def split: res.splits)
qed

lemma join_ok:
  assumes "join_invite X K now rid dh home token nm base = (r, base')" "base_ok X base"
  shows "base_ok X base'"
  using assms join_finish_ok [of X rid dh home _ _ _ base r base']
  by (auto simp: join_invite_def bindop_def ask_def Let_def split: res.splits)

lemma base_step_ok: "base_step X K S base base' \<Longrightarrow> base_ok X base \<Longrightarrow> base_ok X base'"
proof (induction rule: base_step.induct)
  case (worked name base v base' w)
  then show ?case using session_open_ok vault_step_ok base_ok_insert by metis
qed (auto intro: session_create_ok session_open_ok(1) join_ok simp: session_join_invite_def)

lemma reachable_ok: "base_reach X K S base \<Longrightarrow> base_ok X base"
  unfolding base_reach_def
  by (induction rule: rtranclp_induct) (auto simp: base_ok_def intro: base_step_ok [unfolded base_ok_def, rule_format])

end
