(* ===== verification/Converge.thy ===== *)
theory Converge
  imports Sync
begin

text \<open>
  Liveness of a fetch: when the peers deliver the graph of a commit, what is here already reads as
  it does there, and no interrupted job is resumed, the fetch succeeds. With the safety results of
  \<open>Sync\<close> this says that replicas converge.
\<close>

section \<open>A graph on offer\<close>

text \<open>
  \<open>u\<close> is a copy of the graph; \<open>offered\<close> says that the peers deliver one commit of it with its tree
  and its chunks, in binary form and properly signed.
\<close>

definition delivers :: "fetcher \<Rightarrow> content_hash \<Rightarrow> bytes \<Rightarrow> bool" where
  "delivers fetch h b \<longleftrightarrow> (\<exists>peer. fetch h = Ok (peer, b))"

definition offered :: "ext \<Rightarrow> vault \<Rightarrow> fetcher \<Rightarrow> content_hash \<Rightarrow> bool" where
  "offered X u fetch h \<longleftrightarrow> (\<exists>c t b tb.
     load_commit X u h = Ok c \<and> om_get (d_commits_bin u) h = Some b \<and> has_domain DOMAIN_COMMIT b
   \<and> delivers fetch h b \<and> verify_commit_signature X c = Ok ()
   \<and> load_tree X u (c_tree c) = Ok t \<and> om_get (d_trees_bin u) (c_tree c) = Some tb \<and> has_domain DOMAIN_TREE tb
   \<and> delivers fetch (c_tree c) tb
   \<and> (\<forall>ch\<in>set (all_chunk_hashes t). \<exists>d. delivers fetch ch d \<and> hash_of X d = ch))"

definition consistent :: "ext \<Rightarrow> vault \<Rightarrow> vault \<Rightarrow> content_hash \<Rightarrow> bool" where
  "consistent X u v h \<longleftrightarrow> (\<forall>c t. load_commit X u h = Ok c \<longrightarrow> load_tree X u (c_tree c) = Ok t \<longrightarrow>
     (has_commit_object v h \<longrightarrow> load_commit X v h = Ok c)
   \<and> (has_tree_object v (c_tree c) \<longrightarrow> load_tree X v (c_tree c) = Ok t))"

text \<open>A run whose vault reads the graph as \<open>u\<close> does, and whose job claims only what is here.\<close>

definition ready :: "ext \<Rightarrow> vault \<Rightarrow> content_hash set \<Rightarrow> sync_run \<Rightarrow> bool" where
  "ready X u R s \<longleftrightarrow> (\<forall>h\<in>R. consistent X u (sr_vault s) h)
   \<and> (\<forall>h\<in>set (sj_done_commits (sr_job s)). has_commit_object (sr_vault s) h)
   \<and> (\<forall>h\<in>set (sj_done_trees (sr_job s)). has_tree_object (sr_vault s) h)
   \<and> (\<forall>h\<in>set (sj_done_chunks (sr_job s)). has_chunk (sr_vault s) h)"

section \<open>Imports of what is offered succeed\<close>

lemma import_delivered_commit:
  assumes "load_commit X u h = Ok c" "om_get (d_commits_bin u) h = Some b" "has_domain DOMAIN_COMMIT b"
    "verify_commit_signature X c = Ok ()"
  shows "import_commit_bytes X h b v = (Ok (), v\<lparr>d_commits_bin := om_insert h b (d_commits_bin v)\<rparr>)"
    "load_commit X (v\<lparr>d_commits_bin := om_insert h b (d_commits_bin v)\<rparr>) h = Ok c"
  using assms
  by (auto simp: load_commit_def import_commit_bytes_def bindop_def ask_def modify_def om_get_insert split: if_splits
      elim!: tryr_OkE)

lemma import_delivered_tree:
  assumes "load_tree X u h = Ok t" "om_get (d_trees_bin u) h = Some b" "has_domain DOMAIN_TREE b"
  shows "import_tree_bytes X h b v = (Ok (), v\<lparr>d_trees_bin := om_insert h b (d_trees_bin v)\<rparr>)"
    "load_tree X (v\<lparr>d_trees_bin := om_insert h b (d_trees_bin v)\<rparr>) h = Ok t"
  using assms
  by (auto simp: load_tree_def import_tree_bytes_def bindop_def ask_def modify_def om_get_insert split: if_splits
      elim!: tryr_OkE)

lemma import_delivered_chunk:
  assumes "hash_of X d = h" "\<not> has_chunk v h"
  shows "import_stored_chunk X h d v = (Ok (), v\<lparr>d_chunks := om_insert h d (d_chunks v)\<rparr>)"
  using assms
  by (simp add: import_stored_chunk_def put_chunk_def put_def put_verified_def bindop_def ret_def has_chunk_def
      store_exists_def om_mem_def)

lemma checkpoint_run:
  "checkpoint now f s = (Ok (), s\<lparr>sr_job := (f (sr_job s))\<lparr>sj_updated_at := now\<rparr>,
     sr_vault := persist_job ((f (sr_job s))\<lparr>sj_updated_at := now\<rparr>) (sr_vault s)\<rparr>)"
  by (simp add: checkpoint_def modify_def Let_def)

lemma persist_has [simp]:
  "has_commit_object (persist_job j v) = has_commit_object v" "has_tree_object (persist_job j v) = has_tree_object v"
  "has_chunk (persist_job j v) = has_chunk v"
  by (auto simp: persist_job_def has_commit_object_def has_tree_object_def has_chunk_def)

lemma consistent_persist [simp]: "consistent X u (persist_job j v) h = consistent X u v h"
  by (simp add: consistent_def persist_same)

text \<open>Consistency survives an object that reads as it does in \<open>u\<close>.\<close>

lemma consistent_keeps:
  assumes "consistent X u v h" "keeps_loads X v w"
    and "has_commit_object w h \<Longrightarrow> has_commit_object v h \<or> load_commit X w h = load_commit X u h"
    and "\<And>c. load_commit X u h = Ok c \<Longrightarrow> has_tree_object w (c_tree c) \<Longrightarrow>
      has_tree_object v (c_tree c) \<or> load_tree X w (c_tree c) = load_tree X u (c_tree c)"
  shows "consistent X u w h"
  using assms unfolding consistent_def keeps_loads_def by metis

lemma grows_has: "grows v w \<Longrightarrow> has_commit_object v h \<Longrightarrow> has_commit_object w h"
  "grows v w \<Longrightarrow> has_tree_object v h \<Longrightarrow> has_tree_object w h"
  by (auto simp: grows_def has_commit_object_def has_tree_object_def)

lemma ready_keeps:
  assumes "ready X u R s" "keeps_loads X (sr_vault s) (sr_vault t)"
    and "\<And>h. h \<in> R \<Longrightarrow> consistent X u (sr_vault t) h"
    and "\<And>h. h \<in> set (sj_done_commits (sr_job t)) \<Longrightarrow> h \<in> set (sj_done_commits (sr_job s)) \<or> has_commit_object (sr_vault t) h"
    and "\<And>h. h \<in> set (sj_done_trees (sr_job t)) \<Longrightarrow> h \<in> set (sj_done_trees (sr_job s)) \<or> has_tree_object (sr_vault t) h"
    and "\<And>h. h \<in> set (sj_done_chunks (sr_job t)) \<Longrightarrow> h \<in> set (sj_done_chunks (sr_job s)) \<or> has_chunk (sr_vault t) h"
  shows "ready X u R t"
proof -
  have "grows (sr_vault s) (sr_vault t)" using assms(2) by (simp add: keeps_loads_def)
  then show ?thesis using assms(1,3-6) grows_has grows_has_chunk unfolding ready_def by metis
qed


section \<open>One commit\<close>

lemma ready_commit_arrives:
  assumes "ready X u R s" "\<not> has_commit_object (sr_vault s) h" "load_commit X u h = Ok c"
    "om_get (d_commits_bin u) h = Some b" "has_domain DOMAIN_COMMIT b" "verify_commit_signature X c = Ok ()"
  defines "w \<equiv> (sr_vault s)\<lparr>d_commits_bin := om_insert h b (d_commits_bin (sr_vault s))\<rparr>"
  shows "import_commit_bytes X h b (sr_vault s) = (Ok (), w)" "ready X u R (s\<lparr>sr_vault := w, sr_commits := n\<rparr>)"
    "load_commit X w h = Ok c" "has_commit_object w h"
proof -
  note im = import_delivered_commit [OF assms(3-6), of "sr_vault s", folded w_def]
  show "import_commit_bytes X h b (sr_vault s) = (Ok (), w)" "load_commit X w h = Ok c" by (rule im)+
  show has: "has_commit_object w h" by (simp add: w_def has_commit_object_def om_mem_insert)
  have k: "keeps_loads X (sr_vault s) w" by (rule import_commit_loads [OF assms(2) im(1)])
  have "consistent X u w k" if "k \<in> R" for k
  proof (rule consistent_keeps [OF _ k])
    show "consistent X u (sr_vault s) k" using assms(1) that by (simp add: ready_def)
    show "has_commit_object w k \<Longrightarrow> has_commit_object (sr_vault s) k \<or> load_commit X w k = load_commit X u k"
      using im(2) assms(3) by (auto simp: w_def has_commit_object_def om_mem_insert)
  qed (simp add: w_def has_tree_object_def)
  then show "ready X u R (s\<lparr>sr_vault := w, sr_commits := n\<rparr>)" using assms(1) k by (elim ready_keeps) simp_all
qed

lemma ready_tree_arrives:
  assumes "ready X u R s" "\<not> has_tree_object (sr_vault s) h" "load_tree X u h = Ok t"
    "om_get (d_trees_bin u) h = Some b" "has_domain DOMAIN_TREE b"
  defines "w \<equiv> (sr_vault s)\<lparr>d_trees_bin := om_insert h b (d_trees_bin (sr_vault s))\<rparr>"
  shows "import_tree_bytes X h b (sr_vault s) = (Ok (), w)" "ready X u R (s\<lparr>sr_vault := w, sr_trees := n\<rparr>)"
    "load_tree X w h = Ok t" "has_tree_object w h"
proof -
  note im = import_delivered_tree [OF assms(3-5), of "sr_vault s", folded w_def]
  show "import_tree_bytes X h b (sr_vault s) = (Ok (), w)" "load_tree X w h = Ok t" by (rule im)+
  show has: "has_tree_object w h" by (simp add: w_def has_tree_object_def om_mem_insert)
  have k: "keeps_loads X (sr_vault s) w" by (rule import_tree_loads [OF assms(2) im(1)])
  have "consistent X u w k" if "k \<in> R" for k
  proof (rule consistent_keeps [OF _ k])
    show "consistent X u (sr_vault s) k" using assms(1) that by (simp add: ready_def)
    show "has_tree_object w (c_tree c) \<Longrightarrow> has_tree_object (sr_vault s) (c_tree c)
        \<or> load_tree X w (c_tree c) = load_tree X u (c_tree c)" for c
      using im(2) assms(3) by (auto simp: w_def has_tree_object_def om_mem_insert)
  qed (simp add: w_def has_commit_object_def)
  then show "ready X u R (s\<lparr>sr_vault := w, sr_trees := n\<rparr>)" using assms(1) k by (elim ready_keeps) simp_all
qed

text \<open>A checkpoint that only claims what is here keeps a run ready.\<close>

lemma ready_checkpoint:
  assumes "ready X u R s" "checkpoint now f s = (r, t)"
    and "\<And>h. h \<in> set (sj_done_commits (f (sr_job s))) \<Longrightarrow> h \<in> set (sj_done_commits (sr_job s)) \<or> has_commit_object (sr_vault s) h"
    and "\<And>h. h \<in> set (sj_done_trees (f (sr_job s))) \<Longrightarrow> h \<in> set (sj_done_trees (sr_job s)) \<or> has_tree_object (sr_vault s) h"
    and "\<And>h. h \<in> set (sj_done_chunks (f (sr_job s))) \<Longrightarrow> h \<in> set (sj_done_chunks (sr_job s)) \<or> has_chunk (sr_vault s) h"
  shows "r = Ok ()" "ready X u R t" "\<exists>j. sr_vault t = persist_job j (sr_vault s)"
proof -
  have t: "r = Ok ()" "t = s\<lparr>sr_job := (f (sr_job s))\<lparr>sj_updated_at := now\<rparr>,
     sr_vault := persist_job ((f (sr_job s))\<lparr>sj_updated_at := now\<rparr>) (sr_vault s)\<rparr>"
    using assms(2) by (simp_all add: checkpoint_run)
  show "r = Ok ()" "\<exists>j. sr_vault t = persist_job j (sr_vault s)" using t by auto
  have "keeps_loads X (sr_vault s) (sr_vault t)" by (simp add: t(2) persist_job_loads)
  then show "ready X u R t" using assms(1,3-5) by (elim ready_keeps [rotated]) (auto simp: t(2) ready_def)
qed

lemma sync_commit_succeeds:
  assumes "ready X u R s" "h \<in> R" "offered X u fetch h" "load_commit X u h = Ok c"
  obtains t where "sync_commit X fetch now h s = (Ok c, t)" "ready X u R t" "has_commit_object (sr_vault t) h"
    "load_commit X (sr_vault t) h = Ok c"
proof -
  obtain tr b where o: "om_get (d_commits_bin u) h = Some b" "has_domain DOMAIN_COMMIT b" "delivers fetch h b"
    "verify_commit_signature X c = Ok ()" "load_tree X u (c_tree c) = Ok tr"
    using assms(3,4) by (auto simp: offered_def)
  have here: "has_commit_object (sr_vault s) h \<Longrightarrow> load_commit X (sr_vault s) h = Ok c"
    using assms(1,2,4) o(5) by (auto simp: ready_def consistent_def)
  show thesis
  proof (cases "h \<in> set (sj_done_commits (sr_job s))")
    case True
    then have "has_commit_object (sr_vault s) h" using assms(1) by (auto simp: ready_def)
    then show thesis using that [of s] here assms(1) True by (simp add: sync_commit_def bindop_def ret_def ask_def)
  next
    case new: False
    obtain s1 where s1: "(if \<not> has_commit_object (sr_vault s) h then
                 bindop (fetch_import fetch h (import_commit_bytes X)) (\<lambda>_. modify (\<lambda>s. s\<lparr>sr_commits := sr_commits s + 1\<rparr>)) s
               else ask (\<lambda>s. tryr (load_commit X (sr_vault s) h) (verify_commit_signature X)) s) = (Ok (), s1)"
      "ready X u R s1" "load_commit X (sr_vault s1) h = Ok c" "has_commit_object (sr_vault s1) h"
    proof (cases "has_commit_object (sr_vault s) h")
      case True
      then show thesis using that [of s] here o(4) assms(1) by (simp add: ask_def)
    next
      case False
      note im = ready_commit_arrives [OF assms(1) False assms(4) o(1,2,4)]
      obtain p where "fetch h = Ok (p, b)" using o(3) by (auto simp: delivers_def)
      then show thesis
        using that [OF _ im(2)] im(1,3,4) False by (simp add: fetch_import_def bindop_def ask_def on_vault_def modify_def)
    qed
    obtain r t where ck: "checkpoint now (\<lambda>j. j\<lparr>sj_done_commits := os_insert h (sj_done_commits j)\<rparr>) s1 = (r, t)"
      by (cases "checkpoint now (\<lambda>j. j\<lparr>sj_done_commits := os_insert h (sj_done_commits j)\<rparr>) s1")
    have "r = Ok () \<and> ready X u R t \<and> (\<exists>j. sr_vault t = persist_job j (sr_vault s1))"
      using ready_checkpoint [OF s1(2) ck] s1(4) by auto
    then show thesis
      using that [of t] new s1 ck by (auto simp: sync_commit_def bindop_def ask_def persist_same)
  qed
qed

lemma sync_tree_succeeds:
  assumes "ready X u R s" "h \<in> R" "offered X u fetch h" "load_commit X u h = Ok c" "load_tree X u (c_tree c) = Ok tr"
  obtains t where "sync_tree X fetch now (c_tree c) s = (Ok tr, t)" "ready X u R t"
proof -
  obtain b where o: "om_get (d_trees_bin u) (c_tree c) = Some b" "has_domain DOMAIN_TREE b" "delivers fetch (c_tree c) b"
    using assms(3,4,5) by (auto simp: offered_def)
  have here: "has_tree_object (sr_vault s) (c_tree c) \<Longrightarrow> load_tree X (sr_vault s) (c_tree c) = Ok tr"
    using assms(1,2,4,5) by (auto simp: ready_def consistent_def)
  show thesis
  proof (cases "c_tree c \<in> set (sj_done_trees (sr_job s))")
    case True
    then have "has_tree_object (sr_vault s) (c_tree c)" using assms(1) by (auto simp: ready_def)
    then show thesis using that [of s] here assms(1) True by (simp add: sync_tree_def bindop_def ret_def ask_def)
  next
    case new: False
    obtain s1 where s1: "(if \<not> has_tree_object (sr_vault s) (c_tree c) then
                 bindop (fetch_import fetch (c_tree c) (import_tree_bytes X)) (\<lambda>_. modify (\<lambda>s. s\<lparr>sr_trees := sr_trees s + 1\<rparr>)) s
               else ret () s) = (Ok (), s1)"
      "ready X u R s1" "load_tree X (sr_vault s1) (c_tree c) = Ok tr" "has_tree_object (sr_vault s1) (c_tree c)"
    proof (cases "has_tree_object (sr_vault s) (c_tree c)")
      case True
      then show thesis using that [of s] here assms(1) by (simp add: ret_def)
    next
      case False
      note im = ready_tree_arrives [OF assms(1) False assms(5) o(1,2)]
      obtain p where "fetch (c_tree c) = Ok (p, b)" using o(3) by (auto simp: delivers_def)
      then show thesis
        using that [OF _ im(2)] im(1,3,4) False by (simp add: fetch_import_def bindop_def ask_def on_vault_def modify_def)
    qed
    obtain r t where ck: "checkpoint now (\<lambda>j. j\<lparr>sj_done_trees := os_insert (c_tree c) (sj_done_trees j)\<rparr>) s1 = (r, t)"
      by (cases "checkpoint now (\<lambda>j. j\<lparr>sj_done_trees := os_insert (c_tree c) (sj_done_trees j)\<rparr>) s1")
    have "r = Ok () \<and> ready X u R t \<and> (\<exists>j. sr_vault t = persist_job j (sr_vault s1))"
      using ready_checkpoint [OF s1(2) ck] s1(4) by auto
    then show thesis
      using that [of t] new s1 ck by (auto simp: sync_tree_def bindop_def ask_def persist_same)
  qed
qed


section \<open>The chunks of a tree\<close>

lemma sync_chunk_succeeds:
  assumes "ready X u R s" "delivers fetch ch d" "hash_of X d = ch"
  obtains t where "sync_chunk X fetch now ch () s = (Ok (), t)" "ready X u R t"
proof (cases "ch \<in> set (sj_done_chunks (sr_job s))")
  case True
  then show thesis using that [of s] assms(1) by (simp add: sync_chunk_def ret_def)
next
  case new: False
  obtain s1 ds where s1: "chunk_arrives X fetch ch s = (Ok (), s1)" "sr_job s1 = sr_job s"
    and ds: "sr_vault s1 = (sr_vault s)\<lparr>d_chunks := ds\<rparr>"
  proof (cases "has_chunk (sr_vault s) ch")
    case True
    then show thesis using that [of s "d_chunks (sr_vault s)"] by (simp add: chunk_arrives_def ret_def)
  next
    case False
    note im = import_delivered_chunk [OF assms(3) False]
    obtain p where "fetch ch = Ok (p, d)" using assms(2) by (auto simp: delivers_def)
    then show thesis
      using that False im by (simp add: chunk_arrives_def fetch_import_def bindop_def ask_def on_vault_def modify_def)
  qed
  have k: "keeps_loads X (sr_vault s) (sr_vault s1)" and has: "has_chunk (sr_vault s1) ch"
    using chunk_arrives_step(1) [OF s1(1), of "{}"] chunk_arrives_step(2) [OF s1(1)] by (simp_all add: pulls_def)
  have c1: "consistent X u (sr_vault s1) h" if "h \<in> R" for h
  proof (rule consistent_keeps [OF _ k])
    show "consistent X u (sr_vault s) h" using assms(1) that by (simp add: ready_def)
  qed (simp_all add: ds has_commit_object_def has_tree_object_def)
  let ?s = "s1\<lparr>sr_job := (sr_job s1)\<lparr>sj_done_chunks := os_insert ch (sj_done_chunks (sr_job s1))\<rparr>\<rparr>"
  have r: "ready X u R ?s" by (rule ready_keeps [OF assms(1)]) (use k c1 has s1(2) in auto)
  obtain r2 t where ck: "checkpoint now (\<lambda>j. j) ?s = (r2, t)" by (cases "checkpoint now (\<lambda>j. j) ?s")
  note c = ready_checkpoint [OF r ck]
  show thesis
  proof (rule that)
    show "sync_chunk X fetch now ch () s
        = (Ok (), if length (os_insert ch (sj_done_chunks (sr_job s1))) mod 32 = 0 then t else ?s)"
      using new s1(1) ck c(1) by (simp add: sync_chunk_def bindop_def mark_chunk_def Let_def ret_def)
    show "ready X u R (if length (os_insert ch (sj_done_chunks (sr_job s1))) mod 32 = 0 then t else ?s)"
      using r c(2) by simp
  qed
qed

lemma sync_chunks_succeed:
  assumes "ready X u R s" "\<forall>ch\<in>set chs. \<exists>d. delivers fetch ch d \<and> hash_of X d = ch"
  shows "\<exists>t. for_op (sync_chunk X fetch now) chs () s = (Ok (), t) \<and> ready X u R t"
  using assms
proof (induction chs arbitrary: s)
  case (Cons ch chs)
  obtain d where "delivers fetch ch d" "hash_of X d = ch" using Cons.prems(2) by auto
  with Cons.prems(1) obtain s1 where s1: "sync_chunk X fetch now ch () s = (Ok (), s1)" "ready X u R s1"
    by (rule sync_chunk_succeeds)
  then show ?case using Cons.IH [OF s1(2)] Cons.prems(2) by (simp add: bindop_def)
qed (simp add: ret_def)

section \<open>The whole graph\<close>

lemma sync_loop_succeeds:
  assumes "finite R" "card R \<le> MAX_JOB_COMMITS" "\<forall>h\<in>R. offered X u fetch h" "parents_in X u R R"
    and "ready X u R s" "set queue \<subseteq> R" "set visited \<subseteq> R" "length visited = card (set visited)"
  shows "\<exists>t. sync_loop X fetch now queue visited s = (Ok (), t) \<and> ready X u R t"
  using assms
proof (induction X fetch now queue visited arbitrary: s rule: sync_loop.induct)
  case (1 X fetch now visited)
  then show ?case by (simp add: ret_def)
next
  case (2 X fetch now c queue visited)
  have "card (set visited) \<le> card R" using "2.prems"(1,7) by (rule card_mono)
  then have room: "\<not> length visited > MAX_JOB_COMMITS" using "2.prems"(2,8) by simp
  show ?case
  proof (cases "c \<in> set visited")
    case True
    then show ?thesis using "2.IH"(1) [OF room True "2.prems"(1-5) _ "2.prems"(7,8)] "2.prems"(6) room by simp
  next
    case False
    have cR: "c \<in> R" and off: "offered X u fetch c" using "2.prems"(3,6) by auto
    obtain cm tr where l: "load_commit X u c = Ok cm" "load_tree X u (c_tree cm) = Ok tr"
      "\<forall>ch\<in>set (all_chunk_hashes tr). \<exists>d. delivers fetch ch d \<and> hash_of X d = ch"
      using off by (auto simp: offered_def)
    obtain s1 where s1: "sync_commit X fetch now c s = (Ok cm, s1)" "ready X u R s1"
      using sync_commit_succeeds [OF "2.prems"(5) cR off l(1)] by metis
    obtain s2 where s2: "sync_tree X fetch now (c_tree cm) s1 = (Ok tr, s2)" "ready X u R s2"
      using sync_tree_succeeds [OF s1(2) cR off l(1,2)] by metis
    obtain s3 where s3: "for_op (sync_chunk X fetch now) (all_chunk_hashes tr) () s2 = (Ok (), s3)" "ready X u R s3"
      using sync_chunks_succeed [OF s2(2) l(3)] by blast
    have "set (c_parents cm) \<subseteq> R" using "2.prems"(4) cR l(1) by (auto simp: parents_in_def)
    then have q: "set (queue @ c_parents cm) \<subseteq> R" "set (os_insert c visited) \<subseteq> R" using "2.prems"(6,7) by auto
    have n: "length (os_insert c visited) = card (set (os_insert c visited))"
      using False "2.prems"(8) by (simp add: length_os_insert)
    have "\<exists>t. sync_loop X fetch now (queue @ c_parents cm) (os_insert c visited) s3 = (Ok (), t) \<and> ready X u R t"
      by (rule "2.IH"(2) [OF room False "2.prems"(1-4) s3(2) q n])
    then show ?thesis using room False s1(1) s2(1) s3(1) by (simp add: bindop_def)
  qed
qed

lemma set_head_public_succeeds:
  assumes "hex_law X" "wf_hash h" "load_commit X v h = Ok c"
  shows "\<exists>w. set_head_public X h v = (Ok (), w)"
proof -
  obtain v1 where v1: "set_head X h v = (Ok (), v1)" by (auto simp: set_head_def modify_def)
  have "head_of X v1 = Ok (Some h)" by (rule head_of_set_head [OF assms(1,2) v1])
  then obtain hs where "list_heads X v1 = Ok hs" by (simp add: list_heads_def list_heads_file_only_def)
  then show ?thesis
    using assms(3) v1 by (simp add: set_head_public_def record_head_def write_heads_def bindop_def ask_def modify_def)
qed

lemma arrived_complete: "arrived X {} v h S \<Longrightarrow> is_complete X v h = Ok True"
  by (auto simp: arrived_def is_complete_def list_all_iff dest: load_commit_present load_tree_present)


section \<open>The fetch\<close>

text \<open>\<open>h\<close> reads in \<open>w\<close> as it does in \<open>u\<close>, with its tree, and has its chunks.\<close>

definition replicated :: "ext \<Rightarrow> vault \<Rightarrow> vault \<Rightarrow> content_hash \<Rightarrow> bool" where
  "replicated X u w h \<longleftrightarrow> load_commit X w h = load_commit X u h
     \<and> (\<forall>c t. load_commit X u h = Ok c \<longrightarrow> load_tree X u (c_tree c) = Ok t \<longrightarrow>
          load_tree X w (c_tree c) = Ok t \<and> (\<forall>ch\<in>set (all_chunk_hashes t). has_chunk w ch))"

lemma arrived_replicated:
  assumes "\<forall>k\<in>V. arrived X {} v k V" "target \<in> V" "reach X u {target} h"
    and "\<And>k. reach X u {target} k \<Longrightarrow> consistent X u v k \<and> offered X u fetch k"
  shows "h \<in> V \<and> replicated X u v h"
proof -
  have same: "replicated X u v k" if k: "k \<in> V" "reach X u {target} k" for k
  proof -
    obtain c t where a: "load_commit X v k = Ok c" "load_tree X v (c_tree c) = Ok t"
      "\<forall>ch\<in>set (all_chunk_hashes t). has_chunk v ch"
      using assms(1) k(1) by (auto simp: arrived_def)
    obtain c' t' where o: "load_commit X u k = Ok c'" "load_tree X u (c_tree c') = Ok t'"
      using assms(4) [OF k(2)] by (auto simp: offered_def)
    have cs: "consistent X u v k" using assms(4) [OF k(2)] by blast
    then have "load_commit X v k = Ok c'"
      using o load_commit_present [OF a(1)] unfolding consistent_def by blast
    then have c: "c' = c" using a(1) by simp
    then have "load_tree X v (c_tree c) = Ok t'"
      using cs o load_tree_present [OF a(2)] unfolding consistent_def by blast
    then show ?thesis using a o c by (simp add: replicated_def)
  qed
  have "h \<in> V"
    using assms(3)
  proof (induction rule: reach.induct)
    case (parent h c p)
    have "load_commit X v h = Ok c" using same [OF parent.IH parent.hyps(1)] parent.hyps(2) by (simp add: replicated_def)
    moreover have "arrived X {} v h V" using assms(1) parent.IH by blast
    ultimately have "set (c_parents c) \<subseteq> V" by (auto simp: arrived_def)
    then show ?case using parent.hyps(3) by blast
  qed (use assms(2) in simp)
  then show ?thesis using same [OF _ assms(3)] by blast
qed

lemma ready_start:
  assumes "om_get (d_jobs v) target = None" "\<forall>h\<in>R. consistent X u v h"
  shows "ready X u R \<lparr>sr_vault = persist_job ((load_or_create_job now target v)\<lparr>sj_state := Fetching, sj_updated_at := now\<rparr>) v,
    sr_job = (load_or_create_job now target v)\<lparr>sj_state := Fetching, sj_updated_at := now\<rparr>,
    sr_commits = 0, sr_trees = 0, sr_chunks = 0\<rparr>"
  using assms by (simp add: ready_def load_or_create_job_def sync_job_new_def)

text \<open>The graph of \<open>target\<close> in \<open>u\<close> is on offer, small enough for one job, and nothing of it is here in another form.\<close>

definition graph_on_offer :: "ext \<Rightarrow> vault \<Rightarrow> fetcher \<Rightarrow> content_hash \<Rightarrow> vault \<Rightarrow> bool" where
  "graph_on_offer X u fetch target v \<longleftrightarrow>
     finite {h. reach X u {target} h} \<and> card {h. reach X u {target} h} \<le> MAX_JOB_COMMITS
   \<and> (\<forall>h. reach X u {target} h \<longrightarrow> offered X u fetch h \<and> consistent X u v h)"

text \<open>Neither a checkpoint nor a head changes how the graph reads.\<close>

lemma reads_same:
  assumes "load_commit X w = load_commit X v" "load_tree X w = load_tree X v" "has_chunk w = has_chunk v"
    and "has_commit_object w = has_commit_object v" "has_tree_object w = has_tree_object v"
  shows "arrived X D w = arrived X D v" "consistent X u w = consistent X u v"
  by (intro ext, simp add: arrived_def consistent_def assms)+

lemma heads_has:
  "w = v\<lparr>d_head := a, d_heads := b\<rparr> \<Longrightarrow> has_commit_object w = has_commit_object v"
  "w = v\<lparr>d_head := a, d_heads := b\<rparr> \<Longrightarrow> has_tree_object w = has_tree_object v"
  by (rule ext, simp add: has_commit_object_def has_tree_object_def)+

lemma persist_reads: "arrived X D (persist_job j v) = arrived X D v" "consistent X u (persist_job j v) = consistent X u v"
  by (rule reads_same, simp_all add: persist_same, (rule ext, simp)+)+

lemma sync_body_succeeds:
  assumes laws: "hex_law X" "wf_hash target" and g: "graph_on_offer X u fetch target v"
    and s: "ready X u {h. reach X u {target} h} s" "claims_ok {} s"
  obtains res t V where "sync_body X fetch now target set_hd s = (Ok res, t)"
    "target \<in> V" "\<forall>h\<in>V. arrived X {} (sr_vault t) h V" "\<And>h. reach X u {target} h \<Longrightarrow> consistent X u (sr_vault t) h"
proof -
  let ?R = "{h. reach X u {target} h}"
  have pin: "parents_in X u ?R ?R" by (auto simp: parents_in_def intro: reach.parent)
  have "\<exists>t. sync_loop X fetch now [target] [] s = (Ok (), t) \<and> ready X u ?R t"
    using g s(1) by (intro sync_loop_succeeds pin) (auto simp: graph_on_offer_def intro: reach.root)
  then obtain s1 where s1: "sync_loop X fetch now [target] [] s = (Ok (), s1)" "ready X u ?R s1" by blast
  obtain V where V: "target \<in> V" "\<forall>h\<in>V. arrived X {} (sr_vault s1) h V"
    using sync_loop_arrives [OF s1(1) s(2)] by auto
  then have ok: "is_complete X (sr_vault s1) target = Ok True" using arrived_complete by blast
  obtain c where "load_commit X (sr_vault s1) target = Ok c" using V by (auto simp: arrived_def)
  then have "\<exists>w. set_head_public X target (persist_job j (sr_vault s1)) = (Ok (), w)" for j
    by (intro set_head_public_succeeds [OF laws]) (simp add: persist_same)
  then obtain w where w: "set_head_public X target (persist_job j (sr_vault s1)) = (Ok (), w j)" for j by metis
  have "\<exists>res t j k. sync_body X fetch now target set_hd s = (Ok res, t)
    \<and> sr_vault t = persist_job j (if set_hd then w k else persist_job k (sr_vault s1))"
    using s1(1) ok w
    by (cases set_hd; simp add: sync_body_def bindop_def checkpoint_run ask_def persist_same on_vault_def ret_def
        del: sync_loop.simps; blast)
  then obtain res t j k where t: "sync_body X fetch now target set_hd s = (Ok res, t)"
    "sr_vault t = persist_job j (if set_hd then w k else persist_job k (sr_vault s1))"
    by blast
  have reads: "arrived X {} (sr_vault t) = arrived X {} (sr_vault s1)" "consistent X u (sr_vault t) = consistent X u (sr_vault s1)"
  proof -
    obtain a b where ab: "w k = (persist_job k (sr_vault s1))\<lparr>d_head := a, d_heads := b\<rparr>"
      using set_head_public_frame [OF w] by blast
    have "arrived X {} (w k) = arrived X {} (sr_vault s1)" "consistent X u (w k) = consistent X u (sr_vault s1)"
      using reads_same [OF heads_frame_same(1-3) [OF ab] heads_has [OF ab]] by (simp_all add: persist_reads)
    then show "arrived X {} (sr_vault t) = arrived X {} (sr_vault s1)" "consistent X u (sr_vault t) = consistent X u (sr_vault s1)"
      unfolding t(2) by (simp_all add: persist_reads)
  qed
  show thesis
    by (rule that [OF t(1) V(1)]) (use V(2) s1(2) in \<open>simp_all add: reads ready_def\<close>)
qed

lemma consistent_is_complete:
  assumes "consistent X u v h" "offered X u fetch h"
  shows "\<exists>b. is_complete X v h = Ok b"
  using assms by (auto simp: consistent_def offered_def is_complete_def)

lemma fetch_converges:
  assumes laws: "hex_law X" "wf_hash target" and g: "graph_on_offer X u fetch target v"
    and job: "om_get (d_jobs v) target = None"
  obtains res w where "fetch_dag_with X fetch now target set_hd v = (Ok res, w)"
    "is_complete X v target \<noteq> Ok True \<longrightarrow> (\<forall>h. reach X u {target} h \<longrightarrow> replicated X u w h)"
proof -
  have tg: "reach X u {target} target" by (simp add: reach.root)
  then have co: "consistent X u v target" "offered X u fetch target" using g by (auto simp: graph_on_offer_def)
  obtain b where b: "is_complete X v target = Ok b" using consistent_is_complete [OF co] by blast
  show thesis
  proof (cases b)
    case True
    then obtain c where c: "load_commit X v target = Ok c"
      using b co by (auto simp: is_complete_def consistent_def offered_def split: if_splits)
    obtain w where "set_head_public X target v = (Ok (), w)" using set_head_public_succeeds [OF laws c] by blast
    then have "\<exists>res w. fetch_dag_with X fetch now target set_hd v = (Ok res, w)"
      using b True by (cases set_hd) (simp_all add: fetch_dag_with_def bindop_def ask_def ret_def)
    then show thesis using that b True by auto
  next
    case False
    let ?job = "(load_or_create_job now target v)\<lparr>sj_state := Fetching, sj_updated_at := now\<rparr>"
    let ?s = "\<lparr>sr_vault = persist_job ?job v, sr_job = ?job, sr_commits = 0, sr_trees = 0, sr_chunks = 0\<rparr>"
    have r: "ready X u {h. reach X u {target} h} ?s" using g by (intro ready_start job) (simp add: graph_on_offer_def)
    have cl: "claims_ok {} ?s" using job by (simp add: claims_ok_def load_or_create_job_def sync_job_new_def)
    obtain res t V where run: "sync_body X fetch now target set_hd ?s = (Ok res, t)"
      and arr: "target \<in> V" "\<forall>h\<in>V. arrived X {} (sr_vault t) h V" "\<And>h. reach X u {target} h \<Longrightarrow> consistent X u (sr_vault t) h"
      using sync_body_succeeds [OF laws g r cl, of now set_hd] by blast
    have "fetch_dag_with X fetch now target set_hd v = (Ok res, sr_vault t)"
      using b False run by (simp add: fetch_dag_with_def bindop_def ask_def Let_def)
    moreover have "replicated X u (sr_vault t) h" if "reach X u {target} h" for h
      using arrived_replicated [OF arr(2,1) that, of fetch] arr(3) g by (simp add: graph_on_offer_def)
    ultimately show thesis using that by blast
  qed
qed

end
