(* ===== verification/Sample.thy ===== *)
theory Sample
  imports Schedule "HOL-Library.Code_Target_Nat"
begin

text \<open>
  A concrete instance of the third-party functions, small enough to evaluate: a stand-in for each
  of them that has the documented behaviour the development relies on. The witnesses of the
  properties run the model on it; nothing else depends on it.
\<close>

section \<open>Hexadecimal\<close>

definition hex_digit :: "nat \<Rightarrow> char" where
  "hex_digit n = ''0123456789abcdef'' ! n"

definition hex_value :: "char \<Rightarrow> nat" where
  "hex_value c =
     (let n = of_char (to_lower c) :: nat in if n < 58 then n - 48 else n - 87)"

definition hex_enc :: "bytes \<Rightarrow> string" where
  "hex_enc bs = concat (map (\<lambda>b. [hex_digit (unat b div 16), hex_digit (unat b mod 16)]) bs)"

fun hex_dec :: "string \<Rightarrow> bytes option" where
  "hex_dec [] = Some []"
| "hex_dec [c] = None"
| "hex_dec (c # d # s) =
     (if is_hexdigit c \<and> is_hexdigit d then
        map_option (Cons (word_of_nat (16 * hex_value c + hex_value d))) (hex_dec s)
      else None)"

lemma hex_digit_props:
  assumes "n < 16"
  shows "is_hexdigit (hex_digit n)" "to_lower (hex_digit n) = hex_digit n" "hex_value (hex_digit n) = n"
proof -
  have "\<forall>n\<in>set [0..<16]. is_hexdigit (hex_digit n) \<and> to_lower (hex_digit n) = hex_digit n \<and> hex_value (hex_digit n) = n"
    by code_simp
  then show "is_hexdigit (hex_digit n)" "to_lower (hex_digit n) = hex_digit n" "hex_value (hex_digit n) = n"
    using assms by auto
qed

definition hex_chars :: string where
  "hex_chars = ''0123456789ABCDEFabcdef''"

lemma hexdigit_in: "is_hexdigit c \<Longrightarrow> c \<in> set hex_chars"
proof -
  assume "is_hexdigit c"
  then have "(of_char c :: nat) \<in> of_char ` set hex_chars"
    unfolding is_hexdigit_def Let_def hex_chars_def by simp presburger
  then show ?thesis by (auto simp: of_char_eq_iff)
qed

lemma hexdigit_value:
  assumes "is_hexdigit c"
  shows "hex_value c < 16" "hex_digit (hex_value c) = to_lower c"
proof -
  have "list_all (\<lambda>c. hex_value c < 16 \<and> hex_digit (hex_value c) = to_lower c) hex_chars"
    by (simp add: hex_chars_def hex_value_def hex_digit_def to_lower_def char_of_def bit_Suc_0_iff)
  then show "hex_value c < 16" "hex_digit (hex_value c) = to_lower c"
    using hexdigit_in [OF assms] by (auto simp: list_all_iff)
qed

lemma hex_enc_props:
  "length (hex_enc bs) = 2 * length bs \<and> list_all is_hexdigit (hex_enc bs)
    \<and> ascii_lower (hex_enc bs) = hex_enc bs"
proof (induction bs)
  case (Cons b bs)
  have "unat b div 16 < 16" "unat b mod 16 < 16" using unat_byte_less [of b] by simp_all
  then show ?case using Cons hex_digit_props by (simp add: hex_enc_def ascii_lower_def)
qed (simp add: hex_enc_def ascii_lower_def)

lemma split_16: "j < 16 \<Longrightarrow> n = 16 * i + j \<longleftrightarrow> n div 16 = i \<and> n mod 16 = j" for n :: nat
  using div_mult_mod_eq [of n 16] by auto

lemma hex_dec_iff: "hex_dec s = Some bs \<longleftrightarrow> list_all is_hexdigit s \<and> hex_enc bs = ascii_lower s"
proof (induction s arbitrary: bs rule: hex_dec.induct)
  case 1
  show ?case by (cases bs) (auto simp: hex_enc_def ascii_lower_def)
next
  case (2 c)
  show ?case by (cases bs) (auto simp: hex_enc_def ascii_lower_def)
next
  case (3 c d s)
  show ?case
  proof (cases "is_hexdigit c \<and> is_hexdigit d")
    case True
    obtain b0 :: byte where b0: "b0 = word_of_nat (16 * hex_value c + hex_value d)" by simp
    have v: "hex_value c < 16" "hex_value d < 16" using True hexdigit_value by auto
    then have u: "unat b0 = 16 * hex_value c + hex_value d" unfolding b0 unat_of_nat by simp
    have nib: "hex_digit k = to_lower e \<longleftrightarrow> k = hex_value e" if "k < 16" "is_hexdigit e" for k e
      using that hexdigit_value [of e] hex_digit_props(3) by metis
    have enc: "hex_enc (b # as) = ascii_lower (c # d # s) \<longleftrightarrow> b = b0 \<and> hex_enc as = ascii_lower s" for b as
    proof -
      have q: "unat b div 16 < 16" "unat b mod 16 < 16" using unat_byte_less [of b] by simp_all
      have "b = b0 \<longleftrightarrow> unat b = 16 * hex_value c + hex_value d" unfolding u [symmetric] by (rule word_unat_eq_iff)
      also have "\<dots> \<longleftrightarrow> unat b div 16 = hex_value c \<and> unat b mod 16 = hex_value d"
        using v by (intro split_16)
      also have "\<dots> \<longleftrightarrow> hex_digit (unat b div 16) = to_lower c \<and> hex_digit (unat b mod 16) = to_lower d"
        using nib q True by blast
      finally show ?thesis by (auto simp: hex_enc_def ascii_lower_def)
    qed
    have "hex_dec (c # d # s) = map_option (Cons b0) (hex_dec s)" using True b0 by simp
    moreover have "hex_enc [] \<noteq> ascii_lower (c # d # s)" by (simp add: hex_enc_def ascii_lower_def)
    ultimately show ?thesis using True enc "3.IH" by (cases bs) auto
  qed (auto simp: list_all_iff)
qed

section \<open>Evaluation\<close>

text \<open>Literals for the powers and remainders that the evaluator would otherwise compute step by step.\<close>

lemma take_bit_int_code [code]:
  "take_bit n (k :: int) =
     (if n = 64 then k mod 18446744073709551616 else if n = 8 then k mod 256
      else if n = 32 then k mod 4294967296 else if n = 16 then k mod 65536 else k mod 2 ^ n)"
  by (simp add: take_bit_eq_mod)


lemma power_literals [code_unfold]:
  "(2 :: nat) ^ 64 = 18446744073709551616" "(2 :: int) ^ 64 = 18446744073709551616"
  "(2 :: nat) ^ 63 = 9223372036854775808" "(2 :: int) ^ 63 = 9223372036854775808" "(2 :: nat) ^ 32 = 4294967296"
  by simp_all

lemma hex_digit_code [code]:
  "hex_digit n = (if n = 0 then CHR ''0'' else if n < 6 then ''12345'' ! (n - 1) else ''6789abcdef'' ! (n - 6))"
proof -
  have "(c # (xs @ ys)) ! n = (if n = 0 then c else if n < Suc (length xs) then xs ! (n - 1) else ys ! (n - Suc (length xs)))"
    for c :: char and xs ys
    by (auto simp: nth_Cons' nth_append)
  from this [of "CHR ''0''" "''12345''" "''6789abcdef''"] show ?thesis by (simp add: hex_digit_def numeral_eq_Suc)
qed

lemma hex_enc_code [code]:
  "hex_enc [] = []"
  "hex_enc (b # bs) = (let n = unat b in hex_digit (n div 16) # hex_digit (n mod 16) # hex_enc bs)"
  by (simp_all add: hex_enc_def Let_def)

section \<open>The instance\<close>

text \<open>The length and the first bytes, padded.\<close>

definition sample_hash :: "bytes \<Rightarrow> bytes" where
  "sample_hash bs = word_of_nat (length bs) # take 31 (bs @ replicate 31 0)"

definition sample_sign :: "bytes \<Rightarrow> bytes \<Rightarrow> bytes" where
  "sample_sign pk m = take 64 (pk @ sample_hash m @ replicate 64 0)"

definition sample_tag :: "bytes \<Rightarrow> bytes" where
  "sample_tag k = take 16 (k @ replicate 16 0)"

definition sample_seal :: "bytes \<Rightarrow> bytes \<Rightarrow> bytes \<Rightarrow> bytes \<Rightarrow> bytes option" where
  "sample_seal k n a m = Some (m @ sample_tag k)"

definition sample_open :: "bytes \<Rightarrow> bytes \<Rightarrow> bytes \<Rightarrow> bytes \<Rightarrow> bytes option" where
  "sample_open k n a c =
     (if 16 \<le> length c \<and> drop (length c - 16) c = sample_tag k then Some (take (length c - 16) c) else None)"

definition sample_argon2 :: "string \<Rightarrow> bytes \<Rightarrow> u32 \<Rightarrow> u32 \<Rightarrow> u32 \<Rightarrow> bytes option" where
  "sample_argon2 p salt m t l = Some (take 32 (as_bytes p @ salt @ replicate 32 0))"

definition sample_public :: "bytes \<Rightarrow> bytes" where
  "sample_public sk = take 32 (sk @ replicate 32 0)"

definition sample_sign_sk :: "bytes \<Rightarrow> bytes \<Rightarrow> bytes" where
  "sample_sign_sk sk m = sample_sign (sample_public sk) m"

definition sample_verify :: "bytes \<Rightarrow> bytes \<Rightarrow> bytes \<Rightarrow> bool" where
  "sample_verify pk m s \<longleftrightarrow> s = sample_sign pk m"

definition sample_pk_valid :: "bytes \<Rightarrow> bool" where
  "sample_pk_valid pk \<longleftrightarrow> length pk = 32"

definition sample_fastcdc :: "bytes \<Rightarrow> u32 \<Rightarrow> u32 \<Rightarrow> u32 \<Rightarrow> (nat \<times> nat) list" where
  "sample_fastcdc data mn av mx = [(0, length data)]"

definition no_json :: "'a \<Rightarrow> 'b option" where
  "no_json x = None"

definition sample_config_json ::
  "u64 \<times> u64 \<times> bool \<times> bool \<times> string list \<times> u8 \<times> string \<times> string option \<times> string \<Rightarrow> bytes option"
where
  "sample_config_json = (\<lambda>(sq, tm, e, w, ms, r, n, ow, vid).
     Some (as_bytes vid @ [ucast r, ucast sq] @ concat (map as_bytes ms)))"

definition sample :: ext where
  "sample = \<lparr>
     x_blake3 = sample_hash, x_hex_enc = hex_enc, x_hex_dec = hex_dec,
     x_seal = sample_seal, x_open = sample_open, x_argon2 = sample_argon2,
     x_public = sample_public, x_pk_display = hex_enc, x_pk_parse = hex_dec, x_pk_valid = sample_pk_valid,
     x_sign = sample_sign_sk, x_verify = sample_verify, x_fastcdc = sample_fastcdc,
     x_tree_json = no_json, x_tree_of_json = no_json, x_legacy_json = no_json, x_commit_of_json = no_json,
     x_config_json = sample_config_json\<rparr>"

lemmas sample_defs = sample_def sample_seal_def sample_open_def sample_public_def sample_sign_sk_def
  sample_verify_def sample_pk_valid_def sample_fastcdc_def no_json_def

lemma sample_hash_law: "hash_law sample"
  by (auto simp: hash_law_def sample_defs sample_hash_def min_def)

lemma sample_hex_law: "hex_law sample"
  using hex_enc_props hex_dec_iff by (simp add: hex_law_def sample_defs)

lemma length_sample_tag [simp]: "length (sample_tag k) = 16"
  by (auto simp: sample_tag_def min_def)

lemma sample_aead_law: "aead_law sample"
  by (simp add: aead_law_def sample_defs)

lemma sample_sign_law: "sign_law sample"
  by (auto simp: sign_law_def sample_defs sample_sign_def sample_hash_def min_def)

lemma sample_pk_law: "pk_law sample"
  using sample_hex_law hex_dec_enc [of sample] by (simp add: pk_law_def sample_defs)

lemma sample_fastcdc_law: "fastcdc_law sample"
  by (simp add: fastcdc_law_def sample_defs)

lemmas sample_laws = sample_hash_law sample_hex_law sample_aead_law sample_sign_law sample_pk_law
  sample_fastcdc_law

section \<open>A vault with one file\<close>

definition the_ok :: "'a result \<Rightarrow> 'a" where
  "the_ok r = (case r of Ok x \<Rightarrow> x)"

definition sample_empty :: vault where
  "sample_empty = the_ok (create_for_test sample 7 [] False ''v'' False (replicate 16 1) None [])"

definition sample_chunk :: content_hash where
  "sample_chunk = hash_of sample [1, 2, 3]"

definition sample_tree :: tree where
  "sample_tree = \<lparr>entries = [(''a'', File 3 [sample_chunk])]\<rparr>"

definition sample_tree_wire :: bytes where
  "sample_tree_wire = the_ok (encode_tree_wire sample_tree)"

definition sample_commit :: commit where
  "sample_commit = commit_new 9 (hash_of sample sample_tree_wire) [] ''soal-local'' ''Add a''"

definition sample_commit_wire :: bytes where
  "sample_commit_wire = the_ok (encode_commit_wire sample sample_commit)"

definition sample_head :: content_hash where
  "sample_head = hash_of sample sample_commit_wire"

definition sample_vault :: vault where
  "sample_vault = sample_empty\<lparr>
     d_chunks := [(sample_chunk, [1, 2, 3])],
     d_trees_bin := [(hash_of sample sample_tree_wire, sample_tree_wire)],
     d_commits_bin := [(sample_head, sample_commit_wire)],
     d_head := Some (to_hex sample sample_head)\<rparr>"

text \<open>The sample objects as literals.\<close>

lemma sample_tree_wire_code [code]:
  "sample_tree_wire =
    [115, 111, 97, 108, 47, 116, 114, 101, 101, 47, 118, 49, 0, 0, 0, 0, 161, 1, 161, 97, 97, 163, 1,
     0, 2, 3, 3, 129, 88, 32, 3, 1, 2, 3, 0, 0, 0, 0, 0, 0, 0, 0, 0, 0, 0, 0, 0, 0, 0, 0, 0, 0, 0, 0,
     0, 0, 0, 0, 0, 0, 0, 0]"
  by code_simp

lemma sample_commit_wire_code [code]:
  "sample_commit_wire =
    [115, 111, 97, 108, 47, 99, 111, 109, 109, 105, 116, 47, 118, 49, 0, 0, 167, 1, 88, 32, 62, 115,
     111, 97, 108, 47, 116, 114, 101, 101, 47, 118, 49, 0, 0, 0, 0, 161, 1, 161, 97, 97, 163, 1, 0,
     2, 3, 3, 129, 88, 32, 3, 2, 128, 3, 88, 32, 22, 115, 111, 97, 108, 45, 97, 117, 116, 104, 111,
     114, 58, 115, 111, 97, 108, 45, 108, 111, 99, 97, 108, 0, 0, 0, 0, 0, 0, 0, 0, 0, 4, 9, 5, 101,
     65, 100, 100, 32, 97, 6, 1, 7, 88, 64, 0, 0, 0, 0, 0, 0, 0, 0, 0, 0, 0, 0, 0, 0, 0, 0, 0, 0, 0,
     0, 0, 0, 0, 0, 0, 0, 0, 0, 0, 0, 0, 0, 0, 0, 0, 0, 0, 0, 0, 0, 0, 0, 0, 0, 0, 0, 0, 0, 0, 0, 0,
     0, 0, 0, 0, 0, 0, 0, 0, 0, 0, 0, 0, 0]"
  by code_simp

lemma sample_head_code [code]:
  "sample_head = CH
    [167, 115, 111, 97, 108, 47, 99, 111, 109, 109, 105, 116, 47, 118, 49, 0, 0, 167, 1, 88, 32, 62,
     115, 111, 97, 108, 47, 116, 114, 101, 101, 47]"
  by code_simp

lemma sample_chunk_code [code]:
  "sample_chunk = CH
    [3, 1, 2, 3, 0, 0, 0, 0, 0, 0, 0, 0, 0, 0, 0, 0, 0, 0, 0, 0, 0, 0, 0, 0, 0, 0, 0, 0, 0, 0, 0, 0]"
  by code_simp

lemma sample_empty_fields [simp]:
  "v_key sample_empty = None" "v_home sample_empty = None" "d_chunks sample_empty = []"
  "d_trees_bin sample_empty = []" "d_trees_json sample_empty = []" "d_commits_bin sample_empty = []"
  "d_commits_json sample_empty = []" "d_head sample_empty = None" "d_heads sample_empty = None"
  "d_snapshots sample_empty = NoFile" "d_policy sample_empty = NoFile" "d_pstate sample_empty = NoFile"
  "d_pins sample_empty = NoFile" "d_have sample_empty = NoFile" "d_jobs sample_empty = []"
  by (simp_all add: sample_empty_def the_ok_def create_for_test_def write_config_def empty_root_def Let_def)

lemma sample_encodes:
  "encode_tree_wire sample_tree = Ok sample_tree_wire"
  "encode_commit_wire sample sample_commit = Ok sample_commit_wire"
  by (simp_all add: sample_tree_wire_def sample_commit_wire_def the_ok_def encode_tree_wire_def encode_tree_body_def
      encode_commit_wire_def encode_commit_body_def sample_tree_def sample_commit_def commit_new_def
      MAX_TREE_ENTRIES_def MAX_COMMIT_PARENTS_def)

lemma sample_chunks: "chunk_bytes sample [1, 2, 3] chunk_config_default = [chunk_from_data sample [1, 2, 3]]"
  by (simp add: chunk_bytes_def sample_def sample_fastcdc_def)

lemma sample_name: "normalize_and_validate ''a'' = Ok ''a''"
  by code_simp

lemma sample_add:
  "vault_add_file sample 9 (FsFile [1, 2, 3]) ''a'' sample_empty = (Ok sample_head, sample_vault)"
proof -
  have put: "put_chunk sample sample_chunk [1, 2, 3] sample_empty
      = (Ok True, sample_empty\<lparr>d_chunks := [(sample_chunk, [1, 2, 3])]\<rparr>)"
    by (simp add: put_chunk_def put_def put_verified_def sample_chunk_def)
  have store: "store_file sample ''a'' [1, 2, 3] sample_empty
      = (Ok (''a'', 3, [sample_chunk]), sample_empty\<lparr>d_chunks := [(sample_chunk, [1, 2, 3])]\<rparr>)"
    by (simp add: store_file_def sample_chunks store_chunks_eq push_chunk_def store_chunk_def stored_form_def
        bindop_def ask_def ret_def Let_def chunk_from_data_def sample_chunk_def [symmetric] put)
  show ?thesis
    by (simp add: vault_add_file_def add_path_def sample_name bindop_def ask_def ret_def store head_tree_def head_of_def
        try_add_file_def tree_new_def is_dir_def commit_tree_def save_tree_eq sample_tree_def [symmetric] sample_encodes
        make_commit_def sample_commit_def [symmetric] save_commit_eq set_head_def modify_def sample_vault_def
        sample_head_def Let_def)
qed

lemma sample_small: "small_objects sample_vault"
proof -
  have "length sample_tree_wire < 1000" "length sample_commit_wire < 1000" by code_simp+
  then show ?thesis by (simp add: small_objects_def sample_vault_def)
qed


lemma sample_head_wf: "wf_hash sample_head"
  by (simp add: sample_head_def sample_hash_law)

lemma sample_head_of: "head_of sample sample_vault = Ok (Some sample_head)"
proof -
  have "set_head sample sample_head sample_vault = (Ok (), sample_vault)"
    by (simp add: set_head_def modify_def sample_vault_def)
  then show ?thesis by (rule head_of_set_head [OF sample_hex_law sample_head_wf])
qed

lemma sample_list_heads: "list_heads sample sample_vault = Ok [sample_head]"
  by (simp add: list_heads_def list_heads_file_only_def sample_head_of) (simp add: sample_vault_def)

lemma sample_commit_wf: "wf_commit sample_commit"
  by (simp add: wf_commit_def sample_commit_def commit_new_def sample_hash_law utf8_str_def utf8_ok_ascii)

lemma sample_tree_wf: "wf_tree sample_tree"
proof -
  have "valid_path ''a''" using validate_path_iff [of "''a''"] by code_simp
  then show ?thesis
    by (simp add: wf_tree_def wf_tree_rep_def valid_tree_def sample_tree_def om_wf_def utf8_str_def utf8_ok_ascii
        sample_chunk_def sample_hash_law)
qed

lemma sample_load_commit: "load_commit sample sample_vault sample_head = Ok (commit_norm sample sample_commit)"
proof -
  have "save_commit sample sample_commit (sample_vault\<lparr>d_commits_bin := []\<rparr>) = (Ok sample_head, sample_vault)"
    by (simp add: save_commit_eq sample_encodes sample_head_def) (simp add: sample_vault_def sample_head_def)
  then show ?thesis
    using small_commit [OF sample_small, of sample_head] sample_encodes(2)
    by (intro load_saved_commit [OF sample_hash_law sample_hex_law sample_commit_wf]) (simp_all add: sample_vault_def)
qed

lemma sample_load_tree: "load_tree sample sample_vault (c_tree sample_commit) = Ok sample_tree"
proof -
  let ?h = "hash_of sample sample_tree_wire"
  have "save_tree sample sample_tree (sample_vault\<lparr>d_trees_bin := []\<rparr>) = (Ok ?h, sample_vault)"
    by (simp add: save_tree_eq sample_encodes) (simp add: sample_vault_def)
  then have "load_tree sample sample_vault ?h = Ok sample_tree"
    using small_tree [OF sample_small, of ?h] sample_encodes(1)
    by (intro load_saved_tree [OF sample_tree_wf]) (simp_all add: sample_vault_def)
  then show ?thesis by (simp add: sample_commit_def commit_new_def)
qed

lemma sample_empty_tree: "head_tree sample sample_empty = Ok tree_new"
  by (simp add: head_tree_def head_of_def)

section \<open>Running the operations\<close>

lemma sample_valid_name: "valid_path ''a''"
  using validate_path_iff [of "''a''"] by code_simp

definition sample_fs :: fsq where
  "sample_fs = \<lparr>fs_exists = (\<lambda>_. False), fs_canon = (\<lambda>p. Ok p)\<rparr>"

lemma sample_lengths:
  "length sample_tree_wire < 2 ^ 63" "length sample_commit_wire < 2 ^ 63"
  "\<exists>m. commit_sign_message sample sample_commit = Ok m \<and> length m < 2 ^ 62"
proof -
  have "length sample_tree_wire < 1000" "length sample_commit_wire < 1000" by code_simp+
  then show "length sample_tree_wire < 2 ^ 63" "length sample_commit_wire < 2 ^ 63" by simp_all
  have "is_ok (commit_sign_message sample sample_commit)" "length (the_ok (commit_sign_message sample sample_commit)) < 1000"
    by code_simp+
  then show "\<exists>m. commit_sign_message sample sample_commit = Ok m \<and> length m < 2 ^ 62"
    by (cases "commit_sign_message sample sample_commit") (auto simp: the_ok_def)
qed

lemma sample_roots: "protected_commit_roots sample (sample_vault\<lparr>d_chunks := s\<rparr>) = Ok [sample_head]"
proof -
  have "list_heads sample (sample_vault\<lparr>d_chunks := s\<rparr>) = Ok [sample_head]"
    by (simp add: list_heads_def list_heads_file_only_def sample_head_of) (simp add: sample_vault_def)
  then show ?thesis
    by (simp add: protected_commit_roots_def sample_head_of load_snapshots_def) (simp add: sample_vault_def)
qed

lemma sample_gc: "\<exists>n w. gc_all sample sample_vault = (Ok n, w)"
proof -
  have has: "has_commit_object (sample_vault\<lparr>d_chunks := s\<rparr>) sample_head" for s
    by (simp add: has_commit_object_def sample_vault_def om_mem_def)
  have p: "c_parents sample_commit = []" by (simp add: sample_commit_def commit_new_def)
  have "\<exists>l. live_chunk_hashes sample (sample_vault\<lparr>d_chunks := s\<rparr>) = Ok l" for s
    by (simp add: live_chunk_hashes_def live_roots_def sample_roots live_chunk_hashes_from_roots_def has
        mark_chunks_def sample_load_commit sample_load_tree push_stack_def p Let_def)
  from this [of "d_chunks sample_vault"] obtain l where l: "live_chunk_hashes sample sample_vault = Ok l" by auto
  have "\<exists>l. live_object_hashes sample (sample_vault\<lparr>d_chunks := s\<rparr>) = Ok l" for s
    by (simp add: live_object_hashes_def live_roots_def sample_roots has mark_objects_def sample_load_commit
        push_stack_def p Let_def)
  then obtain k where k: "live_object_hashes sample (sample_vault\<lparr>d_chunks := s\<rparr>) = Ok (k s)" for s by metis
  show ?thesis
    by (simp add: gc_all_def gc_unreachable_chunks_def gc_unreachable_objects_def bindop_def ask_def l k ret_def
        split: prod.splits)
qed

lemma sample_restore:
  "restore sample (\<lambda>_. sample_fs) sample_vault sample_head ''out'' [] = (Ok (), [(''out/a'', [1, 2, 3])])"
proof -
  have "safe_join sample_fs ''out'' ''a'' = Ok ''out/a''"
    by code_simp
  moreover have "restore_file sample sample_vault ''a'' 3 [sample_chunk] = Ok [1, 2, 3]"
    by (simp add: restore_file_def restore_chunk_def load_chunk_def store_get_def stored_form_def sample_vault_def sample_chunk_def Let_def)
  ultimately show ?thesis
    by (simp add: restore_def bindop_def ask_def sample_load_commit sample_load_tree sample_tree_def restore_entry_def modify_def
        ret_def)
qed

end
