(* ===== verification/SampleRun.thy ===== *)
theory SampleRun
  imports Api Converge Sample
begin

text \<open>
  The sample instance at work: a token format with its law, a node, and the runs that
  the witnesses rest on, evaluated with the definitions' code equations.
\<close>

section \<open>Tokens\<close>

text \<open>A stand-in for JSON: each character after a one, a list ended by a zero.\<close>

definition put_str :: "string \<Rightarrow> bytes" where
  "put_str s = concat (map (\<lambda>c. [1, byte_of_char c]) s) @ [0]"

fun get_str :: "bytes \<Rightarrow> (string \<times> bytes) option" where
  "get_str (t # c # r) =
     (if t = 0 then Some ([], c # r) else map_option (\<lambda>(s, r). (char_of_byte c # s, r)) (get_str r))"
| "get_str [t] = Some ([], [])"
| "get_str [] = None"

lemma get_put_str [simp]: "get_str (put_str s @ r) = Some (s, r)"
proof (induction s)
  case Nil
  then show ?case by (cases r) (simp_all add: put_str_def)
next
  case (Cons c s)
  then show ?case by (simp add: put_str_def)
qed

definition put_strs :: "string list \<Rightarrow> bytes" where
  "put_strs ss = concat (map (\<lambda>s. 1 # put_str s) ss) @ [0]"

function get_strs :: "bytes \<Rightarrow> (string list \<times> bytes) option" where
  "get_strs bs = (case bs of [] \<Rightarrow> None
     | t # r \<Rightarrow> if t = 0 then Some ([], r)
        else (case get_str r of None \<Rightarrow> None
          | Some (s, r') \<Rightarrow> if length r' < length r then map_option (\<lambda>(ss, q). (s # ss, q)) (get_strs r') else None))"
  by pat_completeness auto

termination by (relation "measure length") auto

declare get_strs.simps [simp del]

lemma put_str_length: "length (put_str s @ r) > length r"
  by (simp add: put_str_def)

lemma get_put_strs [simp]: "get_strs (put_strs ss @ r) = Some (ss, r)"
proof (induction ss)
  case Nil
  then show ?case by (simp add: put_strs_def get_strs.simps)
next
  case (Cons s ss)
  have "put_strs (s # ss) @ r = 1 # put_str s @ put_strs ss @ r" by (simp add: put_strs_def)
  then show ?case
    using Cons put_str_length [of "put_strs ss @ r" s] by (simp add: get_strs.simps [of "1 # _"])
qed

definition put_word :: "u64 \<Rightarrow> bytes" where
  "put_word x = be_of_nat 8 (unat x)"

definition get_word :: "bytes \<Rightarrow> (u64 \<times> bytes) option" where
  "get_word bs = (if length bs < 8 then None else Some (word_of_nat (nat_of_be (take 8 bs)), drop 8 bs))"

lemma get_put_word [simp]: "get_word (put_word x @ r) = Some (x, r)"
proof -
  have "unat x < 256 ^ 8" using unat_lt2p_64 [of x] by simp
  then show ?thesis by (simp add: get_word_def put_word_def nat_of_be_of_nat)
qed

definition put_invite :: "invite \<Rightarrow> bytes" where
  "put_invite i =
     [of_bool (iv_encryption_enabled i), iv_min_replicas i, of_bool (iv_role i = WriteRole)]
     @ put_word (iv_protocol_version i) @ put_word (iv_config_seq i) @ put_word (iv_created_at i)
     @ put_word (iv_expires_at i) @ put_strs (iv_members i)
     @ put_strs [iv_vault_id_hex i, iv_vault_name i, iv_issuer i, iv_invite_secret_hex i, iv_sealed_key_hex i,
         iv_signature_hex i]"

definition get_fields :: "bytes \<Rightarrow> (u64 \<times> u64 \<times> u64 \<times> u64 \<times> string list \<times> string list) option" where
  "get_fields bs =
     Option.bind (get_word bs) (\<lambda>(ver, r).
     Option.bind (get_word r) (\<lambda>(sq, r).
     Option.bind (get_word r) (\<lambda>(at, r).
     Option.bind (get_word r) (\<lambda>(exp, r).
     Option.bind (get_strs r) (\<lambda>(ms, r).
     Option.bind (get_strs r) (\<lambda>(fs, r). Some (ver, sq, at, exp, ms, fs)))))))"

definition get_invite :: "bytes \<Rightarrow> invite option" where
  "get_invite bs = (case bs of
     en # n # w # r \<Rightarrow> (case get_fields r of
         Some (ver, sq, at, exp, ms, [vid, name, iss, sec, sealed, sg]) \<Rightarrow>
           Some \<lparr>iv_protocol_version = ver, iv_vault_id_hex = vid, iv_vault_name = name,
             iv_encryption_enabled = (en \<noteq> 0), iv_min_replicas = n, iv_config_seq = sq, iv_members = ms,
             iv_role = (if w = 0 then ReadRole else WriteRole), iv_issuer = iss, iv_created_at = at,
             iv_expires_at = exp, iv_invite_secret_hex = sec, iv_sealed_key_hex = sealed, iv_signature_hex = sg\<rparr>
       | _ \<Rightarrow> None)
   | _ \<Rightarrow> None)"

lemma get_put_invite: "get_invite (put_invite i) = Some i"
proof -
  have "get_strs (put_strs ss) = Some (ss, [])" for ss using get_put_strs [of ss "[]"] by simp
  then show ?thesis
    by (cases i; cases "iv_role i") (simp_all add: get_invite_def put_invite_def get_fields_def)
qed

definition sample_tokens :: token_ext where
  "sample_tokens = \<lparr>k_json = (\<lambda>i. Some (put_invite i)), k_of_json = get_invite, k_sorted_json = (\<lambda>i. Some (put_invite i)),
     k_b64 = hex_enc, k_unb64 = hex_dec, k_unb64_pad = hex_dec\<rparr>"

lemma sample_token_law: "token_law sample_tokens"
proof -
  have "list_all (\<lambda>c. graphic c \<and> c \<noteq> CHR ''{'') (hex_enc b)" for b
    using hex_enc_props [of b] hexdigit_graphic by (fastforce simp: list_all_iff is_hexdigit_def Let_def)
  then show ?thesis
    using hex_enc_props hex_dec_iff by (simp add: token_law_def sample_tokens_def get_put_invite)
qed

section \<open>Sessions\<close>

lemma is_ok_run: "is_ok (fst p) \<Longrightarrow> \<exists>x t. p = (Ok x, t)"
  by (cases p) (auto simp: is_ok_iff)

section \<open>Fetching the chunk of the sample commit\<close>

text \<open>The sample vault with its chunk gone, and a peer that has it.\<close>

definition sample_bare :: vault where
  "sample_bare = sample_vault\<lparr>d_chunks := []\<rparr>"

definition sample_pull :: "string \<Rightarrow> content_hash \<Rightarrow> bytes result" where
  "sample_pull p h = (if h = sample_chunk then Ok [1, 2, 3] else Err (ChunkNotFound []))"

lemma sample_commit_fields [simp]: "c_parents sample_commit = []" "c_signature sample_commit = None"
  by (simp_all add: sample_commit_def commit_new_def)

lemma sample_verifies: "verify_commit_signature sample (commit_norm sample sample_commit) = Ok ()"
proof -
  have "verify_commit_signature sample sample_commit = Ok ()"
    unfolding verify_commit_Ok by (simp add: commit_is_signed_def signature_bytes_def)
  then show ?thesis by (simp add: verify_commit_norm [OF sample_hash_law sample_hex_law])
qed

lemma sample_has [simp]:
  "has_commit_object sample_vault sample_head" "has_tree_object sample_vault (c_tree sample_commit)"
  "has_chunk sample_vault sample_chunk"
  by (simp_all add: has_commit_object_def has_tree_object_def has_chunk_def store_exists_def om_mem_def sample_vault_def
      sample_commit_def commit_new_def)

lemma has_chunks [simp]:
  "has_commit_object (v\<lparr>d_chunks := s\<rparr>) = has_commit_object v" "has_tree_object (v\<lparr>d_chunks := s\<rparr>) = has_tree_object v"
  by (auto simp: has_commit_object_def has_tree_object_def)

lemma sample_tree_chunks: "all_chunk_hashes sample_tree = [sample_chunk]"
  by (simp add: sample_tree_def all_chunk_hashes_def)

lemmas sample_loads = sample_load_commit sample_load_tree sample_tree_chunks sample_verifies

section \<open>A node\<close>

definition sample_key :: bytes where
  "sample_key = replicate 32 5"

definition sample_vid :: bytes where
  "sample_vid = replicate 16 1"

definition sample_node :: network where
  "sample_node = \<lparr>n_node = NoFile, n_seqs = [], n_health = NoFile, n_peers = [''peer''], n_secret = sample_key, n_provided = []\<rparr>"

text \<open>Two peers, of which the second has the chunk.\<close>

definition sample_transport :: "string transport" where
  "sample_transport = \<lparr>t_ticket = (\<lambda>_. None), t_id = Some, t_id_error = (\<lambda>_. []),
     t_get_blob = (\<lambda>a h. if a = ''peer'' then sample_pull a h else Err (Other ''no route'')),
     t_connect = (\<lambda>_. TimedOut), t_add_bytes = (\<lambda>_. Ok ()), t_subscribe = (\<lambda>_ _. Ok ()), t_broadcast = (\<lambda>_. Ok ())\<rparr>"

lemma sample_peers:
  "get_chunk_from_peer sample sample_transport ''peer'' sample_chunk = Ok [1, 2, 3]"
  "get_chunk_from_peer sample sample_transport ''dead'' sample_chunk = Err (Other ''no route'')"
  by code_simp+

definition sample_log :: snapshot_log where
  "sample_log = [\<lparr>se_hash = ''a'', se_timestamp = 1, se_message = [], se_auto = False\<rparr>,
     \<lparr>se_hash = ''b'', se_timestamp = 2, se_message = [], se_auto = True\<rparr>]"

lemma sample_log_pruned:
  "prune_snapshot_registry 1 (sample_empty\<lparr>d_snapshots := Good sample_log\<rparr>)
    = (Ok 1, sample_empty\<lparr>d_snapshots := Good (drop 1 sample_log)\<rparr>)"
  by (simp add: prune_snapshot_registry_def bindop_def ask_def load_snapshots_def json_or_def save_snapshots_def modify_def
      ret_def Let_def) (simp add: sample_log_def)

lemma sample_announce_seq:
  "next_announce_seq sample sample_key ''v'' sample_node
    = (Ok 1, sample_node\<lparr>n_node := Good \<lparr>ns_secret_key_hex = hex_enc sample_key, ns_peers = [], ns_announce_seq = [(''v'', 1)]\<rparr>\<rparr>)"
  by (simp add: next_announce_seq_def bindop_def load_or_create_def sample_node_def node_save_def modify_def ret_def Let_def)
     (simp add: sample_def)

lemma sample_encrypted: "\<exists>c. encrypt_deterministic sample [1, 2, 3] (replicate 32 7) = Ok c"
proof -
  have "is_ok (encrypt_deterministic sample [1, 2, 3] (replicate 32 7))" by code_simp
  then show ?thesis by (simp add: is_ok_iff)
qed

lemma sample_join: "safe_join sample_fs ''out'' ''a'' = Ok ''out/a''"
  by code_simp

definition sample_policy :: policy where
  "sample_policy = policy_default\<lparr>pl_snapshot_interval_secs := 60\<rparr>"

definition sample_pstate :: policy_state where
  "sample_pstate = policy_state_default\<lparr>ps_last_auto_snapshot_at := 100\<rparr>"

lemma sample_announced:
  "\<exists>a b. sign_head_announcement sample 9 sample_key sample_vid ''v'' sample_head 1 1 = Ok a
    \<and> encode_head_announcement a = Ok b \<and> ha_signature a \<noteq> zero_sig"
proof -
  let ?s = "sign_head_announcement sample 9 sample_key sample_vid ''v'' sample_head 1 1"
  have "is_ok (tryr ?s encode_head_announcement)" by code_simp
  then obtain a b where ab: "?s = Ok a" "encode_head_announcement a = Ok b" by (auto simp: is_ok_iff tryr_eq_Ok)
  have "hd (ha_signature a) = 5"
    using ab(1) by (auto simp: sign_head_announcement_def Let_def sample_def sample_sign_sk_def sample_sign_def sample_public_def sample_key_def elim!: tryr_OkE)
  then have "ha_signature a \<noteq> zero_sig" by (auto simp: zero_sig_def)
  with ab show ?thesis by blast
qed


lemma sample_sk: "length sample_key = 32" "length sample_vid = VAULT_ID_LEN" "utf8_str ''v''"
  by (simp_all add: sample_key_def sample_vid_def VAULT_ID_LEN_def utf8_str_def utf8_ok_ascii)

lemma sample_vault_id: "vault_id_bytes sample sample_empty = Ok sample_vid" "vc_members (v_config sample_empty) = []"
  by code_simp+

lemma hear_acceptable:
  assumes "decode_head_announcement content = Ok a" "acceptable X now a (Some v)"
  shows "hear X v (now, content) as n =
    (if ha_seq a \<le> last_accepted X n a then (Ok as, n)
     else (Ok (as @ [a]), snd (store_last_recv_seq (vault_id_hex X a) (node_id_hex X a) (ha_seq a) n)))"
  using assms check_vault_Ok [of X a "Some v"]
  by (simp add: hear_def validate_announcement_def acceptable_def bindop_def ask_def attempt_def fail_def ret_def
      last_accepted_def store_last_recv_seq_def modify_def Let_def)

text \<open>The announcement arrives twice and is heard once.\<close>

lemma sample_heard:
  "\<exists>a b n. listen_for_heads_vault sample sample_transport sample_empty [(9, b), (10, b)] sample_node = (Ok [a], n)
    \<and> ha_head a = sample_head"
proof -
  obtain a b where a: "sign_head_announcement sample 9 sample_key sample_vid ''v'' sample_head 1 1 = Ok a"
    "encode_head_announcement a = Ok b" "ha_signature a \<noteq> zero_sig"
    using sample_announced by blast
  have d: "decode_head_announcement b = Ok a"
    using sign_head_wf [OF sample_sign_law sample_sk(1,2) sample_head_wf sample_sk(3) a(1)] a(2)
    by (rule decode_encode_head_announcement)
  have f: "ha_seq a = 1" "ha_timestamp a = 9" "ha_vault_id a = sample_vid" "ha_head a = sample_head"
    using sign_head_Ok [of sample 9 sample_key sample_vid "''v''" sample_head 1 1] a(1) by auto
  have ok: "acceptable sample now a (Some sample_empty)" if "now = 9 \<or> now = 10" for now
    using that sign_verify_head [OF sample_sign_law sample_sk(1) a(1,3)] sample_vault_id
    by (auto simp: acceptable_def f is_member_def check_head_skew_def abs_diff_def MAX_SKEW_SECS_def)
  define m where "m = snd (store_last_recv_seq (vault_id_hex sample a) (node_id_hex sample a) (ha_seq a) sample_node)"
  have "store_last_recv_seq (vault_id_hex sample a) (node_id_hex sample a) (ha_seq a) sample_node = (Ok (), m)"
    by (simp add: m_def store_last_recv_seq_def modify_def)
  then have l: "last_accepted sample m a = ha_seq a" using load_stored_seq by (simp add: last_accepted_def)
  have l0: "last_accepted sample sample_node a = 0"
    by (simp add: last_accepted_def load_last_recv_seq_def sample_node_def)
  have "hear sample sample_empty (9, b) [] sample_node = (Ok [a], m)" "hear sample sample_empty (10, b) [a] m = (Ok [a], m)"
    by (simp_all add: hear_acceptable [OF d ok] l l0) (simp_all add: f m_def)
  then have "listen_for_heads_vault sample sample_transport sample_empty [(9, b), (10, b)] sample_node = (Ok [a], m)"
    by (simp add: listen_for_heads_vault_def bindop_def ask_def sample_vault_id subscribe_def ret_def sample_transport_def)
  with f(4) show ?thesis by blast
qed

section \<open>Transfers\<close>

text \<open>The peer also has the sample vault's commit and tree.\<close>

definition sample_full :: "string \<Rightarrow> content_hash \<Rightarrow> bytes result" where
  "sample_full p h =
     (if h = sample_head then Ok sample_commit_wire
      else if h = c_tree sample_commit then Ok sample_tree_wire else sample_pull p h)"

definition sample_fetch :: "content_hash \<Rightarrow> (string \<times> bytes) result" where
  "sample_fetch h = tryr (sample_full ''peer'' h) (\<lambda>b. Ok (''peer'', b))"

lemma sample_domains: "has_domain DOMAIN_COMMIT sample_commit_wire" "has_domain DOMAIN_TREE sample_tree_wire"
  by code_simp+

lemma sample_distinct: "sample_head \<noteq> c_tree sample_commit" "sample_chunk \<noteq> sample_head" "sample_chunk \<noteq> c_tree sample_commit"
  by code_simp+

lemma sample_delivers:
  "delivers sample_fetch sample_head sample_commit_wire" "delivers sample_fetch (c_tree sample_commit) sample_tree_wire"
  "delivers sample_fetch sample_chunk [1, 2, 3]"
  using sample_distinct by (simp_all add: delivers_def sample_fetch_def sample_full_def sample_pull_def)

lemma sample_reach: "reach sample sample_vault {sample_head} h \<longleftrightarrow> h = sample_head"
proof
  assume "reach sample sample_vault {sample_head} h"
  then show "h = sample_head" by (induction rule: reach.induct) (auto simp: sample_load_commit)
qed (simp add: reach.root)

lemma sample_stored:
  "om_get (d_commits_bin sample_vault) sample_head = Some sample_commit_wire"
  "om_get (d_trees_bin sample_vault) (c_tree sample_commit) = Some sample_tree_wire"
  by (simp_all add: sample_vault_def sample_commit_def commit_new_def)

lemma sample_offered: "offered sample sample_vault sample_fetch sample_head"
  using sample_delivers sample_domains
  by (auto simp: offered_def sample_loads sample_stored hash_of_def sample_chunk_def)

text \<open>An empty vault, and one that has all but the chunk.\<close>

lemma sample_graph:
  "graph_on_offer sample sample_vault sample_fetch sample_head sample_empty"
  "graph_on_offer sample sample_vault sample_fetch sample_head sample_bare"
  by (simp_all add: graph_on_offer_def sample_reach sample_offered consistent_def sample_loads MAX_JOB_COMMITS_def
      sample_bare_def sample_load_commit)
     (simp add: has_commit_object_def has_tree_object_def om_mem_def)

lemma sample_failed:
  "\<exists>e w. fetch_dag_with sample (\<lambda>_. Err Serde) 9 sample_head True sample_empty = (Err e, w)"
proof -
  have c: "is_complete sample sample_empty sample_head = Ok False" "\<not> has_commit_object sample_empty sample_head"
    by (simp_all add: is_complete_def has_commit_object_def om_mem_def)
  have j: "om_get (d_jobs sample_empty) sample_head = None" by simp
  show ?thesis
    by (simp add: fetch_dag_with_def bindop_def ask_def c load_or_create_job_def j sync_job_new_def Let_def sync_body_def
        sync_commit_def fetch_import_def)
qed

lemma sample_ingested:
  "\<exists>w. ingest_commit_from_peer sample sample_full ''peer'' sample_head sample_empty = (Ok True, w)"
proof -
  let ?v1 = "sample_empty\<lparr>d_commits_bin := om_insert sample_head sample_commit_wire (d_commits_bin sample_empty)\<rparr>"
  let ?v2 = "?v1\<lparr>d_trees_bin := om_insert (c_tree sample_commit) sample_tree_wire (d_trees_bin ?v1)\<rparr>"
  let ?v3 = "?v2\<lparr>d_chunks := om_insert sample_chunk [1, 2, 3] (d_chunks ?v2)\<rparr>"
  note c = import_delivered_commit [OF sample_load_commit sample_stored(1) sample_domains(1) sample_verifies]
  note t = import_delivered_tree [OF sample_load_tree sample_stored(2) sample_domains(2)]
  have f: "sample_full ''peer'' sample_head = Ok sample_commit_wire"
    "sample_full ''peer'' (c_tree sample_commit) = Ok sample_tree_wire" "sample_full ''peer'' sample_chunk = Ok [1, 2, 3]"
    using sample_distinct by (simp_all add: sample_full_def sample_pull_def)
  have n: "\<not> has_commit_object sample_empty sample_head" "\<not> has_tree_object ?v1 (c_tree sample_commit)"
    "\<not> has_chunk ?v2 sample_chunk"
    by (simp_all add: has_commit_object_def has_tree_object_def has_chunk_def store_exists_def om_mem_def)
  have ch: "import_stored_chunk sample sample_chunk [1, 2, 3] ?v2 = (Ok (), ?v3)"
    by (rule import_delivered_chunk [OF _ n(3)]) (simp add: sample_chunk_def)
  have "head_of sample ?v3 = Ok None" by (simp add: head_of_def)
  then show ?thesis
    using c(1) [of sample_empty] c(2) [of sample_empty] t(1) [of ?v1] t(2) [of ?v1] ch n
    by (simp add: ingest_commit_from_peer_def bindop_def ask_def unless_has_def fetch_into_def f sample_tree_chunks set_head_def
        modify_def ret_def del: sample_empty_fields)
qed

end
