(* ===== verification/SampleVault.thy ===== *)
theory SampleVault
  imports SampleRun
begin

text \<open>
  The sample vault in use: signed and sealed, merged, reported on, maintained, shared by an invite
  and fed by a watcher. Each lemma is a run that a witness of a property starts from.
\<close>

section \<open>Keys\<close>

lemma sample_secret: "load_secret_key sample (Good (hex_enc sample_key)) = Ok sample_key"
  by code_simp

text \<open>A vault on a node with a key.\<close>

definition sample_owned :: vault where
  "sample_owned = sample_empty\<lparr>v_home := Some (Good (hex_enc sample_key))\<rparr>"

lemma sample_signed_commit:
  "\<exists>c b. make_commit sample 9 sample_head [] ''m'' sample_owned = Ok c \<and> encode_commit_wire sample c = Ok b
    \<and> length b < 2 ^ 63"
proof -
  let ?b = "tryr (make_commit sample 9 sample_head [] ''m'' sample_owned) (encode_commit_wire sample)"
  have "is_ok ?b" "length (the_ok ?b) < 1000" by code_simp+
  then show ?thesis by (fastforce simp: is_ok_iff tryr_eq_Ok the_ok_def)
qed

lemma sample_bumped: "\<exists>w. bump_and_sign_config sample sample_owned = (Ok (), w)"
proof -
  have "is_ok (fst (bump_and_sign_config sample sample_owned))" by code_simp
  then show ?thesis using is_ok_run by fastforce
qed

definition sample_sealed :: vault where
  "sample_sealed = the_ok (create_for_test sample 7 (replicate 32 7) False ''v'' True (replicate 16 1) None [])"

lemma sample_wrapped:
  "\<exists>w. enable_passphrase sample (replicate 16 3) (replicate 24 4) ''pw'' sample_sealed = (Ok (), w)"
proof -
  have "is_ok (fst (enable_passphrase sample (replicate 16 3) (replicate 24 4) ''pw'' sample_sealed))" by code_simp
  then show ?thesis using is_ok_run by fastforce
qed

lemma sample_sealed_key: "v_key sample_sealed = Some (replicate 32 7)"
  by (simp add: sample_sealed_def the_ok_def create_for_test_def Let_def write_key_file_def write_config_def empty_root_def)

section \<open>A second commit\<close>

text \<open>The commit that merging the head of the sample vault into itself makes.\<close>

definition sample_next :: "string \<Rightarrow> u64 \<Rightarrow> commit" where
  "sample_next msg now = commit_new now (hash_of sample sample_tree_wire) [sample_head] ''soal-local'' msg"

definition sample_next_wire :: "string \<Rightarrow> u64 \<Rightarrow> bytes" where
  "sample_next_wire msg now = the_ok (encode_commit_wire sample (sample_next msg now))"

lemma sample_next_encodes:
  "encode_commit_wire sample (sample_next ''Merge peer'' 10) = Ok (sample_next_wire ''Merge peer'' 10)"
  "length (sample_next_wire ''Merge peer'' 10) < 1000"
  "encode_commit_wire sample (sample_next ''scheduled auto @20'' 20) = Ok (sample_next_wire ''scheduled auto @20'' 20)"
  "length (sample_next_wire ''scheduled auto @20'' 20) < 1000"
proof -
  have "is_ok (encode_commit_wire sample (sample_next ''Merge peer'' 10))"
    "is_ok (encode_commit_wire sample (sample_next ''scheduled auto @20'' 20))" by code_simp+
  then show "encode_commit_wire sample (sample_next ''Merge peer'' 10) = Ok (sample_next_wire ''Merge peer'' 10)"
    "encode_commit_wire sample (sample_next ''scheduled auto @20'' 20) = Ok (sample_next_wire ''scheduled auto @20'' 20)"
    by (auto simp: sample_next_wire_def is_ok_iff the_ok_def)
  show "length (sample_next_wire ''Merge peer'' 10) < 1000" by code_simp
  show "length (sample_next_wire ''scheduled auto @20'' 20) < 1000" by code_simp
qed

lemma sample_head_tree: "head_tree sample sample_vault = Ok sample_tree"
  by (simp add: head_tree_def sample_head_of sample_load_commit sample_load_tree)

lemma sample_self_merge: "merge_with_conflicts sample_tree ''peer'' sample_tree = (sample_tree, 0)"
  by code_simp

lemma sample_no_home [simp]: "v_home sample_vault = None"
  by (simp add: sample_vault_def)

lemma sample_tree_again: "om_insert (hash_of sample sample_tree_wire) sample_tree_wire (d_trees_bin sample_vault) = d_trees_bin sample_vault"
  by (simp add: sample_vault_def)

lemma sample_tree_hash: "c_tree sample_commit = hash_of sample sample_tree_wire"
  by (simp add: sample_commit_def commit_new_def)

lemma small_objects_upd:
  "small_objects (v\<lparr>d_head := x\<rparr>) = small_objects v" "small_objects (v\<lparr>d_heads := y\<rparr>) = small_objects v"
  "small_objects v \<Longrightarrow> length b < 1000 \<Longrightarrow> small_objects (v\<lparr>d_commits_bin := om_insert h b (d_commits_bin v)\<rparr>)"
proof -
  show "small_objects (v\<lparr>d_head := x\<rparr>) = small_objects v" "small_objects (v\<lparr>d_heads := y\<rparr>) = small_objects v"
    by (simp_all add: small_objects_def)
  have "p \<in> set (om_insert h b m) \<Longrightarrow> p = (h, b) \<or> p \<in> set m" for p m
    by (induction m) (auto split: if_splits)
  then show "small_objects v \<Longrightarrow> length b < 1000 \<Longrightarrow> small_objects (v\<lparr>d_commits_bin := om_insert h b (d_commits_bin v)\<rparr>)"
    by (fastforce simp: small_objects_def list_all_iff)
qed

lemma sample_merged:
  "\<exists>h w. merge_head sample 10 sample_head ''peer'' sample_vault = (Ok (h, 0), w) \<and> small_objects w"
proof -
  let ?h = "hash_of sample (sample_next_wire ''Merge peer'' 10)"
  have save: "save_tree sample sample_tree sample_vault = (Ok (hash_of sample sample_tree_wire), sample_vault)"
    by (simp add: save_tree_eq sample_encodes sample_tree_again)
  have msg: "merge_message ''peer'' 0 = ''Merge peer''" by code_simp
  have "merge_head sample 10 sample_head ''peer'' sample_vault =
    (Ok (?h, 0), sample_vault\<lparr>d_commits_bin := om_insert ?h (sample_next_wire ''Merge peer'' 10) (d_commits_bin sample_vault),
       d_head := Some (to_hex sample ?h), d_heads := Some (heads_body sample [?h])\<rparr>)"
    by (simp add: merge_head_def bindop_def ask_def sample_loads sample_head_of sample_head_tree sample_self_merge save
        make_commit_def msg sample_next_def [symmetric] save_commit_eq sample_next_encodes set_head_def write_heads_def
        modify_def ret_def)
  then show ?thesis
    using small_objects_upd(3) [OF sample_small sample_next_encodes(2)] by (auto simp: small_objects_upd(1,2))
qed

section \<open>Maintenance and reports\<close>

lemma sample_live:
  assumes "side sample_vault w" "d_snapshots w = NoFile"
  shows "\<exists>l. live_chunk_hashes sample w = Ok l"
proof -
  note ld = loads_side [OF assms(1)] sideD [OF assms(1)]
  have has: "has_commit_object w sample_head" using sample_has(1) by (simp add: has_commit_object_def ld)
  have roots: "protected_commit_roots sample w = Ok [sample_head]"
    by (simp add: protected_commit_roots_def ld sample_head_of sample_list_heads load_snapshots_def assms(2))
  show ?thesis
    by (simp add: live_chunk_hashes_def live_roots_def roots live_chunk_hashes_from_roots_def
        mark_chunks_def ld sample_load_commit sample_load_tree push_stack_def Let_def has)
qed

lemma sample_json_files: "d_pstate sample_vault = NoFile" "d_pins sample_vault = NoFile" "d_policy sample_vault = NoFile"
    "d_snapshots sample_vault = NoFile" "d_have sample_vault = NoFile" "d_heads sample_vault = None"
  by (simp_all add: sample_vault_def)

lemma sample_tick: "\<exists>t w. run_tick sample 20 policy_default sample_vault = (Ok t, w)"
proof -
  obtain l where l: "live_chunk_hashes sample sample_vault = Ok l" using sample_live [OF sd.refl] sample_json_files by blast
  show ?thesis
    by (simp add: run_tick_def maybe_auto_snapshot_def bindop_def ask_def load_state_def sample_json_files snapshot_due_def
        policy_default_def ret_def ensure_local_pins_def l load_pins_def save_pins_def modify_def apply_retention_def
        prune_snapshot_registry_def Let_def)
qed

lemma sample_assessed: "\<exists>h w. assess_vault sample 20 sample_vault = (Ok h, w)"
proof -
  define p where "p = policy_default\<lparr>pl_min_replicas := max (vc_min_replicas (v_config sample_vault)) 1\<rparr>"
  define w where "w = sample_vault\<lparr>d_policy := Good p\<rparr>"
  have lp: "load_policy sample_vault = (Ok p, w)"
    by (simp add: load_policy_seed sample_json_files p_def w_def)
  have sd: "side sample_vault w" using load_policy_side lp by (rule stepsD)
  note ld = loads_side [OF sd]
  obtain l where lw: "live_chunk_hashes sample w = Ok l"
    using sample_live [OF sd] by (auto simp: w_def sample_json_files)
  have st: "load_state w = Ok policy_state_default" by (simp add: load_state_def w_def sample_json_files)
  obtain repl where repl: "replication_status sample w = Ok repl"
    by (simp add: replication_status_def lw load_pins_def Let_def) (simp add: w_def sample_json_files)
  have age: "pl_max_head_age_secs p = 0" by (simp add: p_def policy_default_def)
  have has: "has_commit_object w sample_head" "has_tree_object w (c_tree sample_commit)"
    using sample_has by (simp_all add: has_commit_object_def has_tree_object_def sideD [OF sd])
  obtain b where b: "is_complete sample w sample_head = Ok b"
    by (simp add: is_complete_def ld sample_loads has)
  obtain facts r where f: "assess_head sample w p 20 (Some sample_head) (Fine, []) = Ok (facts, r)"
    by (simp add: assess_head_def ld sample_loads b head_stale_def age Let_def)
  show ?thesis
    by (simp add: assess_vault_def or_default_def bindop_def ask_def attempt_def lp ret_def st repl ld sample_head_of f
      sample_list_heads)
qed

lemma small_objects_side: "side v w \<Longrightarrow> small_objects v \<Longrightarrow> small_objects w"
  by (simp add: small_objects_def sideD)

lemma sample_snapshot_small:
  assumes "snapshot sample 20 (''scheduled auto @'' @ chrono_like_stamp 20) sample_vault = (Ok h, u)"
  shows "small_objects u"
proof -
  have msg: "''scheduled auto @'' @ chrono_like_stamp 20 = ''scheduled auto @20''" by code_simp
  let ?h = "hash_of sample (sample_next_wire ''scheduled auto @20'' 20)"
  have commit: "snapshot_commit sample 20 ''scheduled auto @20'' sample_vault =
    (Ok ?h, sample_vault\<lparr>d_commits_bin := om_insert ?h (sample_next_wire ''scheduled auto @20'' 20) (d_commits_bin sample_vault),
       d_head := Some (to_hex sample ?h)\<rparr>)"
    by (simp add: snapshot_commit_def bindop_def ask_def sample_head_of sample_load_commit make_commit_def
        sample_tree_hash sample_next_def [symmetric] save_commit_eq sample_next_encodes set_head_def modify_def ret_def)
  from assms obtain t where "snapshot_commit sample 20 ''scheduled auto @20'' sample_vault = (Ok h, t)" "side t u"
    unfolding msg by (rule snapshot_split)
  then show ?thesis using small_objects_side small_objects_upd(3) [OF sample_small sample_next_encodes(4)] commit
    by (auto simp: small_objects_upd(1,2))
qed

section \<open>Two commits\<close>

text \<open>The sample vault with a commit of the empty tree beside its own.\<close>

definition sample_root_wire :: bytes where
  "sample_root_wire = the_ok (encode_tree_wire tree_new)"

definition sample_root_commit :: commit where
  "sample_root_commit = commit_new 8 (hash_of sample sample_root_wire) [] ''soal-local'' []"

definition sample_root :: content_hash where
  "sample_root = hash_of sample (the_ok (encode_commit_wire sample sample_root_commit))"

definition sample_two :: vault where
  "sample_two = snd (save_commit sample sample_root_commit (snd (save_tree sample tree_new sample_vault)))"

lemma sample_root_encodes:
  "encode_tree_wire tree_new = Ok sample_root_wire" "length sample_root_wire < 1000"
  "\<exists>b. encode_commit_wire sample sample_root_commit = Ok b \<and> length b < 1000"
proof -
  have "is_ok (encode_tree_wire tree_new)" by code_simp
  then show "encode_tree_wire tree_new = Ok sample_root_wire" by (auto simp: is_ok_iff sample_root_wire_def the_ok_def)
  show "length sample_root_wire < 1000" by code_simp
  have "is_ok (encode_commit_wire sample sample_root_commit)" "length (the_ok (encode_commit_wire sample sample_root_commit)) < 1000"
    by code_simp+
  then show "\<exists>b. encode_commit_wire sample sample_root_commit = Ok b \<and> length b < 1000"
    by (auto simp: is_ok_iff the_ok_def)
qed

lemma sample_root_distinct: "sample_root \<noteq> sample_head" "hash_of sample sample_root_wire \<noteq> hash_of sample sample_tree_wire"
  by code_simp+

lemma sample_two_loads:
  "load_commit sample sample_two sample_root = Ok (commit_norm sample sample_root_commit)"
  "load_tree sample sample_two (c_tree sample_root_commit) = Ok tree_new"
  "load_commit sample sample_two sample_head = Ok (commit_norm sample sample_commit)"
  "load_tree sample sample_two (c_tree sample_commit) = Ok sample_tree"
proof -
  obtain b where b: "encode_commit_wire sample sample_root_commit = Ok b" "length b < 1000" using sample_root_encodes(3) by blast
  let ?t = "hash_of sample sample_root_wire"
  define v1 where "v1 = sample_vault\<lparr>d_trees_bin := om_insert ?t sample_root_wire (d_trees_bin sample_vault)\<rparr>"
  define v2 where "v2 = v1\<lparr>d_commits_bin := om_insert sample_root b (d_commits_bin v1)\<rparr>"
  have h: "sample_root = hash_of sample b" by (simp add: sample_root_def b the_ok_def)
  have st: "save_tree sample tree_new sample_vault = (Ok ?t, v1)" by (simp add: save_tree_eq sample_root_encodes v1_def)
  have sc: "save_commit sample sample_root_commit v1 = (Ok sample_root, v2)" by (simp add: save_commit_eq b v2_def h)
  have two: "sample_two = v2" by (simp add: sample_two_def st sc)
  have wf: "wf_commit sample_root_commit"
    by (simp add: wf_commit_def sample_root_commit_def commit_new_def sample_hash_law utf8_str_def utf8_ok_ascii)
  show "load_commit sample sample_two sample_root = Ok (commit_norm sample sample_root_commit)"
    unfolding two using load_saved_commit [OF sample_hash_law sample_hex_law wf sc] b by simp
  have t1: "load_tree sample v1 ?t = Ok tree_new"
    using load_saved_tree [OF wf_tree_new st] sample_root_encodes(1,2) by simp
  have same: "load_tree sample v2 k = load_tree sample v1 k" for k by (rule load_tree_cong) (simp_all add: v2_def)
  show "load_tree sample sample_two (c_tree sample_root_commit) = Ok tree_new"
    using t1 by (simp add: two same sample_root_commit_def commit_new_def)
  have "load_commit sample v2 sample_head = load_commit sample sample_vault sample_head"
    by (rule load_commit_get) (simp_all add: v2_def v1_def om_get_insert sample_root_distinct sample_root_distinct [symmetric])
  then show "load_commit sample sample_two sample_head = Ok (commit_norm sample sample_commit)"
    by (simp add: two sample_load_commit)
  have "load_tree sample v1 (c_tree sample_commit) = load_tree sample sample_vault (c_tree sample_commit)"
    by (rule load_tree_get) (simp_all add: v1_def om_get_insert sample_root_distinct sample_root_distinct [symmetric] sample_tree_hash)
  then show "load_tree sample sample_two (c_tree sample_commit) = Ok sample_tree"
    by (simp add: two same sample_load_tree)
qed

section \<open>Invites\<close>

lemma sample_invited:
  "\<exists>iv token. generate_invite sample sample_tokens 5 (replicate 32 2) (replicate 24 4) sample_sealed sample_key WriteRole None = Ok iv
    \<and> to_token sample_tokens iv = Ok token \<and> 6 \<le> iv_expires_at iv"
proof -
  let ?g = "generate_invite sample sample_tokens 5 (replicate 32 2) (replicate 24 4) sample_sealed sample_key WriteRole None"
  have "is_ok ?g" by code_simp
  then obtain iv where iv: "?g = Ok iv" by (auto simp: is_ok_iff)
  then have "iv_expires_at iv = sat_add 5 DEFAULT_TTL_SECS"
    by (rule generate_invite_Ok) (simp add: unsigned_invite_def Let_def)
  moreover have "6 \<le> sat_add 5 DEFAULT_TTL_SECS" by code_simp
  moreover have "\<exists>token. to_token sample_tokens iv = Ok token" by (simp add: to_token_def sample_tokens_def)
  ultimately show ?thesis using iv by auto
qed

lemma sample_sealed_id: "vault_id_bytes sample sample_sealed = Ok sample_vid" "vc_config_seq (v_config sample_sealed) \<noteq> 0"
  by code_simp+

section \<open>Watching\<close>

definition sample_files :: file_system where
  "sample_files p = (if p = [Normal ''root'', Normal ''a''] then FsFile [1, 2, 3] else FsOther)"

lemma sample_flushed:
  "flush_pending sample (\<lambda>_. 9) sample_files [Normal ''root''] [[Normal ''root'', Normal ''a''], [Normal ''root'', Normal ''b'']]
     \<lparr>wb_commits = [], wb_errors = []\<rparr> sample_empty
    = (Ok \<lparr>wb_commits = [([Normal ''root'', Normal ''a''], sample_head)], wb_errors = []\<rparr>, sample_vault)"
proof -
  have r: "relative_name [Normal ''root''] [Normal ''root'', Normal ''a''] = ''a''" by code_simp
  have s: "\<not> skipped [Normal ''root'', Normal ''a'']" by code_simp
  show ?thesis
    by (simp add: flush_pending_def flush_file_def is_file_def sample_files_def add_relative_def r s bindop_def attempt_def ret_def
        sample_add [unfolded vault_add_file_def])
qed

section \<open>Merging trees that differ\<close>

definition sample_other :: tree where
  "sample_other = \<lparr>entries = [(''a'', File 4 [sample_head]), (''b'', File 0 [])]\<rparr>"

lemma sample_other_wf: "wf_tree sample_other"
proof -
  have "valid_path ''a''" "valid_path ''b''" using validate_path_iff by code_simp+
  then show ?thesis
    using sample_head_wf
    by (simp add: wf_tree_def wf_tree_rep_def valid_tree_def sample_other_def om_wf_def utf8_str_def utf8_ok_ascii)
qed

lemma sample_merge:
  "merge_with_conflicts sample_other ''peer'' sample_tree =
    (\<lparr>entries = [(''a'', File 3 [sample_chunk]), (conflict_path_name ''a'' ''peer'', File 4 [sample_head]), (''b'', File 0 [])]\<rparr>, 1)"
  by code_simp

end
