(* ===== verification/Cli.thy ===== *)
theory Cli
  imports
    Api
begin

text \<open>
  The command line (\<open>src/src/main.rs\<close>): each command as an operation on the world a process finds,
  the vaults under the base directory and the node under the Soal home. What a command prints is
  left out; files it writes outside of these directories, restored ones or an invite, are listed in
  the world.
\<close>

section \<open>The world and a process\<close>

record world =
  wd_base :: base_dir
  wd_net :: network
  wd_files :: write_log

type_synonym 'a wop = "(world, soal_error, 'a) op"

text \<open>
  What one run of the process gets from outside: its global options, the clock, the random bytes it
  draws, the outcome of binding the endpoint, the transport, what it receives, the files it reads.
  \<open>e_clock\<close> and \<open>e_rounds\<close> are the clocks of the scheduler and the rounds of the watcher.
\<close>

record 'addr cli_env =
  e_passphrase :: "string option"
  e_json :: bool
  e_now :: u64
  e_rid :: "string \<Rightarrow> bytes"
  e_vault_key :: bytes
  e_node_key :: bytes
  e_salt :: bytes
  e_nonce :: bytes
  e_secret :: bytes
  e_up :: "unit result"
  e_transport :: "'addr transport"
  e_ticket :: string
  e_gossip :: "(u64 \<times> bytes) list"
  e_beacons :: "bytes list"
  e_clock :: "nat \<Rightarrow> nat \<times> u64"
  e_rounds :: "watch_round list"
  e_tree :: "string \<Rightarrow> fs_tree" \<comment> \<open>\<open>FsOther\<close> where there is none\<close>
  e_text :: "string \<Rightarrow> string result"
  e_fs :: "write_log \<Rightarrow> fsq"

text \<open>
  The commands. The timeouts of probes and listeners are left to the transport and to what the
  environment says was received; the directory of \<open>init\<close> has no effect on other commands.
\<close>

datatype vault_cmd =
    VaultCreate string bool u8 "string option"
  | VaultList
  | VaultPolicy string "u8 option" "u64 option" "u64 option" "bool option" "u64 option" "string option"
  | VaultProtect string string
  | VaultAddMember string string
  | VaultRemoveMember string string

datatype invite_cmd =
    InviteGenerate string string "u64 option" "string option"
  | InviteJoin string "string option"

datatype node_cmd =
    NodeId
  | NodeAddPeer string
  | NodeRemovePeer string
  | NodePeers
  | NodeProbe
  | NodeAnnounce string string
  | NodeListen string
  | NodeBeacon nat
  | NodeDiscover bool

datatype cmd =
    Init
  | Status "string option"
  | Health "string option" bool
  | Diff "string option" "string option" "string option"
  | Schedule "string option" nat nat bool
  | CmdVault vault_cmd
  | Add string "string option" "string option"
  | Snapshot string "string option" bool
  | Restore string "string option" "string option"
  | Log "string option" nat
  | CmdGc "string option" bool
  | CmdSync "string option" "string option" bool string
  | Merge string "string option" string bool
  | CmdWatch string "string option" nat "nat option" bool
  | Replicate "string option" bool
  | CmdInvite invite_cmd
  | CmdNode node_cmd

section \<open>Reaching the vault and the node\<close>

text \<open>The home directory as the vault reads it: the secret key of \<open>node.json\<close>.\<close>

definition home_file :: "network \<Rightarrow> string json_file" where
  "home_file n = (case n_node n of NoFile \<Rightarrow> NoFile | BadJson \<Rightarrow> BadJson | Good st \<Rightarrow> Good (ns_secret_key_hex st))"

definition on_base :: "(string json_file \<Rightarrow> 'a bop) \<Rightarrow> 'a wop" where
  "on_base m = (\<lambda>w. case m (home_file (wd_net w)) (wd_base w) of (r, b) \<Rightarrow> (r, w\<lparr>wd_base := b\<rparr>))"

definition on_net :: "'a nop \<Rightarrow> 'a wop" where
  "on_net m = (\<lambda>w. case m (wd_net w) of (r, n) \<Rightarrow> (r, w\<lparr>wd_net := n\<rparr>))"

text \<open>What follows depends on the world as it is.\<close>

definition reading :: "(world \<Rightarrow> 'a wop) \<Rightarrow> 'a wop" where
  "reading f = (\<lambda>w. f w w)"

text \<open>\<open>let _ = \<dots>\<close>: the outcome is dropped.\<close>

definition best_effort :: "'a wop \<Rightarrow> unit wop" where
  "best_effort m = bindop (attempt m) (\<lambda>_. ret ())"

definition cli_open_vault :: "ext \<Rightarrow> 'addr cli_env \<Rightarrow> string \<Rightarrow> unit wop" where
  "cli_open_vault X E name = on_base (\<lambda>home base.
     case open_with_passphrase X (e_rid E name) home name (om_get base name) (e_passphrase E) of
       Ok v \<Rightarrow> (Ok (), om_insert name v base)
     | Err e \<Rightarrow> (Err e, base)
     | Panic \<Rightarrow> (Panic, base))"

text \<open>
  Work on a vault that was opened. Its home is a path, read at each use, so it is what the home
  directory holds now.
\<close>

definition with_opened :: "string \<Rightarrow> (vault \<Rightarrow> 'a wop) \<Rightarrow> 'a wop" where
  "with_opened name f = (\<lambda>w. case om_get (wd_base w) name of
     Some v \<Rightarrow> f (with_soal_home (home_file (wd_net w)) v) w
   | None \<Rightarrow> (Err (VaultNotFound name), w))"

definition in_vault :: "string \<Rightarrow> 'a vop \<Rightarrow> 'a wop" where
  "in_vault name m = with_opened name (\<lambda>v w. case m v of (r, u) \<Rightarrow> (r, w\<lparr>wd_base := om_insert name u (wd_base w)\<rparr>))"

definition net_open :: "ext \<Rightarrow> 'addr cli_env \<Rightarrow> unit wop" where
  "net_open X E = on_net (network_open X (e_node_key E) (e_up E))"

definition announce :: "ext \<Rightarrow> 'addr cli_env \<Rightarrow> string \<Rightarrow> content_hash \<Rightarrow> unit wop" where
  "announce X E name h = with_opened name (\<lambda>v.
     bindop (on_net (announce_head_signed X (e_transport E) (e_node_key E) (e_now E) v h)) (\<lambda>_. ret ()))"

text \<open>\<open>vault.unwrap_or_else(|| "default")\<close>.\<close>

definition vault_name :: "string option \<Rightarrow> string" where
  "vault_name vault = (case vault of Some n \<Rightarrow> n | None \<Rightarrow> ''default'')"

definition in_named :: "ext \<Rightarrow> 'addr cli_env \<Rightarrow> string \<Rightarrow> 'a vop \<Rightarrow> unit wop" where
  "in_named X E name m = bindop (cli_open_vault X E name) (\<lambda>_. bindop (in_vault name m) (\<lambda>_. ret ()))"

section \<open>Commands on vaults\<close>

definition cli_init :: "ext \<Rightarrow> 'addr cli_env \<Rightarrow> unit wop" where
  "cli_init X E = best_effort (net_open X E)"

definition cli_status :: "ext \<Rightarrow> 'addr cli_env \<Rightarrow> string option \<Rightarrow> unit wop" where
  "cli_status X E vault = (case vault of
     None \<Rightarrow> ret ()
   | Some name \<Rightarrow> in_named X E name
       (if e_json E then bindop (assess_vault X (e_now E)) (\<lambda>_. ret ())
        else bindop (ask (vault_status X)) (\<lambda>_.
             bindop (attempt (ask (replication_status X))) (\<lambda>_.
             bindop (attempt load_policy) (\<lambda>_.
             bindop (ask (list_heads X)) (\<lambda>_. ret ()))))))"

text \<open>The ranks that are printed for a vault need the node and the policy, which may be seeded.\<close>

definition cli_health_vault :: "ext \<Rightarrow> 'addr cli_env \<Rightarrow> string \<Rightarrow> unit wop" where
  "cli_health_vault X E name =
     bindop (cli_open_vault X E name) (\<lambda>_.
     bindop (in_vault name (assess_vault X (e_now E))) (\<lambda>_.
       if e_json E then ret ()
       else bindop (attempt (net_open X E)) (\<lambda>net.
         if is_ok net then bindop (in_vault name (or_default policy_default load_policy)) (\<lambda>_. ret ()) else ret ())))"

definition node_id :: "ext \<Rightarrow> network \<Rightarrow> string" where
  "node_id X n = x_pk_display X (x_public X (n_secret n))"

definition cli_health_cluster :: "ext \<Rightarrow> 'addr cli_env \<Rightarrow> bool \<Rightarrow> unit wop" where
  "cli_health_cluster X E probe =
     bindop (attempt (net_open X E)) (\<lambda>net.
     bindop (if probe \<and> is_ok net then bindop (on_net (probe_all_peers (e_transport E) (e_now E))) (\<lambda>_. ret ())
             else ret ()) (\<lambda>_. reading (\<lambda>w.
       let n = wd_net w;
           (id, peers, health) = (if is_ok net then (Some (node_id X n), n_peers n, Some (health_load n)) else (None, [], None))
       in bindop (on_base (\<lambda>home. assess_cluster_with_peers X (e_now E) home (e_rid E) id (length peers) peers health))
            (\<lambda>_. ret ()))))"

definition diff_ends :: "ext \<Rightarrow> string option \<Rightarrow> string option \<Rightarrow> vault \<Rightarrow> (content_hash \<times> content_hash) result" where
  "diff_ends X from to v =
     tryr (case to of
             Some s \<Rightarrow> from_hex X s
           | None \<Rightarrow> tryr (head_of X v) (ok_or (Other ''no HEAD; pass --to''))) (\<lambda>to_h.
     tryr (case from of
             Some s \<Rightarrow> from_hex X s
           | None \<Rightarrow> tryr (load_commit X v to_h) (\<lambda>c.
               ok_or (Other ''HEAD has no parent; pass --from <commit>'') (case c_parents c of [] \<Rightarrow> None | p # _ \<Rightarrow> Some p)))
       (\<lambda>from_h. Ok (from_h, to_h)))"

definition cli_diff :: "ext \<Rightarrow> 'addr cli_env \<Rightarrow> string option \<Rightarrow> string option \<Rightarrow> string option \<Rightarrow> unit wop" where
  "cli_diff X E from to vault = in_named X E (vault_name vault)
     (ask (\<lambda>v. tryr (diff_ends X from to v) (\<lambda>(from_h, to_h). diff_commits X v from_h to_h)))"

text \<open>
  The fuel is enough for every clock that moves on by at least the poll interval while the loop
  sleeps (lemma \<open>run_for_ends\<close>). For another clock a loop that still runs is cut off with a panic,
  after the ticks made so far.
\<close>

definition run_scheduler :: "ext \<Rightarrow> 'addr cli_env \<Rightarrow> nat \<Rightarrow> nat \<Rightarrow> schedule_tick list vop" where
  "run_scheduler X E for_secs every_secs =
     bindop (run_for X (e_clock E) for_secs (max every_secs 1) (Suc (for_secs div max every_secs 1))) (\<lambda>r.
       case r of Some ticks \<Rightarrow> ret ticks | None \<Rightarrow> ask (\<lambda>_. Panic))"

definition cli_schedule :: "ext \<Rightarrow> 'addr cli_env \<Rightarrow> string option \<Rightarrow> nat \<Rightarrow> nat \<Rightarrow> bool \<Rightarrow> unit wop" where
  "cli_schedule X E vault for_secs every_secs force =
     in_named X E (vault_name vault)
       (if force then bindop (force_auto_snapshot X (e_now E) ''forced schedule snapshot'') (\<lambda>_. ret ())
        else if for_secs = 0 then bindop load_policy (\<lambda>p. bindop (run_tick X (e_now E) p) (\<lambda>_. ret ()))
        else bindop (run_scheduler X E for_secs every_secs) (\<lambda>_. ret ()))"

definition create_at :: "ext \<Rightarrow> 'addr cli_env \<Rightarrow> string \<Rightarrow> bool \<Rightarrow> u8 \<Rightarrow> unit wop" where
  "create_at X E name encrypt_it replicas = on_base (\<lambda>home base.
     case create_with_policy X (e_now E) (e_vault_key E) (e_rid E name) home (om_mem base name) name encrypt_it replicas of
       Ok v \<Rightarrow> (Ok (), om_insert name v base)
     | Err e \<Rightarrow> (Err e, base)
     | Panic \<Rightarrow> (Panic, base))"

definition cli_vault_create :: "ext \<Rightarrow> 'addr cli_env \<Rightarrow> string \<Rightarrow> bool \<Rightarrow> u8 \<Rightarrow> string option \<Rightarrow> unit wop" where
  "cli_vault_create X E name no_encrypt replicas create_pass =
     bindop (create_at X E name (\<not> no_encrypt) replicas) (\<lambda>_.
     bindop (in_vault name (save_policy (policy_default\<lparr>pl_min_replicas := max replicas 1\<rparr>))) (\<lambda>_.
       case (case create_pass of Some p \<Rightarrow> Some p | None \<Rightarrow> e_passphrase E) of
         Some p \<Rightarrow> if no_encrypt then ret () else in_vault name (enable_passphrase X (e_salt E) (e_nonce E) p)
       | None \<Rightarrow> ret ()))"

definition cli_vault_policy ::
  "ext \<Rightarrow> 'addr cli_env \<Rightarrow> string \<Rightarrow> u8 option \<Rightarrow> u64 option \<Rightarrow> u64 option \<Rightarrow> bool option \<Rightarrow> u64 option \<Rightarrow> string option \<Rightarrow> unit wop"
where
  "cli_vault_policy X E name replicas interval retain live max_head_age label =
     in_named X E name (bindop load_policy (\<lambda>current.
       if replicas \<noteq> None \<or> interval \<noteq> None \<or> retain \<noteq> None \<or> live \<noteq> None \<or> max_head_age \<noteq> None \<or> label \<noteq> None
       then bindop (ask (\<lambda>_. with_updates current replicas interval retain live max_head_age label)) (apply_policy X)
       else ret current))"

definition cli_vault_protect :: "ext \<Rightarrow> 'addr cli_env \<Rightarrow> string \<Rightarrow> string \<Rightarrow> unit wop" where
  "cli_vault_protect X E name p = in_named X E name (enable_passphrase X (e_salt E) (e_nonce E) p)"

definition cli_add_member :: "ext \<Rightarrow> 'addr cli_env \<Rightarrow> string \<Rightarrow> string \<Rightarrow> unit wop" where
  "cli_add_member X E name member = in_named X E name (add_member X member)"

definition cli_remove_member :: "ext \<Rightarrow> 'addr cli_env \<Rightarrow> string \<Rightarrow> string \<Rightarrow> unit wop" where
  "cli_remove_member X E name member = in_named X E name (remove_member X member)"

text \<open>\<open>path.file_name()\<close>, the last component if it is a name.\<close>

definition file_name :: "string \<Rightarrow> string" where
  "file_name path = (case rev (path_components path) of Normal s # _ \<Rightarrow> s | _ \<Rightarrow> ''item'')"

definition cli_add :: "ext \<Rightarrow> 'addr cli_env \<Rightarrow> string \<Rightarrow> string option \<Rightarrow> string option \<Rightarrow> unit wop" where
  "cli_add X E path vault message =
     (let name = vault_name vault in
      bindop (attempt (cli_open_vault X E name)) (\<lambda>opened.
      bindop (if is_ok opened then ret () else create_at X E name True DEFAULT_MIN_REPLICAS) (\<lambda>_.
      bindop (in_vault name (add_path X (e_now E) (e_tree E path) (file_name path))) (\<lambda>_.
      bindop (best_effort (in_vault name (ensure_local_pins X (e_now E)))) (\<lambda>_.
        case message of
          Some msg \<Rightarrow> bindop (in_vault name (snapshot X (e_now E) msg)) (\<lambda>_. ret ())
        | None \<Rightarrow> ret ())))))"

definition cli_snapshot :: "ext \<Rightarrow> 'addr cli_env \<Rightarrow> string \<Rightarrow> string option \<Rightarrow> bool \<Rightarrow> unit wop" where
  "cli_snapshot X E message vault ann =
     (let name = vault_name vault in
      bindop (cli_open_vault X E name) (\<lambda>_.
      bindop (in_vault name (snapshot X (e_now E) message)) (\<lambda>commit.
        if ann then best_effort (bindop (net_open X E) (\<lambda>_. announce X E name commit)) else ret ())))"

text \<open>Files that were restored before an error stay.\<close>

definition cli_restore :: "ext \<Rightarrow> 'addr cli_env \<Rightarrow> string \<Rightarrow> string option \<Rightarrow> string option \<Rightarrow> unit wop" where
  "cli_restore X E commit to vault =
     (let name = vault_name vault in
      bindop (cli_open_vault X E name) (\<lambda>_.
      bindop (ask (\<lambda>_. map_err (\<lambda>_. Other ''commit must be 64 hex chars'') (from_hex X commit))) (\<lambda>h.
        with_opened name (\<lambda>v w.
          case restore X (e_fs E) v h (case to of Some t \<Rightarrow> t | None \<Rightarrow> ''restored'') [] of
            (r, log) \<Rightarrow> (r, w\<lparr>wd_files := wd_files w @ log\<rparr>)))))"

definition cli_log :: "ext \<Rightarrow> 'addr cli_env \<Rightarrow> string option \<Rightarrow> nat \<Rightarrow> unit wop" where
  "cli_log X E vault limit = in_named X E (vault_name vault) (ask (\<lambda>v. history X v None limit))"

text \<open>Retention first, when there is a policy; without \<open>--apply\<close> nothing is collected.\<close>

definition cli_gc :: "ext \<Rightarrow> 'addr cli_env \<Rightarrow> string option \<Rightarrow> bool \<Rightarrow> unit wop" where
  "cli_gc X E vault apply_it =
     in_named X E (vault_name vault)
       (bindop (attempt load_policy) (\<lambda>pol.
        bindop (case pol of Ok p \<Rightarrow> bindop (apply_retention p) (\<lambda>_. ret ()) | _ \<Rightarrow> ret ()) (\<lambda>_.
        bindop (ask (live_chunk_hashes X)) (\<lambda>_.
          if apply_it then bindop (gc_all X) (\<lambda>_. ret ()) else ret ()))))"

section \<open>Commands between vaults and the node\<close>

definition cli_merge :: "ext \<Rightarrow> 'addr cli_env \<Rightarrow> string \<Rightarrow> string option \<Rightarrow> string \<Rightarrow> bool \<Rightarrow> unit wop" where
  "cli_merge X E head vault from fetch =
     (let name = vault_name vault in
      bindop (cli_open_vault X E name) (\<lambda>_.
      bindop (ask (\<lambda>_. from_hex X head)) (\<lambda>h.
      bindop (if fetch then
                bindop (net_open X E) (\<lambda>_. reading (\<lambda>w.
                  let peers = n_peers (wd_net w) in
                  if peers = [] then ret ()
                  else bindop (in_vault name (fetch_dag X (e_transport E) peers (e_now E) h False)) (\<lambda>_. ret ())))
              else ret ()) (\<lambda>_.
      bindop (in_vault name (merge_head X (e_now E) h from)) (\<lambda>_. ret ())))))"

text \<open>The last commit that the callback saw is the last of the batch; no batch means that the watch goes on.\<close>

definition cli_watch :: "ext \<Rightarrow> 'addr cli_env \<Rightarrow> string \<Rightarrow> string option \<Rightarrow> nat \<Rightarrow> nat option \<Rightarrow> bool \<Rightarrow> unit wop" where
  "cli_watch X E path vault debounce_ms for_secs ann =
     (let name = vault_name vault;
          max_ms = 1000 * (case for_secs of Some s \<Rightarrow> s | None \<Rightarrow> 3600 * 24) in
      bindop (cli_open_vault X E name) (\<lambda>_.
      bindop (in_vault name (watch_vault_path X (path_components path) (e_tree E path \<noteq> FsOther) debounce_ms (Some max_ms) (e_rounds E)))
        (\<lambda>batch.
          case batch of
            Some b \<Rightarrow>
              if ann \<and> wb_commits b \<noteq> [] then
                best_effort (bindop (net_open X E) (\<lambda>_. announce X E name (snd (List.last (wb_commits b)))))
              else ret ()
          | None \<Rightarrow> ret ())))"

text \<open>
  \<open>replicate_head\<close> on the node: the vault's part first, with the outcome of providing, then what
  providing leaves on the node, and the announcement, whose outcome is dropped.
\<close>

definition push_head :: "ext \<Rightarrow> 'addr cli_env \<Rightarrow> string \<Rightarrow> unit wop" where
  "push_head X E name =
     bindop (reading (\<lambda>w. in_vault name (replicate_head X (e_now E) (node_id X (wd_net w))
               (\<lambda>blobs. fst (provide_many X (e_transport E) blobs (wd_net w)))))) (\<lambda>_.
     with_opened name (\<lambda>v. case head_of X v of
       Ok (Some h) \<Rightarrow> bindop (on_net (provide_from_vault X (e_transport E) v h)) (\<lambda>_. best_effort (announce X E name h))
     | _ \<Rightarrow> ret ()))"

definition cli_replicate :: "ext \<Rightarrow> 'addr cli_env \<Rightarrow> string option \<Rightarrow> bool \<Rightarrow> unit wop" where
  "cli_replicate X E vault push =
     (let name = vault_name vault in
      bindop (cli_open_vault X E name) (\<lambda>_.
      bindop (in_vault name (ask (replication_status X))) (\<lambda>_.
        if push then bindop (net_open X E) (\<lambda>_. push_head X E name)
        else bindop (in_vault name (ensure_local_pins X (e_now E))) (\<lambda>_. ret ()))))"

definition cli_invite_generate ::
  "ext \<Rightarrow> token_ext \<Rightarrow> 'addr cli_env \<Rightarrow> string \<Rightarrow> string \<Rightarrow> u64 option \<Rightarrow> string option \<Rightarrow> unit wop"
where
  "cli_invite_generate X K E name role ttl out =
     bindop (cli_open_vault X E name) (\<lambda>_.
     bindop (net_open X E) (\<lambda>_.
     bindop (ask (\<lambda>_. role_parse role)) (\<lambda>role.
     with_opened name (\<lambda>v.
       bindop (ask (\<lambda>w. generate_invite X K (e_now E) (e_secret E) (e_nonce E) v (n_secret (wd_net w)) role ttl)) (\<lambda>inv.
       bindop (ask (\<lambda>_. to_token K inv)) (\<lambda>token.
         case out of
           Some path \<Rightarrow> modify (\<lambda>w. w\<lparr>wd_files := wd_files w @ [(path, as_bytes token)]\<rparr>)
         | None \<Rightarrow> ret ()))))))"

definition token_of :: "'addr cli_env \<Rightarrow> string \<Rightarrow> string result" where
  "token_of E token_or_file =
     (if token_or_file \<noteq> [] \<and> hd token_or_file = CHR ''@'' then e_text E (tl token_or_file)
      else case e_tree E token_or_file of FsFile _ \<Rightarrow> e_text E token_or_file | _ \<Rightarrow> Ok token_or_file)"

definition cli_invite_join :: "ext \<Rightarrow> token_ext \<Rightarrow> 'addr cli_env \<Rightarrow> string \<Rightarrow> string option \<Rightarrow> unit wop" where
  "cli_invite_join X K E token_or_file name =
     bindop (ask (\<lambda>_. token_of E token_or_file)) (\<lambda>token.
     bindop (on_base (\<lambda>home. join_invite X K (e_now E) (e_rid E (vault_name name)) home home (str_trim token) name)) (\<lambda>_. ret ()))"

section \<open>Commands on the node\<close>

definition on_node :: "ext \<Rightarrow> 'addr cli_env \<Rightarrow> 'a nop \<Rightarrow> unit wop" where
  "on_node X E m = bindop (net_open X E) (\<lambda>_. bindop (on_net m) (\<lambda>_. ret ()))"

definition cli_node_id :: "ext \<Rightarrow> 'addr cli_env \<Rightarrow> unit wop" where
  "cli_node_id X E = on_node X E (ret ())"

definition cli_add_peer :: "ext \<Rightarrow> 'addr cli_env \<Rightarrow> string \<Rightarrow> unit wop" where
  "cli_add_peer X E peer = on_node X E (add_peer X (e_transport E) (e_node_key E) peer)"

definition cli_remove_peer :: "ext \<Rightarrow> 'addr cli_env \<Rightarrow> string \<Rightarrow> unit wop" where
  "cli_remove_peer X E peer = on_node X E (remove_peer X (e_node_key E) peer)"

definition cli_peers :: "ext \<Rightarrow> 'addr cli_env \<Rightarrow> unit wop" where
  "cli_peers X E = on_node X E (ret ())"

definition cli_probe :: "ext \<Rightarrow> 'addr cli_env \<Rightarrow> unit wop" where
  "cli_probe X E = on_node X E (probe_all_peers (e_transport E) (e_now E))"

definition cli_announce :: "ext \<Rightarrow> 'addr cli_env \<Rightarrow> string \<Rightarrow> string \<Rightarrow> unit wop" where
  "cli_announce X E name head =
     bindop (cli_open_vault X E name) (\<lambda>_.
     bindop (ask (\<lambda>_. map_err (\<lambda>_. Other ''head must be 64 hex chars'') (from_hex X head))) (\<lambda>h.
     bindop (net_open X E) (\<lambda>_. announce X E name h)))"

text \<open>Without the vault the legacy listener is used, on the vault's name.\<close>

definition cli_listen :: "ext \<Rightarrow> 'addr cli_env \<Rightarrow> string \<Rightarrow> unit wop" where
  "cli_listen X E name =
     bindop (net_open X E) (\<lambda>_.
     bindop (attempt (cli_open_vault X E name)) (\<lambda>opened.
     bindop (if is_ok opened then with_opened name (\<lambda>v. on_net (listen_for_heads_vault X (e_transport E) v (e_gossip E)))
             else on_net (listen_for_heads X (e_transport E) name (map snd (e_gossip E)))) (\<lambda>_. ret ())))"

text \<open>One beacon every second and a half, the first at once.\<close>

definition cli_beacon :: "ext \<Rightarrow> 'addr cli_env \<Rightarrow> nat \<Rightarrow> unit wop" where
  "cli_beacon X E rounds = on_node X E (discovery_beacon X (e_transport E) (e_ticket E) rounds)"

definition cli_discover :: "ext \<Rightarrow> 'addr cli_env \<Rightarrow> bool \<Rightarrow> unit wop" where
  "cli_discover X E add_found =
     bindop (net_open X E) (\<lambda>_.
     bindop (reading (\<lambda>w. on_net (discovery_listen X (e_transport E) (e_ticket E) (node_id X (wd_net w)) (e_beacons E)))) (\<lambda>found.
       if add_found then
         for_op (\<lambda>t _. best_effort (on_net (add_peer X (e_transport E) (e_node_key E) t))) found ()
       else ret ()))"

section \<open>The sync command\<close>

definition note_announced ::
  "ext \<Rightarrow> 'addr cli_env \<Rightarrow> string \<Rightarrow> head_ann \<Rightarrow> content_hash list \<Rightarrow> content_hash list wop"
where
  "note_announced X E name ann targets =
     bindop (best_effort (in_vault name (note_peer_has X (e_now E) (node_id_hex X ann) [ha_head ann]))) (\<lambda>_.
       ret (if ha_head ann \<in> set targets then targets else targets @ [ha_head ann]))"

text \<open>The head that was asked for, or those that are announced while listening.\<close>

definition sync_targets :: "ext \<Rightarrow> 'addr cli_env \<Rightarrow> string \<Rightarrow> string option \<Rightarrow> content_hash list wop" where
  "sync_targets X E name head = (case head of
     Some h \<Rightarrow> bindop (ask (\<lambda>_. from_hex X h)) (\<lambda>h. ret [h])
   | None \<Rightarrow>
       bindop (attempt (with_opened name (\<lambda>v. on_net (listen_for_heads_vault X (e_transport E) v (e_gossip E))))) (\<lambda>anns.
         case anns of
           Ok anns \<Rightarrow> for_op (note_announced X E name) anns []
         | _ \<Rightarrow> ret []))"

definition sync_target ::
  "ext \<Rightarrow> 'addr cli_env \<Rightarrow> string \<Rightarrow> string list \<Rightarrow> bool \<Rightarrow> string \<Rightarrow> content_hash \<Rightarrow> unit \<Rightarrow> unit wop"
where
  "sync_target X E name peers merge from h = (\<lambda>_.
     bindop (attempt (in_vault name (fetch_dag X (e_transport E) peers (e_now E) h (\<not> merge)))) (\<lambda>res.
       if is_ok res then
         bindop (if merge then best_effort (in_vault name (merge_head X (e_now E) h from)) else ret ()) (\<lambda>_.
           best_effort (in_vault name (ensure_local_pins X (e_now E))))
       else ret ()))"

definition cli_sync :: "ext \<Rightarrow> 'addr cli_env \<Rightarrow> string option \<Rightarrow> string option \<Rightarrow> bool \<Rightarrow> string \<Rightarrow> unit wop" where
  "cli_sync X E vault head merge from =
     (let name = vault_name vault in
      bindop (attempt (cli_open_vault X E name)) (\<lambda>opened.
        if \<not> is_ok opened then ret ()
        else bindop (net_open X E) (\<lambda>_. reading (\<lambda>w.
          let n = wd_net w; ph = health_load n in
          if n_peers n = [] then ret ()
          else bindop (in_vault name (or_default policy_default load_policy)) (\<lambda>pol.
               bindop (with_opened name (\<lambda>v. ret (ordered_peers_for_sync X v pol (n_peers n) (hs_last_seen ph) (hs_alive ph) (e_now E))))
                 (\<lambda>peers.
               bindop (sync_targets X E name head) (\<lambda>targets.
                 for_op (sync_target X E name peers merge from) targets ())))))))"

section \<open>The program\<close>

fun run_cmd :: "ext \<Rightarrow> token_ext \<Rightarrow> 'addr cli_env \<Rightarrow> cmd \<Rightarrow> unit wop" where
  "run_cmd X K E Init = cli_init X E"
| "run_cmd X K E (Status vault) = cli_status X E vault"
| "run_cmd X K E (Health (Some name) probe) = cli_health_vault X E name"
| "run_cmd X K E (Health None probe) = cli_health_cluster X E probe"
| "run_cmd X K E (Diff from to vault) = cli_diff X E from to vault"
| "run_cmd X K E (Schedule vault for_secs every_secs force) = cli_schedule X E vault for_secs every_secs force"
| "run_cmd X K E (CmdVault (VaultCreate name no_encrypt replicas pass)) = cli_vault_create X E name no_encrypt replicas pass"
| "run_cmd X K E (CmdVault VaultList) = ret ()"
| "run_cmd X K E (CmdVault (VaultPolicy name replicas interval retain live age label)) =
     cli_vault_policy X E name replicas interval retain live age label"
| "run_cmd X K E (CmdVault (VaultProtect name p)) = cli_vault_protect X E name p"
| "run_cmd X K E (CmdVault (VaultAddMember name m)) = cli_add_member X E name m"
| "run_cmd X K E (CmdVault (VaultRemoveMember name m)) = cli_remove_member X E name m"
| "run_cmd X K E (Add path vault message) = cli_add X E path vault message"
| "run_cmd X K E (Snapshot message vault ann) = cli_snapshot X E message vault ann"
| "run_cmd X K E (Restore commit to vault) = cli_restore X E commit to vault"
| "run_cmd X K E (Log vault limit) = cli_log X E vault limit"
| "run_cmd X K E (CmdGc vault apply_it) = cli_gc X E vault apply_it"
| "run_cmd X K E (CmdSync vault head merge from) = cli_sync X E vault head merge from"
| "run_cmd X K E (Merge head vault from fetch) = cli_merge X E head vault from fetch"
| "run_cmd X K E (CmdWatch path vault debounce for_secs ann) = cli_watch X E path vault debounce for_secs ann"
| "run_cmd X K E (Replicate vault push) = cli_replicate X E vault push"
| "run_cmd X K E (CmdInvite (InviteGenerate vault role ttl out)) = cli_invite_generate X K E vault role ttl out"
| "run_cmd X K E (CmdInvite (InviteJoin token name)) = cli_invite_join X K E token name"
| "run_cmd X K E (CmdNode NodeId) = cli_node_id X E"
| "run_cmd X K E (CmdNode (NodeAddPeer peer)) = cli_add_peer X E peer"
| "run_cmd X K E (CmdNode (NodeRemovePeer peer)) = cli_remove_peer X E peer"
| "run_cmd X K E (CmdNode NodePeers) = cli_peers X E"
| "run_cmd X K E (CmdNode NodeProbe) = cli_probe X E"
| "run_cmd X K E (CmdNode (NodeAnnounce vault head)) = cli_announce X E vault head"
| "run_cmd X K E (CmdNode (NodeListen vault)) = cli_listen X E vault"
| "run_cmd X K E (CmdNode (NodeBeacon rounds)) = cli_beacon X E rounds"
| "run_cmd X K E (CmdNode (NodeDiscover add_found)) = cli_discover X E add_found"

end
