(* ===== verification/Commands.thy ===== *)
theory Commands
  imports
    Cli
begin

text \<open>
  What every command of the command line respects. A command reaches a vault by opening, creating
  or joining it and by the operations of the library; a relation on vaults and on the base
  directory that those respect is respected by every command. Two such relations are interpreted:
  that every vault stays sound, and that no object is ever deleted.
\<close>

named_theorems cmd_steps \<open>operations that respect the relations of a locale of commands\<close>

text \<open>The commands that may collect garbage.\<close>

fun may_collect :: "cmd \<Rightarrow> bool" where
  "may_collect (CmdGc vault apply_it) = apply_it"
| "may_collect (Schedule vault for_secs every_secs force) = (\<not> force)"
| "may_collect c = False"


section \<open>The contract of a command\<close>

text \<open>\<open>V\<close> is for a vault, \<open>B\<close> for the base directory; all but the collection of garbage is required.\<close>

locale commands = object_writes V X + base: evolution B
  for V :: "vault \<Rightarrow> vault \<Rightarrow> bool" and X :: ext and B :: "base_dir \<Rightarrow> base_dir \<Rightarrow> bool" +
  assumes worked: "om_get base n = Some v \<Longrightarrow> V v u \<Longrightarrow> B base (om_insert n u base)"
    and homed: "V v (with_soal_home h v)"
    and opened: "open_with_passphrase X rid home name (Some v) phrase = Ok u \<Longrightarrow> V v u"
    and created: "create_with_policy X now key rid home (om_mem base n) n en k = Ok v \<Longrightarrow> B base (om_insert n v base)"
    and joined: "steps B (join_invite X K now rid dh home token nm)"
    and configured: "steps V (add_member X m)" "steps V (remove_member X m)" "steps V (apply_policy X p)"
      "steps V (enable_passphrase X salt nonce pass)"

text \<open>One more law: the collection of garbage, which only two of the commands run.\<close>

locale collecting = commands +
  assumes collected: "steps V (gc_all X)"

sublocale commands \<subseteq> world: evolution "\<lambda>w w'. B (wd_base w) (wd_base w')"
  by unfold_locales (auto intro: base.refl base.trans)

section \<open>Reaching the vault and the node\<close>

context commands
begin

abbreviation W :: "world \<Rightarrow> world \<Rightarrow> bool" where
  "W w w' \<equiv> B (wd_base w) (wd_base w')"

lemma on_net_steps [cmd_steps]: "steps W (on_net m)"
  by (rule stepsI) (auto simp: on_net_def base.refl split: prod.splits)

lemma on_base_steps:
  assumes "\<And>home. steps B (m home)"
  shows "steps W (on_base m)"
proof (rule stepsI)
  fix w r w'
  assume "on_base m w = (r, w')"
  then obtain b where b: "m (home_file (wd_net w)) (wd_base w) = (r, b)" "w' = w\<lparr>wd_base := b\<rparr>"
    by (auto simp: on_base_def split: prod.splits)
  show "W w w'" using stepsD [OF assms b(1)] b(2) by simp
qed

lemma best_effort_steps [cmd_steps]: "steps W m \<Longrightarrow> steps W (best_effort m)"
  unfolding best_effort_def by (intro world.steps_intros)

lemma reading_steps [cmd_steps]: "(\<And>w. steps W (f w)) \<Longrightarrow> steps W (reading f)"
  by (simp add: steps_def reading_def)

lemma with_opened_steps [cmd_steps]: "(\<And>v. steps W (f v)) \<Longrightarrow> steps W (with_opened name f)"
  by (rule stepsI) (auto simp: with_opened_def base.refl split: option.splits dest!: stepsD)

lemma in_vault_steps [cmd_steps]:
  assumes "steps V m"
  shows "steps W (in_vault name m)"
proof (rule stepsI)
  fix w r w'
  assume run: "in_vault name m w = (r, w')"
  show "W w w'"
  proof (cases "om_get (wd_base w) name")
    case None
    then show ?thesis using run by (simp add: in_vault_def with_opened_def base.refl)
  next
    case (Some v)
    let ?v = "with_soal_home (home_file (wd_net w)) v"
    obtain r1 u where m: "m ?v = (r1, u)" by (cases "m ?v")
    have "W w (w\<lparr>wd_base := om_insert name u (wd_base w)\<rparr>)"
      using worked [OF Some trans [OF homed stepsD [OF assms m]]] by simp
    then show ?thesis using run Some m by (auto simp: in_vault_def with_opened_def)
  qed
qed

lemma open_steps [cmd_steps]: "steps W (cli_open_vault X E name)"
  unfolding cli_open_vault_def
proof (rule on_base_steps, rule stepsI)
  fix home base r base'
  assume run: "(case open_with_passphrase X (e_rid E name) home name (om_get base name) (e_passphrase E) of
       Ok v \<Rightarrow> (Ok (), om_insert name v base) | Err e \<Rightarrow> (Err e, base) | Panic \<Rightarrow> (Panic, base)) = (r, base')"
  show "B base base'"
  proof (cases "open_with_passphrase X (e_rid E name) home name (om_get base name) (e_passphrase E)")
    case (Ok v)
    then obtain d where d: "om_get base name = Some d" by (cases "om_get base name") (auto simp: open_with_passphrase_def)
    then have "V d v" using Ok opened by simp
    then show ?thesis using worked [OF d] run Ok by auto
  qed (use run base.refl in auto)
qed

lemma create_at_steps [cmd_steps]: "steps W (create_at X E name encrypt_it replicas)"
  unfolding create_at_def
  by (rule on_base_steps, rule stepsI) (auto simp: base.refl split: res.splits dest: created)

lemma net_open_steps [cmd_steps]: "steps W (net_open X E)"
  unfolding net_open_def by (rule cmd_steps)

lemma announce_steps [cmd_steps]: "steps W (announce X E name h)"
  unfolding announce_def by (intro cmd_steps world.steps_intros)

lemma in_named_steps [cmd_steps]: "steps V m \<Longrightarrow> steps W (in_named X E name m)"
  unfolding in_named_def by (intro cmd_steps world.steps_intros)

section \<open>What the commands do to a vault\<close>

lemmas vault_side_steps [cmd_steps] =
  load_policy_side [THEN side_steps] apply_retention_side [THEN side_steps] save_policy_side [THEN side_steps]
  ensure_local_pins_side [THEN side_steps] note_peer_has_side [THEN side_steps] assess_vault_side [THEN side_steps]

lemmas vault_work_steps [cmd_steps] = configured add_path_steps snapshot_steps merge_head_steps fetch_dag_steps
  watch_steps force_auto_steps

lemma default_policy_steps [cmd_steps]: "steps V (or_default d load_policy)"
  unfolding or_default_def by (intro steps_intros cmd_steps)

lemma replicate_head_steps [cmd_steps]: "steps V (replicate_head X now node send)"
  unfolding replicate_head_def by (intro steps_intros cmd_steps steps_case_option)

lemma assess_named_steps: "steps B (assess_named X now home rid name acc)"
proof (rule stepsI)
  fix base r base'
  assume run: "assess_named X now home rid name acc base = (r, base')"
  show "B base base'"
  proof (cases "open_vault X (rid name) home name (om_get base name)")
    case (Ok v)
    then obtain d where d: "om_get base name = Some d"
      by (cases "om_get base name") (auto simp: open_vault_def open_with_passphrase_def)
    obtain r1 u where a: "assess_vault X now v = (r1, u)" by (cases "assess_vault X now v")
    have b': "base' = om_insert name u base" using run Ok a by (cases acc; cases r1) (auto simp: assess_named_def)
    have "V d v" using Ok d opened by (simp add: open_vault_def)
    moreover have "V v u" using stepsD [OF side_steps [OF assess_vault_side] a] .
    ultimately show ?thesis unfolding b' by (intro worked [OF d]) (rule trans)
  qed (use run base.refl in \<open>auto simp: assess_named_def split: prod.splits\<close>)
qed

lemma cluster_steps: "steps B (assess_cluster_with_peers X now home rid nid n ids h)"
proof -
  have all: "steps B (bindop (for_op (assess_named X now home rid) names acc) (\<lambda>x. ret (g x)))" for names acc g
    by (intro base.steps_intros assess_named_steps)
  have "steps B (\<lambda>b. bindop (for_op (assess_named X now home rid) (names b) acc) (\<lambda>x. ret (g b x)) b)" for names acc g
    unfolding steps_def using all [unfolded steps_def] by blast
  then show ?thesis unfolding assess_cluster_with_peers_def Let_def case_prod_unfold .
qed

lemmas cmd_intros = steps_intros world.steps_intros

section \<open>Command by command\<close>

lemma cli_init_steps [cmd_steps]: "steps W (cli_init X E)"
  unfolding cli_init_def by (intro cmd_intros cmd_steps)

lemma cli_status_steps [cmd_steps]: "steps W (cli_status X E vault)"
  unfolding cli_status_def by (intro cmd_intros cmd_steps steps_case_option)

lemma cli_health_vault_steps [cmd_steps]: "steps W (cli_health_vault X E name)"
  unfolding cli_health_vault_def by (intro cmd_intros cmd_steps)

lemma cli_health_cluster_steps [cmd_steps]: "steps W (cli_health_cluster X E probe)"
  unfolding cli_health_cluster_def Let_def
  by (auto intro!: cmd_intros cmd_steps on_base_steps cluster_steps)

lemma cli_diff_steps [cmd_steps]: "steps W (cli_diff X E from to vault)"
  unfolding cli_diff_def by (intro cmd_intros cmd_steps)

lemma cli_vault_create_steps [cmd_steps]: "steps W (cli_vault_create X E name no_encrypt replicas pass)"
  unfolding cli_vault_create_def by (intro cmd_intros cmd_steps steps_case_option)

lemma cli_vault_policy_steps [cmd_steps]: "steps W (cli_vault_policy X E name replicas interval retain live age label)"
  unfolding cli_vault_policy_def by (intro cmd_intros cmd_steps)

lemma cli_vault_edits_steps [cmd_steps]:
  "steps W (cli_vault_protect X E name p)" "steps W (cli_add_member X E name m)" "steps W (cli_remove_member X E name m)"
  unfolding cli_vault_protect_def cli_add_member_def cli_remove_member_def by (intro cmd_intros cmd_steps)+

lemma cli_add_steps [cmd_steps]: "steps W (cli_add X E path vault message)"
  unfolding cli_add_def Let_def by (intro cmd_intros cmd_steps steps_case_option)

lemma cli_snapshot_steps [cmd_steps]: "steps W (cli_snapshot X E message vault ann)"
  unfolding cli_snapshot_def Let_def by (intro cmd_intros cmd_steps)

lemma write_files_steps [cmd_steps]: "steps W (modify (\<lambda>w. w\<lparr>wd_files := g w\<rparr>))"
  by (rule steps_modify) (simp add: base.refl)

lemma cli_restore_steps [cmd_steps]: "steps W (cli_restore X E commit to vault)"
  unfolding cli_restore_def Let_def
  by (intro cmd_intros cmd_steps) (auto simp: steps_def base.refl split: prod.split)

lemma cli_log_steps [cmd_steps]: "steps W (cli_log X E vault limit)"
  unfolding cli_log_def by (intro cmd_intros cmd_steps)

lemma cli_merge_steps [cmd_steps]: "steps W (cli_merge X E head vault from fetch)"
  unfolding cli_merge_def Let_def
  by (intro cmd_intros cmd_steps)

lemma cli_watch_steps [cmd_steps]: "steps W (cli_watch X E path vault debounce for_secs ann)"
  unfolding cli_watch_def Let_def by (intro cmd_intros cmd_steps steps_case_option)

lemma push_head_steps [cmd_steps]: "steps W (push_head X E name)"
  unfolding push_head_def
  by (intro cmd_intros cmd_steps) (auto split: res.split option.split intro!: cmd_intros cmd_steps)

lemma cli_replicate_steps [cmd_steps]: "steps W (cli_replicate X E vault push)"
  unfolding cli_replicate_def Let_def by (intro cmd_intros cmd_steps)

lemma cli_invites_steps [cmd_steps]:
  "steps W (cli_invite_generate X K E name role ttl out)" "steps W (cli_invite_join X K E token nm)"
  unfolding cli_invite_generate_def cli_invite_join_def
  by (intro cmd_intros cmd_steps steps_case_option on_base_steps joined; fail)+

lemma on_node_steps [cmd_steps]: "steps W (on_node X E m)"
  unfolding on_node_def by (intro cmd_intros cmd_steps)

lemma cli_node_steps [cmd_steps]:
  "steps W (cli_node_id X E)" "steps W (cli_add_peer X E peer)" "steps W (cli_remove_peer X E peer)"
  "steps W (cli_peers X E)" "steps W (cli_probe X E)" "steps W (cli_beacon X E rounds)"
  unfolding cli_node_id_def cli_add_peer_def cli_remove_peer_def cli_peers_def cli_probe_def cli_beacon_def
  by (rule cmd_steps)+

lemma cli_gossip_steps [cmd_steps]:
  "steps W (cli_announce X E name head)" "steps W (cli_listen X E name)"
  unfolding cli_announce_def cli_listen_def by (intro cmd_intros cmd_steps)+

lemma cli_discover_steps [cmd_steps]: "steps W (cli_discover X E add_found)"
  unfolding cli_discover_def
  by (intro cmd_intros cmd_steps)

lemma sync_targets_steps [cmd_steps]: "steps W (sync_targets X E name head)"
  unfolding sync_targets_def note_announced_def
  by (intro cmd_intros cmd_steps steps_case_option) (auto split: res.split intro!: cmd_intros cmd_steps)

lemma sync_target_steps [cmd_steps]: "steps W (sync_target X E name peers merge from h acc)"
  unfolding sync_target_def by (intro cmd_intros cmd_steps)

lemma cli_sync_steps [cmd_steps]: "steps W (cli_sync X E vault head merge from)"
  unfolding cli_sync_def Let_def
  by (intro cmd_intros cmd_steps)

lemma cli_gc_dry_steps [cmd_steps]: "steps W (cli_gc X E vault False)"
  unfolding cli_gc_def by (intro cmd_intros cmd_steps) (auto split: res.split intro!: cmd_intros cmd_steps)

lemma cli_schedule_forced_steps [cmd_steps]: "steps W (cli_schedule X E vault for_secs every_secs True)"
  unfolding cli_schedule_def by (intro cmd_intros cmd_steps) (auto intro!: cmd_intros cmd_steps)

lemma run_cmd_steps: "\<not> may_collect c \<Longrightarrow> steps W (run_cmd X K E c)"
  by (cases "(X, K, E, c)" rule: run_cmd.cases) (auto simp: cmd_steps world.steps_ret)

end

section \<open>With the collection of garbage\<close>

context collecting
begin

lemma run_tick_V [cmd_steps]: "steps V (run_tick X now p)"
  by (rule run_tick_steps [OF collected])

lemma run_scheduler_steps [cmd_steps]: "steps V (run_scheduler X E for_secs every_secs)"
  unfolding run_scheduler_def by (intro steps_intros steps_case_option run_for_steps [OF collected])

lemma cli_gc_steps [cmd_steps]: "steps W (cli_gc X E vault apply_it)"
  unfolding cli_gc_def
  by (intro cmd_intros cmd_steps) (auto split: res.split intro!: steps_intros cmd_steps collected)

lemma cli_schedule_steps [cmd_steps]: "steps W (cli_schedule X E vault for_secs every_secs force)"
  unfolding cli_schedule_def by (intro cmd_intros cmd_steps)

lemma all_cmd_steps: "steps W (run_cmd X K E c)"
  by (cases "(X, K, E, c)" rule: run_cmd.cases) (auto simp: cmd_steps world.steps_ret)

end

section \<open>Every vault stays sound\<close>

interpretation ok: object_writes "keeps (vault_ok X)" X for X
  by unfold_locales (auto simp: keeps_def vault_ok_def cas_ok_def addressed_insert sideD)

lemma with_soal_home_ok: "vault_ok X (with_soal_home h v) = vault_ok X v"
  by (simp add: vault_ok_def cas_ok_def with_soal_home_def)

interpretation ck: collecting "keeps (vault_ok X)" X "keeps (base_ok X)" for X
proof unfold_locales
  show "steps (keeps (base_ok X)) (join_invite X K now rid dh home token nm)" for K now rid dh home token nm
    by (rule stepsI) (auto simp: keeps_def intro: join_ok)
  show "steps (keeps (vault_ok X)) (gc_all X)" by (rule object_steps_ok [OF gc_cas gc_same_config])
qed (auto simp: keeps_def with_soal_home_ok base_ok_def om_get_insert intro: config_ops_ok enable_passphrase_ok open_ok create_ok)

section \<open>No object is deleted\<close>

definition base_grows :: "base_dir \<Rightarrow> base_dir \<Rightarrow> bool" where
  "base_grows base base' \<longleftrightarrow> (\<forall>n v. om_get base n = Some v \<longrightarrow> (\<exists>u. om_get base' n = Some u \<and> grows v u))"

interpretation bg: evolution base_grows
  by unfold_locales (auto simp: base_grows_def intro: gr.refl, meson gr.trans)

text \<open>Opening and the operations on the configuration leave the object directories as they are.\<close>

definition same_objects :: "vault \<Rightarrow> vault \<Rightarrow> bool" where
  "same_objects v w \<longleftrightarrow> d_chunks w = d_chunks v \<and> d_trees_bin w = d_trees_bin v \<and> d_trees_json w = d_trees_json v
     \<and> d_commits_bin w = d_commits_bin v \<and> d_commits_json w = d_commits_json v"

interpretation so: evolution same_objects
  by unfold_locales (auto simp: same_objects_def)

lemma same_objects_grows: "same_objects v w \<Longrightarrow> grows v w"
  by (simp add: same_objects_def grows_def)

lemma same_objects_config:
  "same_objects v (v\<lparr>v_config := c\<rparr>)" "same_objects v (write_config c v)" "same_objects v (write_key_file X k v)"
  "same_objects v (with_soal_home h v)" "same_objects v (v\<lparr>v_name := n, v_config := c, v_key := k', v_home := ho\<rparr>)"
  by (simp_all add: same_objects_def write_config_def write_key_file_def with_soal_home_def)

lemma open_same_objects:
  assumes "open_with_passphrase X rid home name (Some v) phrase = Ok u"
  shows "same_objects v u"
proof -
  have m: "same_objects v v'" if "load_or_migrate_key X phrase c v = Ok (k, c', v')" for c k c' v'
    using that by (auto simp: load_or_migrate_key_def Let_def same_objects_def write_config_def write_key_file_def
        elim!: tryr_OkE split: if_splits option.splits)
  show ?thesis
    using assms
    by (auto simp: open_with_passphrase_def Let_def same_objects_def write_config_def split: if_splits elim!: tryr_OkE
        dest!: m [unfolded same_objects_def])
qed

lemma bump_same_objects: "steps same_objects (bump_and_sign_config X)"
  unfolding bump_and_sign_config_def
  by (rule stepsI)
    (auto simp: bindop_def modify_def persist_config_def same_objects_def write_config_def split: option.splits res.splits)

lemma config_same_objects:
  "steps same_objects (add_member X m)" "steps same_objects (remove_member X m)"
  "steps same_objects (set_min_replicas X n)" "steps same_objects (enable_passphrase X salt nonce pass)"
proof -
  note b = so.steps_bindI so.steps_ret bump_same_objects steps_modify same_objects_config
  show "steps same_objects (add_member X m)"
    unfolding add_member_def Let_def by (intro so.steps_if so.steps_fail steps_if_state b)
  show "steps same_objects (set_min_replicas X n)"
    unfolding set_min_replicas_def by (intro b)
  show "steps same_objects (enable_passphrase X salt nonce pass)"
    unfolding enable_passphrase_def
    by (intro steps_if_state so.steps_intros bump_same_objects steps_modify) (simp add: same_objects_def write_wrapped_key_def)
  have "steps same_objects (bindop (modify (\<lambda>v. v\<lparr>v_config := (v_config v)\<lparr>vc_members := ms\<rparr>\<rparr>))
            (\<lambda>_. bindop (bump_and_sign_config X) (\<lambda>_. ret True)))" for ms
    by (intro b)
  then show "steps same_objects (remove_member X m)"
    by (auto simp: steps_def remove_member_def Let_def ret_def so.refl)
qed

lemma apply_policy_grows: "steps grows (apply_policy X p)"
proof -
  have r: "steps grows (set_min_replicas X n)" for n
    by (rule steps_mono [OF config_same_objects(3) same_objects_grows])
  have s: "steps grows (save_policy p)" for p by (rule og.side_steps [OF save_policy_side])
  show ?thesis
    unfolding apply_policy_def by (intro gr.steps_bindI gr.steps_ask gr.steps_ret steps_if_state r s)
qed

lemma insert_grows: "om_get base n = Some v \<Longrightarrow> grows v u \<Longrightarrow> base_grows base (om_insert n u base)"
  by (auto simp: base_grows_def om_get_insert gr.refl)

lemma insert_new_grows: "\<not> om_mem base n \<Longrightarrow> base_grows base (om_insert n u base)"
  "\<not> om_mem base n \<Longrightarrow> base_grows base (om_insert n u (om_insert n v base))"
  by (auto simp: base_grows_def om_get_insert gr.refl om_mem_def)

lemma joined_grows: "steps base_grows (join_invite X K now rid dh home token nm)"
proof (rule stepsI)
  fix base r base'
  assume run: "join_invite X K now rid dh home token nm base = (r, base')"
  have new: "\<not> om_mem base n" if "create_for_test X now [] (om_mem base n) n en i k ms = Ok v" for n en i k ms v
    using that by (auto simp: create_for_test_def split: if_splits)
  have fin: "base_grows base base'" if "join_finish X rid dh home n iv v base = (r, base')" "\<not> om_mem base n" for n iv v
    using that(1) insert_new_grows [OF that(2)]
    by (auto simp: join_finish_def bindop_def modify_def Let_def split: res.splits)
  show "base_grows base base'"
    using run by (auto simp: join_invite_def bindop_def ask_def Let_def bg.refl split: res.splits intro: fin [OF _ new])
qed

interpretation cg: commands grows X base_grows for X
proof unfold_locales
  show "steps base_grows (join_invite X K now rid dh home token nm)" for K now rid dh home token nm by (rule joined_grows)
  show "steps grows (apply_policy X p)" for p by (rule apply_policy_grows)
qed (auto simp: create_with_policy_def split: if_splits intro: insert_grows insert_new_grows same_objects_grows
    open_same_objects same_objects_config steps_mono [OF _ same_objects_grows] config_same_objects)

section \<open>Reachable worlds\<close>

text \<open>
  A world changes by a command, by what an embedding application does to the base directory, and by
  anything that happens to the node.
\<close>

inductive world_step :: "ext \<Rightarrow> token_ext \<Rightarrow> world \<Rightarrow> world \<Rightarrow> bool" for X K where
  commanded: "run_cmd X K (E :: string cli_env) c w = (r, w') \<Longrightarrow> world_step X K w w'"
| embedded: "base_step X K S (wd_base w) base \<Longrightarrow> world_step X K w (w\<lparr>wd_base := base\<rparr>)"
| node_changed: "world_step X K w (w\<lparr>wd_net := n\<rparr>)"

inductive_cases world_stepE: "world_step X K w w'"

definition world_reach :: "ext \<Rightarrow> token_ext \<Rightarrow> world \<Rightarrow> bool" where
  "world_reach X K w \<longleftrightarrow> (\<exists>w0. wd_base w0 = [] \<and> (world_step X K)\<^sup>*\<^sup>* w0 w)"

lemma world_step_ok: "world_step X K w w' \<Longrightarrow> base_ok X (wd_base w) \<Longrightarrow> base_ok X (wd_base w')"
  by (erule world_stepE)
    (auto dest: stepsD [OF ck.all_cmd_steps] base_step_ok simp: keeps_def)

lemma world_reach_ok: "world_reach X K w \<Longrightarrow> base_ok X (wd_base w)"
proof -
  have "(world_step X K)\<^sup>*\<^sup>* w0 w \<Longrightarrow> wd_base w0 = [] \<Longrightarrow> base_ok X (wd_base w)" for w0
    by (induction rule: rtranclp_induct) (auto simp: base_ok_def [of X "[]"] intro: world_step_ok)
  then show "world_reach X K w \<Longrightarrow> base_ok X (wd_base w)" by (auto simp: world_reach_def)
qed

end
