(* ===== verification/SampleCli.thy ===== *)
theory SampleCli
  imports Commands SampleRun
begin

text \<open>
  The sample instance under the command line: an empty home, an environment that is offline, and a
  world with the sample vault, on which the witnesses run commands.
\<close>

definition sample_env :: "string cli_env" where
  "sample_env = \<lparr>e_passphrase = None, e_json = False, e_now = 7, e_rid = (\<lambda>_. replicate 16 1),
     e_vault_key = [], e_node_key = sample_key, e_salt = replicate 16 3, e_nonce = replicate 24 4,
     e_secret = [], e_up = Err (Other ''offline''), e_transport = sample_transport, e_ticket = ''me'',
     e_gossip = [], e_beacons = [], e_clock = (\<lambda>i. (i, 7)), e_rounds = [], e_tree = (\<lambda>_. FsOther),
     e_text = (\<lambda>_. Err (Io ''not found'')), e_fs = (\<lambda>_. sample_fs)\<rparr>"

definition sample_start :: world where
  "sample_start = \<lparr>wd_base = [], wd_net = sample_node, wd_files = []\<rparr>"

definition sample_world :: world where
  "sample_world = \<lparr>wd_base = [(''v'', sample_vault)], wd_net = sample_node, wd_files = []\<rparr>"

lemma sample_cli_created:
  "\<exists>w v. run_cmd sample sample_tokens sample_env (CmdVault (VaultCreate ''v'' True 1 None)) sample_start = (Ok (), w)
    \<and> om_get (wd_base w) ''v'' = Some v"
proof -
  have "is_ok (fst (run_cmd sample sample_tokens sample_env (CmdVault (VaultCreate ''v'' True 1 None)) sample_start))
      \<and> om_get (wd_base (snd (run_cmd sample sample_tokens sample_env (CmdVault (VaultCreate ''v'' True 1 None)) sample_start))) ''v'' \<noteq> None"
    by code_simp
  then show ?thesis
    using is_ok_run by fastforce
qed

lemma sample_cli_member:
  "\<exists>w. run_cmd sample sample_tokens sample_env (CmdVault (VaultAddMember ''v'' ''n1'')) sample_world = (Ok (), w)"
proof -
  have "is_ok (fst (run_cmd sample sample_tokens sample_env (CmdVault (VaultAddMember ''v'' ''n1'')) sample_world))" by code_simp
  then show ?thesis using is_ok_run by fastforce
qed

end
