(* ===== verification/Publish.thy ===== *)
theory Publish
  imports
    Converge
begin

text \<open>
  From announcing to replicating: what a node provides when it announces a head
  (\<open>collect_provide_hashes\<close> in \<open>src/src/vault.rs\<close>, \<open>announce_head_signed\<close> in \<open>src/src/network.rs\<close>) is
  enough for a peer that fetches it to hold the whole graph and to restore every commit of it alike.
\<close>

section \<open>The blobs of a graph\<close>

text \<open>A commit that can be handed on: stored in binary form with its tree and chunks, and properly signed.\<close>

definition published :: "ext \<Rightarrow> vault \<Rightarrow> content_hash \<Rightarrow> bool" where
  "published X u h \<longleftrightarrow> (\<exists>c t b tb.
     load_commit X u h = Ok c \<and> om_get (d_commits_bin u) h = Some b \<and> has_domain DOMAIN_COMMIT b
   \<and> verify_commit_signature X c = Ok ()
   \<and> load_tree X u (c_tree c) = Ok t \<and> om_get (d_trees_bin u) (c_tree c) = Some tb \<and> has_domain DOMAIN_TREE tb
   \<and> (\<forall>ch\<in>set (all_chunk_hashes t). \<exists>d. om_get (d_chunks u) ch = Some d \<and> hash_of X d = ch))"

text \<open>The trees of a set of commits; their chunks are \<open>live_chunk\<close>.\<close>

definition graph_trees :: "ext \<Rightarrow> vault \<Rightarrow> content_hash set \<Rightarrow> content_hash set" where
  "graph_trees X u S = {th. \<exists>h\<in>S. \<exists>c. load_commit X u h = Ok c \<and> th = c_tree c}"

definition graph_chunks :: "ext \<Rightarrow> vault \<Rightarrow> content_hash set \<Rightarrow> content_hash set" where
  "graph_chunks X u S = {ch. live_chunk X u S ch}"

text \<open>
  No object of the graph is at once of two kinds. The code keeps one set of hashes for commits,
  trees and chunks, and does not provide the chunks of a tree whose bytes were met as a chunk.
\<close>

definition kinds_apart :: "ext \<Rightarrow> vault \<Rightarrow> content_hash set \<Rightarrow> bool" where
  "kinds_apart X u S \<longleftrightarrow> S \<inter> graph_trees X u S = {} \<and> S \<inter> graph_chunks X u S = {}
     \<and> graph_trees X u S \<inter> graph_chunks X u S = {}"

definition graph_blobs :: "ext \<Rightarrow> vault \<Rightarrow> content_hash set \<Rightarrow> (content_hash \<times> bytes) set" where
  "graph_blobs X u S =
     {(h, b). h \<in> S \<and> om_get (d_commits_bin u) h = Some b}
   \<union> {(h, b). h \<in> graph_trees X u S \<and> om_get (d_trees_bin u) h = Some b}
   \<union> {(h, b). h \<in> graph_chunks X u S \<and> om_get (d_chunks u) h = Some b}"

lemma graph_insert:
  assumes "load_commit X u h = Ok c" "load_tree X u (c_tree c) = Ok t"
  shows "graph_trees X u (insert h S) = insert (c_tree c) (graph_trees X u S)"
    "graph_chunks X u (insert h S) = set (all_chunk_hashes t) \<union> graph_chunks X u S"
  using assms by (auto simp: graph_trees_def graph_chunks_def live_chunk_insert)

lemma kinds_apart_mono: "kinds_apart X u S' \<Longrightarrow> S \<subseteq> S' \<Longrightarrow> kinds_apart X u S"
proof -
  assume a: "kinds_apart X u S'" "S \<subseteq> S'"
  then have "graph_trees X u S \<subseteq> graph_trees X u S'" "graph_chunks X u S \<subseteq> graph_chunks X u S'"
    by (auto simp: graph_trees_def graph_chunks_def live_chunk_def)
  with a show "kinds_apart X u S" unfolding kinds_apart_def by (simp only: disjoint_iff) (meson subsetD)
qed

section \<open>What is collected\<close>

text \<open>After the commits \<open>S\<close> exactly their hashes were met, and all their blobs are collected.\<close>

definition covers :: "ext \<Rightarrow> vault \<Rightarrow> content_hash set \<Rightarrow> content_hash oset \<times> blobs \<Rightarrow> bool" where
  "covers X u S st \<longleftrightarrow> set (fst st) = S \<union> graph_trees X u S \<union> graph_chunks X u S
     \<and> graph_blobs X u S \<subseteq> set (snd st)"

lemma provide_chunks_all:
  assumes "\<forall>ch\<in>set chs. \<exists>d. om_get (d_chunks u) ch = Some d \<and> hash_of X d = ch"
  shows "set (fst (fold (provide_chunk X u) chs (seen, out))) = set chs \<union> set seen"
    "set out \<subseteq> set (snd (fold (provide_chunk X u) chs (seen, out)))"
    "\<forall>ch\<in>set chs. ch \<notin> set seen \<longrightarrow> (\<forall>d. om_get (d_chunks u) ch = Some d \<longrightarrow>
       (ch, d) \<in> set (snd (fold (provide_chunk X u) chs (seen, out))))"
proof -
  have "set (fst (fold (provide_chunk X u) chs (seen, out))) = set chs \<union> set seen
    \<and> set out \<subseteq> set (snd (fold (provide_chunk X u) chs (seen, out)))
    \<and> (\<forall>ch\<in>set chs. ch \<notin> set seen \<longrightarrow> (\<forall>d. om_get (d_chunks u) ch = Some d \<longrightarrow>
       (ch, d) \<in> set (snd (fold (provide_chunk X u) chs (seen, out)))))"
    using assms
  proof (induction chs arbitrary: seen out)
    case (Cons ch chs)
    obtain d where d: "om_get (d_chunks u) ch = Some d" "hash_of X d = ch" using Cons.prems by auto
    show ?case
    proof (cases "ch \<in> set seen")
      case True
      then show ?thesis using Cons by (auto simp: provide_chunk_def)
    next
      case False
      have "export_stored_chunk X u ch = Ok d" using d by (simp add: export_stored_chunk_def store_get_Ok_iff)
      then have e: "provide_chunk X u ch (seen, out) = (os_insert ch seen, out @ [(ch, d)])"
        using False by (simp add: provide_chunk_def)
      show ?thesis using Cons.IH [of "os_insert ch seen" "out @ [(ch, d)]"] Cons.prems d False by (auto simp: e)
    qed
  qed simp
  then show "set (fst (fold (provide_chunk X u) chs (seen, out))) = set chs \<union> set seen"
    "set out \<subseteq> set (snd (fold (provide_chunk X u) chs (seen, out)))"
    "\<forall>ch\<in>set chs. ch \<notin> set seen \<longrightarrow> (\<forall>d. om_get (d_chunks u) ch = Some d \<longrightarrow>
       (ch, d) \<in> set (snd (fold (provide_chunk X u) chs (seen, out))))"
    by blast+
qed

lemma provide_commit_covers:
  assumes run: "provide_commit X u h st = Ok (ps, st')" and cov: "covers X u S st" and new: "h \<notin> S"
    and pub: "published X u h" and apart: "kinds_apart X u (insert h S)"
  shows "covers X u (insert h S) st'"
proof -
  obtain seen out where st: "st = (seen, out)" by (cases st)
  obtain c t b tb where c: "load_commit X u h = Ok c" "om_get (d_commits_bin u) h = Some b"
    and t: "load_tree X u (c_tree c) = Ok t" "om_get (d_trees_bin u) (c_tree c) = Some tb"
    and ch: "\<forall>ch\<in>set (all_chunk_hashes t). \<exists>d. om_get (d_chunks u) ch = Some d \<and> hash_of X d = ch"
    using pub unfolding published_def by blast
  note g = graph_insert [OF c(1) t(1), of S]
  have hb: "hash_of X b = h" "hash_of X tb = c_tree c"
    using c t by (auto simp: load_commit_def load_tree_def split: if_splits)
  have ex: "export_commit_bytes X u h = Ok b" "export_tree_bytes X u (c_tree c) = Ok tb"
    using c(2) t(2) hb by (simp_all add: export_commit_bytes_def export_tree_bytes_def)
  have ht: "has_tree_object u (c_tree c)" using t(2) by (simp add: has_tree_object_def om_mem_def)
  have seen: "set seen = S \<union> graph_trees X u S \<union> graph_chunks X u S" "graph_blobs X u S \<subseteq> set out"
    using cov by (simp_all add: covers_def st)
  have hn: "h \<notin> set seen" using new apart unfolding seen kinds_apart_def g by blast
  let ?st1 = "(os_insert h seen, out @ [(h, b)])"
  have r: "provide_tree X u (c_tree c) ?st1 = Ok st'"
    using run ex hn c(1) by (auto simp: provide_commit_def st elim!: tryr_OkE)
  have tn: "c_tree c \<in> set (os_insert h seen) \<longleftrightarrow> c_tree c \<in> graph_trees X u S"
    using apart unfolding kinds_apart_def g by (auto simp: seen)
  show ?thesis
  proof (cases "c_tree c \<in> graph_trees X u S")
    case True
    then have "c_tree c \<in> set (os_insert h seen)" using tn by simp
    then have st': "st' = ?st1" using r by (simp add: provide_tree_def del: set_os_insert)
    obtain h' c' where h': "h' \<in> S" "load_commit X u h' = Ok c'" "c_tree c' = c_tree c"
      using True by (auto simp: graph_trees_def)
    then have "set (all_chunk_hashes t) \<subseteq> graph_chunks X u S"
      using t(1) by (auto simp: graph_chunks_def live_chunk_def) metis
    then have "graph_trees X u (insert h S) = graph_trees X u S" "graph_chunks X u (insert h S) = graph_chunks X u S"
      using True g by auto
    then show ?thesis using seen c(2) unfolding covers_def graph_blobs_def st' by auto
  next
    case False
    let ?seen2 = "os_insert (c_tree c) (os_insert h seen)" and ?out2 = "(out @ [(h, b)]) @ [(c_tree c, tb)]"
    have st': "st' = fold (provide_chunk X u) (all_chunk_hashes t) (?seen2, ?out2)"
      using r tn False ht ex t(1) by (auto simp: provide_tree_def elim!: tryr_OkE)
    note p = provide_chunks_all [OF ch, where seen = ?seen2 and out = ?out2, folded st']
    have "graph_blobs X u (insert h S) \<subseteq> set (snd st')"
    proof
      fix x
      assume x: "x \<in> graph_blobs X u (insert h S)"
      obtain k d where kd: "x = (k, d)" by (cases x)
      consider "x \<in> graph_blobs X u S" | "k = h" "d = b" | "k = c_tree c" "d = tb"
        | "k \<in> set (all_chunk_hashes t)" "om_get (d_chunks u) k = Some d" "k \<notin> graph_chunks X u S"
        using x c(2) t(2) unfolding kd graph_blobs_def g by auto
      then show "x \<in> set (snd st')"
      proof cases
        case 4
        have "k \<notin> set (os_insert (c_tree c) (os_insert h seen))"
          using apart 4 unfolding kinds_apart_def g by (auto simp: seen)
        then show ?thesis using p(3) 4 kd by auto
      qed (use p(2) seen(2) kd in auto)
    qed
    then show ?thesis using p(1) seen(1) unfolding covers_def g by auto
  qed
qed

lemma admits_bound:
  assumes "admits (\<lambda>seen. if length seen > m then Some e else None) S"
  shows "finite S \<and> card S \<le> m"
proof -
  obtain xs where "os_wf xs" "set xs = S" "length xs \<le> m"
    using assms by (auto simp: admits_def split: if_splits)
  then show ?thesis using distinct_card [OF os_wf_distinct, of xs] by auto
qed

lemma collected_graph:
  assumes run: "collect_provide_hashes X u h = Ok items"
    and pub: "\<forall>k. reach X u {h} k \<longrightarrow> published X u k" and apart: "kinds_apart X u {k. reach X u {h} k}"
  shows "finite {k. reach X u {h} k} \<and> card {k. reach X u {h} k} \<le> MAX_JOB_COMMITS
    \<and> graph_blobs X u {k. reach X u {h} k} \<subseteq> set items"
proof -
  let ?R = "{k. reach X u {h} k}"
  let ?over = "\<lambda>seen. if length seen > MAX_JOB_COMMITS then Some (Other ''provide DAG too deep (MAX_JOB_COMMITS)'') else None"
  let ?P = "\<lambda>S st. finite S \<and> card S \<le> MAX_JOB_COMMITS \<and> (S \<subseteq> ?R \<longrightarrow> covers X u S st)"
  obtain seen where w: "walk u (\<lambda>parents queue. queue @ parents) ?over (provide_commit X u) [h] [] ([], []) = Ok (seen, items)"
    using run by (auto simp: collect_provide_hashes_def elim!: tryr_OkE)
  have "?P (set [] \<union> {k. reach X u (set [h]) k}) (seen, items)"
  proof (rule walk_reaches [OF w])
    fix S st k
    assume a: "?P S st" "\<not> has_commit_object u k" "admits ?over (insert k S)"
    have "\<not> published X u k" using no_object_no_load [OF a(2)] by (auto simp: published_def)
    then have "k \<notin> ?R" using pub by blast
    then show "?P (insert k S) st" using admits_bound [OF a(3)] by auto
  next
    fix S st k ps st'
    assume a: "?P S st" "k \<notin> S" "admits ?over (insert k S)" "provide_commit X u k st = Ok (ps, st')"
    have "covers X u (insert k S) st'" if sub: "insert k S \<subseteq> ?R"
      using provide_commit_covers [OF a(4) _ a(2) _ kinds_apart_mono [OF apart sub]] a(1) pub sub by auto
    then show "?P (insert k S) st'" using admits_bound [OF a(3)] by auto
  next
    fix k st ps st'
    assume "provide_commit X u k st = Ok (ps, st')"
    then show "\<exists>c. load_commit X u k = Ok c \<and> ps = c_parents c"
      by (cases st) (auto simp: provide_commit_def Let_def elim!: tryr_OkE)
  qed (auto simp: covers_def graph_blobs_def graph_trees_def graph_chunks_def live_chunk_def parents_in_def)
  then show ?thesis by (simp add: covers_def)
qed

section \<open>From the provided blobs to an offer\<close>

text \<open>
  The peers of a node serve what another has provided: each of them answers a request for such a
  blob with that blob or with an error, and one has it.
\<close>

definition serves :: "ext \<Rightarrow> 'addr transport \<Rightarrow> string list \<Rightarrow> bytes list \<Rightarrow> bool" where
  "serves X T peers blobs \<longleftrightarrow> (\<forall>d\<in>set blobs.
     (\<exists>p\<in>set peers. get_chunk_from_peer X T p (hash_of X d) = Ok d)
   \<and> (\<forall>p\<in>set peers. get_chunk_from_peer X T p (hash_of X d) = Ok d
       \<or> (\<exists>e. get_chunk_from_peer X T p (hash_of X d) = Err e)))"

lemma served_delivers:
  assumes "serves X T peers blobs" "d \<in> set blobs" "hash_of X d = h"
  shows "delivers (get_blob_with_failover X T peers) h d"
proof -
  obtain p where p: "p \<in> set peers" "get_chunk_from_peer X T p h = Ok d" using assms by (auto simp: serves_def)
  obtain pre q post where q: "peers = pre @ q # post" "get_chunk_from_peer X T q h = Ok d"
    "\<forall>r\<in>set pre. get_chunk_from_peer X T r h \<noteq> Ok d"
    using split_list_first_prop [of peers "\<lambda>r. get_chunk_from_peer X T r h = Ok d"] p by auto
  have "\<forall>r\<in>set pre. \<exists>e. get_chunk_from_peer X T r h = Err e" using assms q by (auto simp: serves_def)
  then have "get_blob_with_failover X T peers h = Ok (q, d)"
    unfolding get_blob_with_failover_def failover_Ok_iff using q by blast
  then show ?thesis by (auto simp: delivers_def)
qed

lemma served_offered:
  assumes "published X u k" "reach X u {h} k" "graph_blobs X u {k. reach X u {h} k} \<subseteq> set items"
    and "serves X T peers (map snd items)"
  shows "offered X u (get_blob_with_failover X T peers) k"
proof -
  let ?R = "{k. reach X u {h} k}" and ?f = "get_blob_with_failover X T peers"
  obtain c t b tb where c: "load_commit X u k = Ok c" "om_get (d_commits_bin u) k = Some b" "has_domain DOMAIN_COMMIT b"
      "verify_commit_signature X c = Ok ()"
    and t: "load_tree X u (c_tree c) = Ok t" "om_get (d_trees_bin u) (c_tree c) = Some tb" "has_domain DOMAIN_TREE tb"
    and ch: "\<forall>ch\<in>set (all_chunk_hashes t). \<exists>d. om_get (d_chunks u) ch = Some d \<and> hash_of X d = ch"
    using assms(1) unfolding published_def by blast
  have hb: "hash_of X b = k" "hash_of X tb = c_tree c"
    using c t by (auto simp: load_commit_def load_tree_def split: if_splits)
  have got: "delivers ?f j d" if "(j, d) \<in> graph_blobs X u ?R" "hash_of X d = j" for j d
    by (rule served_delivers [OF assms(4) _ that(2)]) (use that(1) assms(3) in force)
  have "(k, b) \<in> graph_blobs X u ?R" using assms(2) c(2) by (auto simp: graph_blobs_def)
  moreover have "(c_tree c, tb) \<in> graph_blobs X u ?R" using assms(2) c(1) t(2) by (auto simp: graph_blobs_def graph_trees_def)
  moreover have "(x, d) \<in> graph_blobs X u ?R" if "x \<in> set (all_chunk_hashes t)" "om_get (d_chunks u) x = Some d" for x d
    using assms(2) c(1) t(1) that unfolding graph_blobs_def graph_chunks_def live_chunk_def by blast
  ultimately show ?thesis
    using c t ch hb got unfolding offered_def by metis
qed

lemma provided_many:
  assumes "for_op (\<lambda>(h, data) k. bindop (provide X T h data) (\<lambda>_. ret (k + 1))) items (k :: nat) n = (Ok r, n')"
  shows "n_provided n' = n_provided n @ map snd items"
  using assms
proof (induction items arbitrary: k n)
  case (Cons i items)
  obtain h d where i: "i = (h, d)" by (cases i)
  have "for_op (\<lambda>(h, data) k. bindop (provide X T h data) (\<lambda>_. ret (k + 1))) items (k + 1)
      (n\<lparr>n_provided := n_provided n @ [d]\<rparr>) = (Ok r, n')"
    using Cons.prems by (auto simp: i provide_def Let_def bindop_def ask_def modify_def ret_def fail_def
        split: if_splits res.splits)
  from Cons.IH [OF this] show ?case by (simp add: i)
qed (simp add: ret_def)

text \<open>An announcement that went out has provided the whole graph of its head.\<close>

lemma announced_provides:
  assumes "announce_head_signed X T fresh now u h n = (Ok ann, n')"
  shows "\<exists>items. collect_provide_hashes X u h = Ok items \<and> n_provided n' = n_provided n @ map snd items \<and> ha_head ann = h"
proof -
  obtain k n1 where p: "provide_from_vault X T u h n = (Ok k, n1)"
    and rest: "bindop (ask (\<lambda>_. vault_id_bytes X u)) (\<lambda>vault_id.
     bindop (next_announce_seq X fresh (x_hex_enc X vault_id)) (\<lambda>sq.
     bindop (ask (\<lambda>n. sign_head_announcement X now (n_secret n) vault_id (v_name u) h sq (vc_config_seq (v_config u))))
       (\<lambda>ann. bindop (broadcast_announcement X T ann) (\<lambda>_. ret ann)))) n1 = (Ok ann, n')"
    using assms unfolding announce_head_signed_def by (rule bindop_OkE)
  obtain vid sq n2 where s: "next_announce_seq X fresh (x_hex_enc X vid) n1 = (Ok sq, n2)"
    "sign_head_announcement X now (n_secret n2) vid (v_name u) h sq (vc_config_seq (v_config u)) = Ok ann"
    "broadcast_announcement X T ann n2 = (Ok (), n')"
    using rest by (auto simp: bindop_Ok_iff ask_Ok_iff ret_def)
  have "n_provided n2 = n_provided n1"
    using s(1) by (auto simp: next_announce_seq_def load_or_create_def node_save_def bindop_Ok_iff modify_def ret_def Let_def
        split: json_file.splits if_splits)
  moreover have "n' = n2" using s(3) by (auto simp: broadcast_announcement_def subscribe_def bindop_Ok_iff ask_Ok_iff)
  moreover have "ha_head ann = h" using s(2) by (auto simp: sign_head_announcement_def Let_def elim!: tryr_OkE)
  moreover obtain items where i: "collect_provide_hashes X u h = Ok items" "provide_many X T items n = (Ok k, n1)"
    using p by (auto simp: provide_from_vault_def bindop_Ok_iff ask_Ok_iff)
  ultimately show ?thesis using provided_many [OF i(2) [unfolded provide_many_def]] by auto
qed

section \<open>The announced head is replicated\<close>

text \<open>Vaults that hold the graph alike restore it alike, under the same key.\<close>

definition chunks_agree :: "vault \<Rightarrow> vault \<Rightarrow> bool" where
  "chunks_agree u w \<longleftrightarrow> (\<forall>ch d e. om_get (d_chunks u) ch = Some d \<longrightarrow> om_get (d_chunks w) ch = Some e \<longrightarrow> d = e)"

lemma replicated_restores:
  assumes "replicated X u w k" "published X u k" "chunks_agree u w" "v_key w = v_key u"
  shows "restore X F w k target = restore X F u k target"
proof (rule restore_reads)
  fix c t ch
  assume a: "load_commit X u k = Ok c" "load_tree X u (c_tree c) = Ok t" "ch \<in> set (all_chunk_hashes t)"
  then obtain d where "om_get (d_chunks u) ch = Some d" using assms(2) unfolding published_def by fastforce
  moreover obtain e where "om_get (d_chunks w) ch = Some e"
    using assms(1) a by (auto simp: replicated_def has_chunk_def store_exists_def om_mem_def)
  ultimately show "om_get (d_chunks w) ch = om_get (d_chunks u) ch" using assms(3) by (auto simp: chunks_agree_def)
qed (use assms in \<open>auto simp: replicated_def published_def\<close>)

lemma announced_graph_on_offer:
  assumes "announce_head_signed X T fresh now u h n = (Ok ann, n')"
    and "\<forall>k. reach X u {h} k \<longrightarrow> published X u k \<and> consistent X u v k" "kinds_apart X u {k. reach X u {h} k}"
    and "serves X T' peers (n_provided n')"
  shows "graph_on_offer X u (get_blob_with_failover X T' peers) h v" "peers \<noteq> []"
proof -
  obtain items where i: "collect_provide_hashes X u h = Ok items" "n_provided n' = n_provided n @ map snd items"
    using announced_provides [OF assms(1)] by blast
  have sv: "serves X T' peers (map snd items)" using assms(4) i(2) by (auto simp: serves_def)
  note g = collected_graph [OF i(1) _ assms(3)]
  have off: "offered X u (get_blob_with_failover X T' peers) k" if "reach X u {h} k" for k
    by (rule served_offered [OF _ that _ sv]) (use assms(2) that g in auto)
  then show "graph_on_offer X u (get_blob_with_failover X T' peers) h v"
    using g assms(2) by (auto simp: graph_on_offer_def)
  have "offered X u (get_blob_with_failover X T' peers) h" by (rule off) (simp add: reach.root)
  then show "peers \<noteq> []" by (auto simp: offered_def delivers_def get_blob_with_failover_def)
qed

end
