(* ===== verification/SamplePublish.thy ===== *)
theory SamplePublish
  imports
    Publish
    SampleRun
begin

text \<open>The sample vault announces its head, and a peer that has what was provided serves it.\<close>

definition sample_serving :: "string transport" where
  "sample_serving = sample_transport\<lparr>t_get_blob := (\<lambda>a h.
     if a = ''peer'' then sample_full a h else Err (Other ''no route''))\<rparr>"

lemma sample_blob_hashes:
  "hash_of sample sample_commit_wire = sample_head" "hash_of sample sample_tree_wire = c_tree sample_commit"
  "hash_of sample [1, 2, 3] = sample_chunk"
  by (simp_all add: sample_head_def sample_commit_def commit_new_def sample_chunk_def)

lemma sample_collected:
  "collect_provide_hashes sample sample_vault sample_head
    = Ok [(sample_head, sample_commit_wire), (c_tree sample_commit, sample_tree_wire), (sample_chunk, [1, 2, 3])]"
proof -
  have t: "c_tree (commit_norm sample sample_commit) = c_tree sample_commit" "c_parents (commit_norm sample sample_commit) = []"
    by simp_all
  have e: "export_commit_bytes sample sample_vault sample_head = Ok sample_commit_wire"
    "export_tree_bytes sample sample_vault (c_tree sample_commit) = Ok sample_tree_wire"
    "export_stored_chunk sample sample_vault sample_chunk = Ok [1, 2, 3]"
    using sample_blob_hashes
    by (simp_all add: export_commit_bytes_def export_tree_bytes_def export_stored_chunk_def store_get_Ok_iff sample_vault_def
        sample_commit_def commit_new_def)
  show ?thesis
    using sample_distinct
    by (simp add: collect_provide_hashes_def provide_commit_def provide_tree_def provide_chunk_def e t sample_loads
        MAX_JOB_COMMITS_def Let_def del: os_insert.simps)
      (simp add: MAX_JOB_COMMITS_def)
qed

lemma sample_announces:
  "\<exists>ann n. announce_head_signed sample sample_transport sample_key 9 sample_vault sample_head sample_node = (Ok ann, n)
    \<and> n_provided n = [sample_commit_wire, sample_tree_wire, [1, 2, 3]]"
proof -
  let ?n = "sample_node\<lparr>n_provided := [sample_commit_wire, sample_tree_wire, [1, 2, 3]]\<rparr>"
  have l: "length sample_commit_wire \<le> MAX_BLOB_BYTES" "length sample_tree_wire \<le> MAX_BLOB_BYTES" "3 \<le> MAX_BLOB_BYTES"
    by code_simp+
  have p: "provide_from_vault sample sample_transport sample_vault sample_head sample_node = (Ok 3, ?n)"
    using l sample_blob_hashes
    by (simp add: provide_from_vault_def provide_many_def bindop_def ask_def sample_collected provide_def modify_def ret_def
        sample_transport_def sample_node_def Let_def)
  obtain a b where a: "sign_head_announcement sample 9 sample_key sample_vid ''v'' sample_head 1 1 = Ok a"
    "encode_head_announcement a = Ok b" using sample_announced by blast
  have v: "vault_id_bytes sample sample_vault = Ok sample_vid" "v_name sample_vault = ''v''" "vc_config_seq (v_config sample_vault) = 1"
  proof -
    have "v_name sample_empty = ''v''" "vc_config_seq (v_config sample_empty) = 1" by code_simp+
    then show "vault_id_bytes sample sample_vault = Ok sample_vid" "v_name sample_vault = ''v''"
      "vc_config_seq (v_config sample_vault) = 1"
      using sample_vault_id(1) by (auto simp: vault_id_bytes_def sample_vault_def)
  qed
  have "n_node ?n = NoFile" "n_secret ?n = sample_key" by (simp_all add: sample_node_def)
  then obtain st where q: "next_announce_seq sample sample_key (x_hex_enc sample sample_vid) ?n = (Ok 1, ?n\<lparr>n_node := Good st\<rparr>)"
    by (simp add: next_announce_seq_def bindop_def load_or_create_def node_save_def modify_def ret_def Let_def)
  have k: "n_secret (?n\<lparr>n_node := Good st\<rparr>) = sample_key" by (simp add: sample_node_def)
  have "broadcast_announcement sample sample_transport a m = (Ok (), m)" for m
    using a(2) by (simp add: broadcast_announcement_def bindop_def subscribe_def ask_def sample_transport_def)
  then have "\<exists>n. announce_head_signed sample sample_transport sample_key 9 sample_vault sample_head sample_node = (Ok a, n)"
    using a(1) unfolding announce_head_signed_def by (simp add: bindop_def p v ask_def q k ret_def del: network.update_convs)
  then obtain n where run: "announce_head_signed sample sample_transport sample_key 9 sample_vault sample_head sample_node = (Ok a, n)"
    by blast
  then show ?thesis using announced_provides [OF run] by (auto simp: sample_collected sample_node_def)
qed

lemma sample_served: "serves sample sample_serving [''dead'', ''peer''] [sample_commit_wire, sample_tree_wire, [1, 2, 3]]"
proof -
  have "get_chunk_from_peer sample sample_serving ''peer'' (hash_of sample d) = Ok d
      \<and> (\<exists>e. get_chunk_from_peer sample sample_serving ''dead'' (hash_of sample d) = Err e)"
    if "d \<in> set [sample_commit_wire, sample_tree_wire, [1, 2, 3]]" for d
  proof -
    have "length sample_commit_wire \<le> MAX_BLOB_BYTES" "length sample_tree_wire \<le> MAX_BLOB_BYTES" "length [1, 2, 3 :: byte] \<le> MAX_BLOB_BYTES"
      by code_simp+
    moreover have "str_trim ''peer'' = ''peer''" "str_trim ''dead'' = ''dead''" by code_simp+
    ultimately show ?thesis
      using that sample_distinct sample_blob_hashes
      by (auto simp: get_chunk_from_peer_def parse_peer_addr_def sample_serving_def sample_transport_def sample_full_def
          sample_pull_def Let_def)
  qed
  then show ?thesis by (auto simp: serves_def)
qed

lemma sample_published: "published sample sample_vault sample_head"
proof -
  have "om_get (d_trees_bin sample_vault) (c_tree (commit_norm sample sample_commit)) = Some sample_tree_wire"
    "load_tree sample sample_vault (c_tree (commit_norm sample sample_commit)) = Ok sample_tree"
    using sample_load_tree by (simp_all add: sample_vault_def sample_commit_def commit_new_def)
  then show ?thesis
    unfolding published_def using sample_loads sample_domains sample_blob_hashes
    by (auto simp: sample_vault_def)
qed

lemma sample_kinds_apart: "kinds_apart sample sample_vault {sample_head}"
  using sample_distinct sample_load_tree
  by (auto simp: kinds_apart_def graph_trees_def graph_chunks_def live_chunk_def sample_loads)

lemma sample_empty_consistent: "consistent sample sample_vault sample_empty h"
  by (simp add: consistent_def has_commit_object_def has_tree_object_def om_mem_def)

end
