(* ===== verification/Boundary.thy ===== *)
theory Boundary
  imports SampleCli
begin

text \<open>
  What the code does at its edges, where that is not what its comments or the specification say:
  each lemma is a fact about the model that one of the reported findings rests on.
\<close>

section \<open>Wire formats\<close>

text \<open>The signed form of an announcement announces six pairs and holds seven.\<close>

lemma head_sign_body_pairs:
  "encode_head_sign_body a = Ok (write_map_header 6 @ concat (map (\<lambda>(k, v). write_u64 k @ v)
     [(1, write_u64 (ha_protocol_version a)), (2, write_bstr (ha_vault_id a)), (4, write_bstr (hash_bytes (ha_head a))),
      (5, write_u64 (ha_timestamp a)), (6, write_bstr (ha_node_id a)), (7, write_u64 (ha_seq a)),
      (8, write_u64 (ha_config_seq a))]))"
  by (simp add: encode_head_sign_body_def)

text \<open>A text length of \<open>2 ^ 64 - 1\<close> overflows the cursor: a tree of a peer makes the reader panic.\<close>

lemma crafted_tree_panics:
  "decode_tree_wire (DOMAIN_TREE @ [0xA1, 1, 0xA1, 0x7B, 255, 255, 255, 255, 255, 255, 255, 255]) = Panic"
  by code_simp

text \<open>So does such a length in a commit.\<close>

lemma crafted_commit_panics:
  "decode_commit_wire sample (DOMAIN_COMMIT @ [0xA7, 1, 0x5B, 255, 255, 255, 255, 255, 255, 255, 255]) = Panic"
  by code_simp

section \<open>Merging\<close>

text \<open>A conflict copy replaces what is already under its name.\<close>

definition noted :: tree where
  "noted = \<lparr>entries = [(''a'', File 1 []), (''a (conflict from p)'', File 2 [])]\<rparr>"

lemma merge_overwrites_earlier_copy:
  "conflict_path_name ''a'' ''p'' = ''a (conflict from p)'' \<and>
   merge_with_conflicts \<lparr>entries = [(''a'', File 3 [])]\<rparr> ''p'' noted
     = (\<lparr>entries = [(''a'', File 1 []), (''a (conflict from p)'', File 3 [])]\<rparr>, 1)"
  by code_simp

text \<open>A merge leaves one head: every other recorded head is forgotten.\<close>

lemma merge_forgets_other_heads:
  assumes "merge_head X now rh label v = (Ok (h, n), w)"
  shows "d_heads w = Some (heads_body X [h])"
  using assms
  by (auto simp: merge_head_def bindop_Ok_iff ask_Ok_iff ret_def Let_def write_heads_def modify_def split_beta)

section \<open>Heads and members\<close>

text \<open>Recording a head is never refused, however many there are.\<close>

lemma head_limit_not_enforced:
  assumes "list_heads X v = Ok hs"
  shows "record_head X h v = (Ok (), v\<lparr>d_heads := Some (heads_body X (os_insert h hs))\<rparr>)"
  using assms by (simp add: record_head_def bindop_def ask_def write_heads_def modify_def)

text \<open>Without members everyone is one; so removing the last opens the vault.\<close>

lemma last_member_opens:
  assumes "vc_members (v_config v) = [m]" "remove_member X m v = (Ok b, w)"
  shows "is_member w k"
proof -
  let ?v = "v\<lparr>v_config := (v_config v)\<lparr>vc_members := []\<rparr>\<rparr>"
  have "bump_and_sign_config X ?v = (Ok (), w)"
    using assms by (auto simp: remove_member_def eq_ignore_case_def bindop_Ok_iff modify_def ret_def Let_def)
  then show ?thesis using bump_and_sign_config_Ok [of X ?v w] by (simp add: is_member_def)
qed

text \<open>The role of an invite has no effect on the vault that joins.\<close>

lemma role_has_no_effect:
  "join_finish X rid dh home name (iv\<lparr>iv_role := r\<rparr>) v = join_finish X rid dh home name iv v"
  by (simp add: join_finish_def)

section \<open>Imports and fetches\<close>

text \<open>A legacy commit is stored without a look at its signature.\<close>

lemma legacy_import_unchecked:
  assumes "hash_of X d = h" "\<not> has_domain DOMAIN_COMMIT d" "commit_from_bytes X d = Ok c" "legacy_json_hash X c = Ok k"
  shows "import_commit_bytes X h d v = (Ok (), v\<lparr>d_commits_json := om_insert h d (d_commits_json v)\<rparr>)"
  using assms by (simp add: import_commit_bytes_def bindop_def ask_def modify_def)

text \<open>A chunk the resumed job claims is not looked for, stored or not.\<close>

lemma resumed_job_trusts_claims:
  "ch \<in> set (sj_done_chunks (sr_job s)) \<Longrightarrow> sync_chunk X fetch now ch () s = (Ok (), s)"
  by (simp add: sync_chunk_def ret_def)

text \<open>A target that is complete itself ends the fetch, even if its parents are missing.\<close>

lemma complete_target_skips_parents:
  assumes "is_complete X v target = Ok True"
  shows "snd (fetch_dag_with X fetch now target False v) = v"
  using assms by (simp add: fetch_dag_with_def bindop_def ask_def ret_def)

section \<open>Restoring\<close>

text \<open>
  A file system in which \<open>out/link\<close> leads outside: a name below a missing directory of it is accepted,
  because only the immediate parent is looked at.
\<close>

definition linked :: fsq where
  "linked = \<lparr>fs_exists = (\<lambda>p. p = [Normal ''out''] \<or> p = [Normal ''out'', Normal ''link'']),
     fs_canon = (\<lambda>p. if p = [Normal ''out''] then Ok [RootDir, Normal ''out''] else Ok [RootDir, Normal ''etc''])\<rparr>"

lemma safe_join_follows_link:
  "safe_join linked ''out'' ''link/x/y'' = Ok ''out/link/x/y'' \<and>
   fs_canon linked (path_components ''out/link'') = Ok [RootDir, Normal ''etc'']"
  by code_simp

section \<open>Providing\<close>

text \<open>
  One set of hashes serves for commits, trees and chunks. A tree whose bytes were met as a chunk, say
  because they are in the vault as a file, counts as provided, and its own chunks are not.
\<close>

lemma met_tree_skips_chunks:
  assumes "export_stored_chunk X v th = Ok b" "th \<notin> set seen"
  shows "provide_chunk X v th (seen, out) = (os_insert th seen, out @ [(th, b)])"
    "provide_tree X v th (provide_chunk X v th (seen, out)) = Ok (os_insert th seen, out @ [(th, b)])"
  using assms by (simp_all add: provide_chunk_def provide_tree_def)

section \<open>Commands\<close>

text \<open>\<open>gc\<close> without \<open>--apply\<close> is called a dry run, but it prunes the snapshot registry.\<close>

definition kept_world :: world where
  "kept_world = sample_world\<lparr>wd_base := [(''v'', sample_empty\<lparr>
     d_policy := Good (policy_default\<lparr>pl_retain_snapshots := 1\<rparr>), d_snapshots := Good sample_log\<rparr>)]\<rparr>"

lemma dry_run_prunes:
  "(case run_cmd sample sample_tokens sample_env (CmdGc (Some ''v'') False) kept_world of (r, w) \<Rightarrow>
     r = Ok () \<and> map_option (\<lambda>v. d_snapshots v = Good (drop 1 sample_log)) (om_get (wd_base w) ''v'') = Some True)"
  by code_simp

text \<open>\<open>add\<close> to a vault whose key is under a passphrase, without it, reports that the vault already exists.\<close>

lemma locked_add_says_exists:
  assumes "om_get (wd_base w) name = Some v" "d_config v = Good c" "vc_encryption_enabled c" "d_wrapped v \<noteq> NoFile"
    "e_passphrase E = None"
  shows "cli_add X E path (Some name) message w = (Err (Other (''Vault '' @ quoted name @ '' already exists'')), w)"
  using assms
  by (simp add: cli_add_def vault_name_def cli_open_vault_def on_base_def open_with_passphrase_def load_or_migrate_key_def
      Let_def bindop_def attempt_def create_at_def create_with_policy_def om_mem_def is_ok_def)

section \<open>Collections and sequence numbers\<close>

text \<open>When the snapshot registry cannot be read, a collection keeps what \<open>HEAD\<close> reaches and nothing else.\<close>

lemma unreadable_registry_drops_heads:
  assumes "load_snapshots v = Err e" "head_of X v = Ok (Some h)" "gc_all X v = (Ok n, w)"
    and "has_commit_object w k"
  shows "live_object X v {k. reach X v {h} k} k"
proof -
  have "protected_commit_roots X v \<noteq> Ok roots" for roots
    using assms(1) by (auto simp: protected_commit_roots_def Let_def elim!: tryr_OkE)
  then have "live_roots X v = [h]"
    using assms(2) by (auto simp: live_roots_def split: res.split)
  then show ?thesis using gc_drops_dead [OF assms(3)] assms(4) by simp
qed

text \<open>The number after the last 64-bit number is 0, and no announcement with that number is accepted.\<close>

lemma wrapped_number_rejected:
  assumes "last_announced n vx = - 1" "next_announce_seq X fresh vx n = (Ok s, n')" "ha_seq a = s"
  shows "fst (validate_announcement X now a vault m) \<noteq> Ok ()"
proof
  assume "fst (validate_announcement X now a vault m) = Ok ()"
  then have "last_accepted X m a < s"
    using validate_Ok_iff [of X now a vault m "snd (validate_announcement X now a vault m)"] assms(3)
    by (auto simp: prod_eq_iff)
  then show False using next_announce_Ok(1) [OF assms(2)] assms(1) by simp
qed

text \<open>
  With a clock that was set back behind the last snapshot, the seconds until the next one are the whole
  interval, after which it is not due.
\<close>

lemma wait_too_short:
  "let p = policy_default\<lparr>pl_snapshot_interval_secs := 10\<rparr>; st = policy_state_default\<lparr>ps_last_auto_snapshot_at := 100\<rparr>
   in secs_until_snapshot p st 90 = Some 10 \<and> \<not> snapshot_due p st (90 + 10)"
  by code_simp

end
