(* ===== verification/Spec2Isabelle.thy ===== *)
theory Spec2Isabelle
  imports SampleVault SampleCli SamplePublish Boundary
begin

text \<open>
Verification of soal, a content-addressed store of files that is encrypted, versioned and
  synchronised between the nodes of its owners (the Rust crate under \<open>src/\<close>).

  The program. A vault is a directory of chunks, trees and commits, each in a file named by the hash
  of its bytes, with a \<open>HEAD\<close>, further heads, a signed configuration and some files beside them. Files
  are cut into chunks, encrypted, and listed in trees; commits point to trees and to their parents.
  Nodes announce signed heads, check the announcements of others, fetch what they lack by following
  the graph of an announced commit, and merge. A scheduler takes snapshots and collects garbage, a
  watcher feeds changed files in, invites carry a vault to another node. The library (\<open>api.rs\<close>) and
  the command line (\<open>main.rs\<close>) put these together.

  Method. The definitions are translated from the source and can be evaluated. A fallible function
  returns \<open>Ok\<close>, \<open>Err\<close> with the source's error, or \<open>Panic\<close>; an operation with effects takes the state
  and returns it beside the outcome, so that what a failing operation leaves behind is part of the
  model. \<open>?\<close> is \<open>tryr\<close> or \<open>bindop\<close>, \<open>let _ =\<close> is \<open>attempt\<close>, loops are \<open>for_op\<close> or recursive functions.
  The widths of integers are those of the source. \<open>BTreeMap\<close> is a sorted association list with unique keys.

  The theories, in the order of their dependence.
  \<^item> \<open>Prelude\<close>: outcomes, byte strings, words, lists. \<open>OrdMap\<close>: ordered maps and sets, locale
    \<open>ordered_map\<close>. \<open>StateRes\<close>: operations with state, locale \<open>evolution\<close> for relations that every step of
    a composed operation respects.
  \<^item> \<open>Core\<close> (\<open>lib.rs\<close>): errors, content hashes, and the record \<open>ext\<close> of the external libraries.
  \<^item> \<open>Cbor\<close>, \<open>Wire\<close>, \<open>TreeCodec\<close>, \<open>CommitCodec\<close>, \<open>HeadAnn\<close> (\<open>codec.rs\<close>, \<open>commit.rs\<close>): writer and cursor,
    framed objects with the locales \<open>wire_codec\<close> and \<open>framed_codec\<close>, and the three codecs: what is
    encoded is decoded, what is decoded is well formed, what is signed determines the object.
  \<^item> \<open>TreePath\<close>, \<open>Merkle\<close> (\<open>tree.rs\<close>): valid paths, names of conflict copies, \<open>safe_join\<close>; trees and merging.
  \<^item> \<open>Identity\<close> (\<open>identity.rs\<close>), \<open>Crypto\<close> (\<open>crypto.rs\<close>): signatures; encryption of chunks and wrapping of keys.
  \<^item> \<open>Chunking\<close>, \<open>Store\<close> (\<open>chunking.rs\<close>, \<open>store.rs\<close>): chunk boundaries, and the object store, which refines
    a map from hashes to bytes (locale \<open>content_store\<close>).
  \<^item> \<open>VaultState\<close>, \<open>VaultConfig\<close>, \<open>VaultObjects\<close>, \<open>VaultOps\<close>, \<open>Gc\<close> (\<open>vault.rs\<close>): the record of a vault, its
    configuration and key, objects and heads, adding, restoring, merging, ingesting, and the
    collection of garbage. The locale \<open>object_writes\<close> is the contract of a write to a vault: content
    addressing, growth of the directories and the stability of the configuration are its instances.
  \<^item> \<open>Policy\<close>, \<open>Schedule\<close>, \<open>Replication\<close>, \<open>Health\<close>, \<open>Invite\<close>, \<open>Watch\<close>: the modules of these names.
  \<^item> \<open>Network\<close> (\<open>network.rs\<close>): the node's files, announcements sent and accepted, fetching with failover.
  \<^item> \<open>Sync\<close>, \<open>Converge\<close>, \<open>Publish\<close> (\<open>sync.rs\<close>): the resumable fetch of a graph of commits. \<open>Sync\<close> shows what a fetch
    that returned has done, \<open>Converge\<close> that it does return when the peers offer the graph, \<open>Publish\<close>
    that what a node provides with an announcement is such an offer.
  \<^item> \<open>Api\<close> (\<open>api.rs\<close>): the session; every operation of the library keeps every vault sound.
  \<^item> \<open>Cli\<close>, \<open>Commands\<close> (\<open>main.rs\<close>): every command on the base directory and the node, and the locale
    \<open>commands\<close> of relations that all of them respect, with its extension \<open>collecting\<close>.
  \<^item> \<open>Sample\<close>, \<open>SampleRun\<close>, \<open>SampleVault\<close>, \<open>SampleCli\<close>, \<open>SamplePublish\<close>: a concrete instance of the external libraries
    that satisfies every law assumed, with the runs that the witnesses below start from.
  \<^item> \<open>Boundary\<close>: facts behind the places where the code departs from its documentation.

  External code. BLAKE3, hex, XChaCha20-Poly1305, Argon2, Ed25519, fastcdc, serde JSON and base64 are
  fields of \<open>ext\<close> or \<open>token_ext\<close>. What is relied on are their documented laws, named \<open>hash_law\<close> (32
  bytes; injectivity is never assumed), \<open>hex_law\<close>, \<open>aead_law\<close>, \<open>sign_law\<close>, \<open>pk_law\<close>, \<open>fastcdc_law\<close>,
  \<open>token_law\<close>. The transport is the record \<open>transport\<close> of functions that answer what a peer sends or
  the error; nothing is assumed about it but where a property says so. Clocks, random bytes and the
  events of the file system are arguments.

  Bounds and fuel. The loop of \<open>sync.rs\<close> ends at the job limit the source has, so its recursion has a
  measure. The walks through ancestors are bounded by the objects a vault has. Only the scheduler's loop
  takes fuel, \<open>duration div poll + 1\<close>, which is proved to be enough for a clock that advances while the
  loop sleeps; a run that is cut off under another clock keeps the effects of its ticks. Encoded objects are shorter than \<open>2 ^ 63\<close> bytes where a property needs it, as the address
  space ensures (\<open>small_objects\<close>).

  Not modelled. The iroh endpoint, its accept loop and gossip transport, which are external; parsing of
  the command line and printing; creation and permissions of the key file; the atomicity of a write
  through a temporary file, which is one step; the interleaving of two processes on one vault, which
  the program does not guard against; failures of the file system beyond missing and unreadable files.
\<close>

text \<open>
  C1: Adding the bytes of a file under a valid name yields a new \<open>HEAD\<close> whose only parent is the old one;
  its tree is the old tree with that name updated, and restoring the entry gives back exactly the
  bytes that were added.
\<close>

theorem added_file_restores:
  assumes "hash_law X" "hex_law X" "aead_law X" "fastcdc_law X"
    and "valid_path p" "utf8_str p" "head_tree X v = Ok t0" "wf_tree t0"
    and "vault_add_file X now (FsFile data) p v = (Ok h, w)" "small_objects w"
  shows "\<exists>c t hs cur. head_of X v = Ok cur \<and> head_of X w = Ok (Some h) \<and> load_commit X w h = Ok c
    \<and> c_parents c = (case cur of Some q \<Rightarrow> [q] | None \<Rightarrow> []) \<and> load_tree X w (c_tree c) = Ok t
    \<and> om_get (entries t) = (om_get (entries t0))(p \<mapsto> File (word_of_nat (length data)) hs)
    \<and> restore_file X w p (word_of_nat (length data)) hs = Ok data"
  using assms unfolding vault_add_file_def by (rule add_file_restores)

theorem added_file_restores_witness:
  "\<exists>t hs. load_tree sample sample_vault (c_tree (the_ok (load_commit sample sample_vault sample_head))) = Ok t
    \<and> om_get (entries t) ''a'' = Some (File 3 hs) \<and> restore_file sample sample_vault ''a'' 3 hs = Ok [1, 2, 3]"
proof -
  have p: "valid_path ''a''" "utf8_str ''a''" "wf_tree tree_new"
    using sample_tree_wf by (simp_all add: sample_valid_name utf8_str_def utf8_ok_ascii wf_tree_new)
  show ?thesis
    using added_file_restores [OF sample_hash_law sample_hex_law sample_aead_law sample_fastcdc_law p(1,2)
        sample_empty_tree p(3) sample_add sample_small]
    by (auto simp: the_ok_def)
qed

text \<open>
  C2: A node announces a head whose graph is stored there in binary form, complete, intact and with
  signatures that verify, and in which no object is of two kinds. Another node, which reads what it has of the graph as the
  announcer does, on which the head is not yet complete and which has no unfinished job for it,
  fetches the head from peers that serve what was provided, among others that answer with errors:
  the fetch succeeds and \<open>HEAD\<close> is the announced commit. Every commit of the graph then reads as at the
  announcer, and restores as there if the key is the same and no chunk differs under one hash.
\<close>

theorem announced_head_replicates:
  assumes "hex_law X" "wf_hash h" "announce_head_signed X T fresh now u h n = (Ok ann, n')"
    and "\<forall>k. reach X u {h} k \<longrightarrow> published X u k \<and> consistent X u v k" "kinds_apart X u {k. reach X u {h} k}"
    and "serves X T' peers (n_provided n')" "om_get (d_jobs v) h = None" "is_complete X v h \<noteq> Ok True"
  shows "\<exists>res w. fetch_dag X T' peers later (ha_head ann) True v = (Ok res, w) \<and> head_of X w = Ok (Some h)
    \<and> (\<forall>k. reach X u {h} k \<longrightarrow> replicated X u w k
        \<and> (v_key v = v_key u \<longrightarrow> chunks_agree u w \<longrightarrow> (\<forall>F target. restore X F w k target = restore X F u k target)))"
proof -
  note g = announced_graph_on_offer [OF assms(3,4,5,6)]
  have ann: "ha_head ann = h" using announced_provides [OF assms(3)] by blast
  obtain res w where run: "fetch_dag X T' peers later h True v = (Ok res, w)"
    and all: "\<And>k. reach X u {h} k \<Longrightarrow> replicated X u w k"
    using fetch_converges [OF assms(1,2) g(1) assms(7), of later True] assms(8) g(2) by (auto simp: fetch_dag_def)
  have "head_of X w = Ok (Some h)" using run fetch_dag_with_Ok(3) [OF assms(1,2)] by (simp add: fetch_dag_def g(2))
  moreover have "v_key w = v_key v" using stepsD [OF os.fetch_dag_steps run] by (simp add: same_config_def)
  ultimately show ?thesis using run ann all replicated_restores assms(4) by auto
qed

theorem announced_head_replicates_witness:
  "\<exists>ann n res w. announce_head_signed sample sample_transport sample_key 9 sample_vault sample_head sample_node = (Ok ann, n)
    \<and> fetch_dag sample sample_serving [''dead'', ''peer''] 9 (ha_head ann) True sample_empty = (Ok res, w)
    \<and> head_of sample w = Ok (Some sample_head) \<and> replicated sample sample_vault w sample_head"
proof -
  obtain ann n where run: "announce_head_signed sample sample_transport sample_key 9 sample_vault sample_head sample_node = (Ok ann, n)"
    "n_provided n = [sample_commit_wire, sample_tree_wire, [1, 2, 3]]"
    using sample_announces by blast
  have "is_complete sample sample_empty sample_head \<noteq> Ok True"
    by (simp add: is_complete_def has_commit_object_def om_mem_def)
  moreover have "\<forall>k. reach sample sample_vault {sample_head} k \<longrightarrow>
      published sample sample_vault k \<and> consistent sample sample_vault sample_empty k"
    by (simp add: sample_reach sample_published sample_empty_consistent)
  moreover have "kinds_apart sample sample_vault {k. reach sample sample_vault {sample_head} k}"
    by (simp add: sample_reach sample_kinds_apart)
  moreover have "serves sample sample_serving [''dead'', ''peer''] (n_provided n)" by (simp only: run(2) sample_served)
  moreover have "om_get (d_jobs sample_empty) sample_head = None" by simp
  ultimately obtain res w where "fetch_dag sample sample_serving [''dead'', ''peer''] 9 (ha_head ann) True sample_empty = (Ok res, w)"
    "head_of sample w = Ok (Some sample_head)" "replicated sample sample_vault w sample_head"
    using announced_head_replicates [OF sample_hex_law sample_head_wf run(1)] reach.root [of sample_head "{sample_head}"] by blast
  with run(1) show ?thesis by blast
qed

text \<open>
  C3: Whatever sequence of commands was run and of operations a session has performed, every vault of
  the base directory has content-addressed object directories, asks for at least one replica, keeps
  no key in its configuration, and has no plain key file once its key is wrapped under a passphrase.
\<close>

theorem reachable_vaults_ok:
  assumes "world_reach X K w" "om_get (wd_base w) name = Some v"
  shows "cas_ok X v \<and> vc_min_replicas (v_config v) \<noteq> 0 \<and> vc_key_hex (v_config v) = None
    \<and> (d_wrapped v = NoFile \<or> d_key v = None)"
  using world_reach_ok [OF assms(1)] assms(2) by (auto simp: base_ok_def vault_ok_def conf_ok_def)

theorem reachable_vaults_ok_witness:
  "\<exists>w v. world_reach sample sample_tokens w \<and> om_get (wd_base w) ''v'' = Some v \<and> cas_ok sample v"
proof -
  obtain w v where run: "run_cmd sample sample_tokens sample_env (CmdVault (VaultCreate ''v'' True 1 None)) sample_start = (Ok (), w)"
    "om_get (wd_base w) ''v'' = Some v"
    using sample_cli_created by blast
  have "wd_base sample_start = []" by (simp add: sample_start_def)
  then have "world_reach sample sample_tokens w"
    unfolding world_reach_def using world_step.commanded [OF run(1)] by blast
  then show ?thesis using run(2) reachable_vaults_ok by blast
qed

text \<open>
  C4: When the heads and the snapshot registry can be read, a garbage collection leaves every commit that is
  reachable from \<open>HEAD\<close>, the other heads or a registered snapshot restorable exactly as before: the
  same files, the same bytes, the same errors. What \<open>HEAD\<close> reaches is kept so even when they cannot.
\<close>

theorem collection_keeps_restore:
  assumes "gc_all X v = (Ok n, w)"
    and "list_heads X v = Ok hs \<and> load_snapshots v = Ok log
        \<and> reach X v (set hs \<union> {k. \<exists>e\<in>set log. from_hex X (se_hash e) = Ok k}) h
      \<or> head_of X v = Ok (Some k) \<and> reach X v {k} h"
  shows "restore X F w h target = restore X F v h target"
  using assms(2) by (intro gc_keeps_restore [OF assms(1)]) (blast intro: reach_live reach_head_live)

theorem collection_keeps_restore_witness:
  "\<exists>n w. gc_all sample sample_vault = (Ok n, w)
    \<and> (\<forall>F t. restore sample F w sample_head t = restore sample F sample_vault sample_head t)"
proof -
  obtain n w where run: "gc_all sample sample_vault = (Ok n, w)" using sample_gc by blast
  have ls: "load_snapshots sample_vault = Ok []" by (simp add: load_snapshots_def) (simp add: sample_vault_def)
  have "reach sample sample_vault (set [sample_head] \<union> {k. \<exists>e\<in>set []. from_hex sample (se_hash e) = Ok k}) sample_head"
    by (rule reach.root) simp
  then show ?thesis using run collection_keeps_restore [OF run] sample_list_heads ls by blast
qed

text \<open>
  C5: A restore that succeeds has written exactly the files of the commit's tree, in the order of the tree:
  the bytes of each are the plaintexts of its chunks put together, every one of which hashes to the
  listed hash when it is brought into its stored form again, and as many as the recorded size; the
  path is the one that \<open>safe_join\<close> gives once the writes before are made.
\<close>

theorem restore_is_exact:
  assumes "restore X F v h target log = (Ok (), log')"
  shows "\<exists>c t ws. load_commit X v h = Ok c \<and> load_tree X v (c_tree c) = Ok t \<and> log' = log @ ws
    \<and> length ws = length (filter is_file_entry (entries t))
    \<and> (\<forall>i<length ws. writes_entry X F v target (log @ take i ws) (filter is_file_entry (entries t) ! i) (ws ! i))"
  using assms by (rule restore_Ok)

theorem restore_is_exact_witness:
  "\<exists>log'. restore sample (\<lambda>_. sample_fs) sample_vault sample_head ''out'' [] = (Ok (), log')
    \<and> (\<exists>t. load_tree sample sample_vault (c_tree sample_commit) = Ok t
      \<and> length log' = length (filter is_file_entry (entries t))
      \<and> (\<forall>i<length log'. writes_entry sample (\<lambda>_. sample_fs) sample_vault ''out'' (take i log')
          (filter is_file_entry (entries t) ! i) (log' ! i)))"
proof -
  obtain log' where run: "restore sample (\<lambda>_. sample_fs) sample_vault sample_head ''out'' [] = (Ok (), log')"
    using sample_restore by blast
  show ?thesis using run restore_is_exact [OF run] sample_load_commit by auto
qed

text \<open>
  C6: A command that does not collect garbage, which only \<open>gc --apply\<close> and the passes of \<open>schedule\<close> do,
  deletes nothing that a vault of the base directory has stored, whether it succeeds or fails: the
  vault is still there, every chunk with its bytes, every tree and every commit.
\<close>

theorem commands_keep_objects:
  assumes "run_cmd X K E c w = (r, w')" "\<not> may_collect c" "om_get (wd_base w) name = Some v"
  shows "\<exists>u. om_get (wd_base w') name = Some u
    \<and> (\<forall>h d. om_get (d_chunks v) h = Some d \<longrightarrow> om_get (d_chunks u) h = Some d)
    \<and> (\<forall>h. has_tree_object v h \<longrightarrow> has_tree_object u h) \<and> (\<forall>h. has_commit_object v h \<longrightarrow> has_commit_object u h)"
  using stepsD [OF cg.run_cmd_steps [OF assms(2)] assms(1)] assms(3)
  by (force simp: base_grows_def grows_def has_tree_object_def has_commit_object_def)

theorem commands_keep_objects_witness:
  "\<exists>w u. run_cmd sample sample_tokens sample_env (CmdVault (VaultAddMember ''v'' ''n1'')) sample_world = (Ok (), w)
    \<and> om_get (wd_base w) ''v'' = Some u \<and> om_get (d_chunks u) sample_chunk = Some [1, 2, 3]"
proof -
  obtain w where run: "run_cmd sample sample_tokens sample_env (CmdVault (VaultAddMember ''v'' ''n1'')) sample_world = (Ok (), w)"
    using sample_cli_member by blast
  have v: "om_get (wd_base sample_world) ''v'' = Some sample_vault" by (simp add: sample_world_def)
  have "om_get (d_chunks sample_vault) sample_chunk = Some [1, 2, 3]" by (simp add: sample_vault_def)
  then show ?thesis using commands_keep_objects [OF run _ v] run by (auto simp del: run_cmd.simps)
qed

text \<open>
  C7: A fetch that succeeds leaves the target complete; \<open>HEAD\<close> is on it when that was asked for, and
  otherwise no head has moved; nothing that was there is lost. When the target was not complete before
  and there was no job of an earlier run for it, every commit that is reachable from the target
  loads, with its tree, and all chunks are stored.
\<close>

theorem fetched_head_is_complete:
  assumes "hex_law X" "wf_hash target" "fetch_dag_with X fetch now target set_hd v = (Ok res, w)"
  shows "is_complete X w target = Ok True \<and> sy_head_updated res = set_hd
    \<and> (if set_hd then head_of X w = Ok (Some target) else d_head w = d_head v \<and> d_heads w = d_heads v) \<and> fetched X v w
    \<and> (om_get (d_jobs v) target = None \<longrightarrow> is_complete X v target \<noteq> Ok True \<longrightarrow>
        (\<forall>h. reach X w {target} h \<longrightarrow> (\<exists>c t. load_commit X w h = Ok c \<and> load_tree X w (c_tree c) = Ok t
          \<and> (\<forall>ch\<in>set (all_chunk_hashes t). has_chunk w ch))))"
proof -
  have "\<exists>c t. load_commit X w h = Ok c \<and> load_tree X w (c_tree c) = Ok t \<and> (\<forall>ch\<in>set (all_chunk_hashes t). has_chunk w ch)"
    if "om_get (d_jobs v) target = None" "is_complete X v target \<noteq> Ok True" "reach X w {target} h" for h
    using fetch_dag_with_Ok(4) [OF assms that(2,3)] unfolding arrived_def no_job_claims [OF that(1)] by blast
  moreover have "d_head w = d_head v \<and> d_heads w = d_heads v" if "\<not> set_hd"
    using fetch_dag_with_keeps(2) [OF assms(3,1,2)] that by (simp add: keeps_loads_def)
  ultimately show ?thesis using fetch_dag_with_Ok(1-3) [OF assms] fetch_dag_with_keeps(1) [OF assms(3)] by auto
qed

theorem fetched_head_is_complete_witness:
  "\<exists>res w. fetch_dag_with sample sample_fetch 9 sample_head True sample_bare = (Ok res, w)
    \<and> head_of sample w = Ok (Some sample_head)"
proof -
  have "om_get (d_jobs sample_bare) sample_head = None" by (simp add: sample_bare_def sample_vault_def)
  from fetch_converges [OF sample_hex_law sample_head_wf sample_graph(2) this, of 9 True]
  obtain res w where run: "fetch_dag_with sample sample_fetch 9 sample_head True sample_bare = (Ok res, w)" by blast
  then show ?thesis using fetched_head_is_complete [OF sample_hex_law sample_head_wf run] by auto
qed

text \<open>
  C8: When the peers deliver the graph of the target, it is small enough for one job, what is here of it reads
  as it does there, and no old job is resumed, the fetch succeeds. Unless the target was complete
  before, the whole graph then reads as it does there and all of its chunks are stored.
\<close>

theorem replicas_converge:
  assumes "hex_law X" "wf_hash target" "graph_on_offer X u fetch target v" "om_get (d_jobs v) target = None"
  shows "\<exists>res w. fetch_dag_with X fetch now target set_hd v = (Ok res, w) \<and> is_complete X w target = Ok True
    \<and> (set_hd \<longrightarrow> head_of X w = Ok (Some target))
    \<and> (is_complete X v target \<noteq> Ok True \<longrightarrow> (\<forall>h. reach X u {target} h \<longrightarrow> replicated X u w h))"
proof -
  obtain res w where run: "fetch_dag_with X fetch now target set_hd v = (Ok res, w)"
    "is_complete X v target \<noteq> Ok True \<longrightarrow> (\<forall>h. reach X u {target} h \<longrightarrow> replicated X u w h)"
    using fetch_converges [OF assms, of now set_hd] by blast
  then show ?thesis using fetch_dag_with_Ok(1,3) [OF assms(1,2) run(1)] by blast
qed

theorem replicas_converge_witness:
  "\<exists>res w. fetch_dag_with sample sample_fetch 9 sample_head True sample_empty = (Ok res, w)
    \<and> load_commit sample w sample_head = Ok (commit_norm sample sample_commit)"
proof -
  have no: "om_get (d_jobs sample_empty) sample_head = None" "is_complete sample sample_empty sample_head \<noteq> Ok True"
    by (simp_all add: is_complete_def has_commit_object_def om_mem_def)
  show ?thesis
    using replicas_converge [OF sample_hex_law sample_head_wf sample_graph(1) no(1), of 9 True] no(2)
    by (auto simp: sample_reach replicated_def sample_load_commit)
qed

text \<open>
  C9: A fetch that fails, at any point, moves no head and loses nothing: every commit, tree and chunk that
  was there still reads as before.
\<close>

theorem failed_fetch_keeps_vault:
  assumes "hex_law X" "wf_hash target" "fetch_dag_with X fetch now target set_hd v = (r, w)" "\<not> is_ok r"
  shows "d_head w = d_head v \<and> d_heads w = d_heads v
    \<and> (\<forall>h c. load_commit X v h = Ok c \<longrightarrow> load_commit X w h = Ok c)
    \<and> (\<forall>h t. load_tree X v h = Ok t \<longrightarrow> load_tree X w h = Ok t)
    \<and> (\<forall>ch d. om_get (d_chunks v) ch = Some d \<longrightarrow> om_get (d_chunks w) ch = Some d)"
  using fetch_dag_with_keeps(2) [OF assms(3,1,2)] assms(4) by (auto simp: keeps_loads_def grows_def)

theorem failed_fetch_keeps_vault_witness:
  "\<exists>e w. fetch_dag_with sample (\<lambda>_. Err Serde) 9 sample_head True sample_empty = (Err e, w) \<and> d_head w = None"
proof -
  obtain e w where run: "fetch_dag_with sample (\<lambda>_. Err Serde) 9 sample_head True sample_empty = (Err e, w)"
    using sample_failed by blast
  then show ?thesis using failed_fetch_keeps_vault [OF sample_hex_law sample_head_wf run] by simp
qed

text \<open>
  C10: A successful merge makes a commit whose parents are the merged commit and the old \<open>HEAD\<close>, whose tree
  is the conflict-preserving merge of the two trees, and which is then the only head.
\<close>

theorem merge_commits_both:
  assumes "hash_law X" "hex_law X" "merge_head X now rh label v = (Ok (h, n), w)"
    and "load_commit X v rh = Ok rc" "load_tree X v (c_tree rc) = Ok rt" "head_tree X v = Ok lt"
    and "wf_hash rh" "utf8_str (merge_message label n)" "wf_tree (fst (merge_with_conflicts rt label lt))"
    and "small_objects w"
  shows "\<exists>c cur. head_of X v = Ok cur \<and> head_of X w = Ok (Some h) \<and> list_heads X w = Ok [h]
    \<and> load_commit X w h = Ok c \<and> set (c_parents c) = insert rh (set_option cur)
    \<and> load_tree X w (c_tree c) = Ok (fst (merge_with_conflicts rt label lt))
    \<and> n = snd (merge_with_conflicts rt label lt)"
  using assms by (rule merge_head_Ok)

theorem merge_commits_both_witness:
  "\<exists>h w c. merge_head sample 10 sample_head ''peer'' sample_vault = (Ok (h, 0), w) \<and> load_commit sample w h = Ok c
    \<and> set (c_parents c) = {sample_head}"
proof -
  obtain h w where run: "merge_head sample 10 sample_head ''peer'' sample_vault = (Ok (h, 0), w)" "small_objects w"
    using sample_merged by blast
  have msg: "utf8_str (merge_message ''peer'' 0)" by code_simp
  have t: "load_tree sample sample_vault (c_tree (commit_norm sample sample_commit)) = Ok sample_tree"
    "wf_tree (fst (merge_with_conflicts sample_tree ''peer'' sample_tree))"
    by (simp_all add: sample_load_tree sample_self_merge sample_tree_wf)
  show ?thesis
    using run(1) merge_commits_both [OF sample_hash_law sample_hex_law run(1) sample_load_commit t(1) sample_head_tree
        sample_head_wf msg t(2) run(2)]
    by (auto simp: sample_head_of)
qed

text \<open>
  C11: Merging keeps every entry of ours in its place and every entry of theirs at its path or, where the two
  differ, at its conflict copy; the count is the number of paths on which they differ; and each
  entry of the result comes from one of the two. The one condition is that no path of either tree
  is itself the conflict copy of a path of theirs.
\<close>

theorem merge_loses_nothing:
  assumes "wf_tree ours" "wf_tree theirs" "merge_with_conflicts theirs label ours = (m, n)"
    and "(\<lambda>p. conflict_path_name p (sanitize_conflict_label label)) ` fst ` set (entries theirs)
      \<inter> (fst ` set (entries ours) \<union> fst ` set (entries theirs)) = {}"
  shows "(\<forall>p e. om_get (entries ours) p = Some e \<longrightarrow> om_get (entries m) p = Some e)
    \<and> (\<forall>p e. om_get (entries theirs) p = Some e \<longrightarrow> om_get (entries m) p = Some e
        \<or> om_get (entries m) (conflict_path_name p (sanitize_conflict_label label)) = Some e)
    \<and> n = length (filter (\<lambda>(p, e). om_get (entries ours) p \<noteq> None \<and> om_get (entries ours) p \<noteq> Some e) (entries theirs))
    \<and> (\<forall>q e. om_get (entries m) q = Some e \<longrightarrow> e \<in> snd ` (set (entries ours) \<union> set (entries theirs)))"
  using merge_conflicts_exact [OF assms] by blast

theorem merge_loses_nothing_witness:
  "om_get (entries (fst (merge_with_conflicts sample_other ''peer'' sample_tree))) ''a'' = Some (File 3 [sample_chunk])
    \<and> snd (merge_with_conflicts sample_other ''peer'' sample_tree) = 1"
proof -
  have "(\<lambda>p. conflict_path_name p (sanitize_conflict_label ''peer'')) ` fst ` set (entries sample_other)
      \<inter> (fst ` set (entries sample_tree) \<union> fst ` set (entries sample_other)) = {}"
    by code_simp
  note m = merge_loses_nothing [OF sample_tree_wf sample_other_wf sample_merge this]
  have "om_get (entries sample_tree) ''a'' = Some (File 3 [sample_chunk])" by (simp add: sample_tree_def)
  then show ?thesis unfolding sample_merge fst_conv snd_conv using m by blast
qed

text \<open>
  C12: Ingesting a commit from a peer leaves it complete and listed among the heads; when there was no
  \<open>HEAD\<close> it is \<open>HEAD\<close> afterwards, and otherwise \<open>HEAD\<close> stays as it was.
\<close>

theorem ingest_completes:
  assumes "hex_law X" "wf_hash h" "ingest_commit_from_peer X fetch peer h v = (Ok b, w)"
  shows "is_complete X w h = Ok True \<and> (b \<longleftrightarrow> head_of X v = Ok None) \<and> (b \<longrightarrow> head_of X w = Ok (Some h))
    \<and> (\<not> b \<longrightarrow> d_head w = d_head v) \<and> (\<exists>hs. list_heads X w = Ok hs \<and> h \<in> set hs)"
  using ingest_Ok [OF assms] by blast

theorem ingest_completes_witness:
  "\<exists>w. ingest_commit_from_peer sample sample_full ''peer'' sample_head sample_empty = (Ok True, w)
    \<and> is_complete sample w sample_head = Ok True \<and> head_of sample w = Ok (Some sample_head)"
  using sample_ingested ingest_completes [OF sample_hex_law sample_head_wf] by blast



text \<open>
  C14: An announcement is accepted for a vault exactly when its signature verifies, its time is within the
  allowed skew of 300 seconds, it names this vault, its node is a member and its sequence number is
  new. Accepting records the number and nothing else; rejecting changes nothing.
\<close>

theorem announcement_accepted_iff:
  "(fst (validate_announcement X now a (Some v) n) = Ok () \<longleftrightarrow>
      verify_head_announcement X a = Ok ()
      \<and> unat now \<le> unat (ha_timestamp a) + 300 \<and> unat (ha_timestamp a) \<le> unat now + 300
      \<and> vault_id_bytes X v = Ok (ha_vault_id a) \<and> is_member v (node_id_hex X a)
      \<and> load_last_recv_seq n (vault_id_hex X a) (node_id_hex X a) < ha_seq a)
    \<and> snd (validate_announcement X now a (Some v) n) =
        (if fst (validate_announcement X now a (Some v) n) = Ok ()
         then snd (store_last_recv_seq (vault_id_hex X a) (node_id_hex X a) (ha_seq a) n) else n)"
  by (rule validate_outcome)

text \<open>
  C15: A commit that a vault with a node key makes names this key as its author and carries its signature over
  the signed body; it verifies. A peer that decodes its wire bytes gets a commit with the tree,
  parents, message and time it was made with, signed by the same key, and it verifies there.
\<close>

theorem signed_commit_travels:
  assumes "hash_law X" "hex_law X" "sign_law X" "v_home v = Some home" "load_secret_key X home = Ok sk"
    and "make_commit X now tr ps msg v = Ok c" "wf_hash tr" "list_all wf_hash ps" "utf8_str msg"
    and "encode_commit_wire X c = Ok b" "length b < 2 ^ 63"
  shows "\<exists>d m. decode_commit_wire X b = Ok d \<and> c_tree d = tr \<and> c_parents d = ps \<and> c_message d = msg \<and> c_timestamp d = now
    \<and> commit_sign_message X c = Ok m \<and> commit_sign_message X d = Ok m
    \<and> (\<forall>e\<in>{c, d}. verify_commit_signature X e = Ok () \<and> author_to_bytes X (c_author e) = x_public X sk
        \<and> signature_bytes X e = x_sign X sk m)"
proof -
  have s: "signed_by X sk c" by (rule make_commit_signed [OF assms(3,2,4-6)])
  then obtain m where m: "commit_sign_message X c = Ok m" "signature_bytes X c = x_sign X sk m" by (auto simp: signed_by_def)
  note n = signed_by_norm [OF assms(1,2), of sk c] verify_commit_norm [OF assms(1,2), of c]
    signature_bytes_norm [OF assms(2), of c] commit_sign_message_norm [OF assms(1,2), of c]
  have "decode_commit_wire X b = Ok (commit_norm X c)"
    using make_commit_Ok [OF assms(6)] assms by (intro decode_encode_commit_wire) (auto simp: wf_commit_def)
  then show ?thesis
    using s m n make_commit_Ok [OF assms(6)] make_commit_verifies [OF assms(3,2,6)]
    by (intro exI [of _ "commit_norm X c"] exI [of _ m]) (auto simp: signed_by_def)
qed

theorem signed_commit_travels_witness:
  "\<exists>c b d. make_commit sample 9 sample_head [] ''m'' sample_owned = Ok c \<and> encode_commit_wire sample c = Ok b
    \<and> decode_commit_wire sample b = Ok d \<and> verify_commit_signature sample d = Ok ()
    \<and> signature_bytes sample d = signature_bytes sample c"
proof -
  obtain c b where c: "make_commit sample 9 sample_head [] ''m'' sample_owned = Ok c" "encode_commit_wire sample c = Ok b"
    "length b < 2 ^ 63"
    using sample_signed_commit by blast
  have m: "utf8_str ''m''" by (simp add: utf8_str_def utf8_ok_ascii)
  have home: "v_home sample_owned = Some (Good (hex_enc sample_key))" by (simp add: sample_owned_def)
  have "list_all wf_hash []" by simp
  then show ?thesis
    using signed_commit_travels [OF sample_hash_law sample_hex_law sample_sign_law home sample_secret c(1) sample_head_wf _ m c(2,3)] c(1,2)
    by (metis insertCI)
qed

text \<open>
  C16: The message a commit signature covers determines the commit up to the signature: two well-formed
  commits with the same message have the same tree, parents, author bytes, timestamp, message and
  version.
\<close>

theorem signature_covers_commit:
  assumes "hash_law X" "hex_law X" "wf_commit c" "wf_commit d"
    and "commit_sign_message X c = Ok m" "commit_sign_message X d = Ok m" "length m < 2 ^ 62"
  shows "c_tree c = c_tree d \<and> c_parents c = c_parents d \<and> c_timestamp c = c_timestamp d
    \<and> c_message c = c_message d \<and> author_to_bytes X (c_author c) = author_to_bytes X (c_author d)
    \<and> wire_version c = wire_version d"
  using assms by (rule commit_sign_message_fields)

theorem signature_covers_commit_witness:
  "author_to_bytes sample (c_author sample_commit) = author_to_bytes sample (c_author (commit_norm sample sample_commit))"
proof -
  obtain m where m: "commit_sign_message sample sample_commit = Ok m" "length m < 2 ^ 62"
    using sample_lengths(3) by blast
  have n: "wf_commit (commit_norm sample sample_commit)" "commit_sign_message sample (commit_norm sample sample_commit) = Ok m"
    using sample_commit_wf m(1) commit_sign_message_norm [OF sample_hash_law sample_hex_law]
    by (simp_all add: wf_commit_def)
  show ?thesis using signature_covers_commit [OF sample_hash_law sample_hex_law sample_commit_wf n(1) m(1) n(2) m(2)] by blast
qed

text \<open>
  C17: An announcement that a node signs decodes from its wire bytes to itself and verifies there; and no other
  announcement has these bytes.
\<close>

theorem announcement_travels:
  assumes "sign_law X" "length sk = 32" "length vid = VAULT_ID_LEN" "wf_hash h" "utf8_str name"
    and "sign_head_announcement X now sk vid name h sq cs = Ok a" "ha_signature a \<noteq> zero_sig"
    and "encode_head_announcement a = Ok b"
  shows "decode_head_announcement b = Ok a \<and> verify_head_announcement X a = Ok ()
    \<and> (\<forall>d. wf_ann d \<longrightarrow> encode_head_announcement d = Ok b \<longrightarrow> d = a)"
proof -
  have a: "wf_ann a" using assms by (intro sign_head_wf)
  show ?thesis
    using decode_encode_head_announcement [OF a assms(8)] decode_encode_head_announcement [where b = b]
      sign_verify_head [OF assms(1,2,6,7)] by auto
qed

theorem announcement_travels_witness:
  "\<exists>a b. sign_head_announcement sample 9 sample_key sample_vid ''v'' sample_head 1 1 = Ok a
    \<and> decode_head_announcement b = Ok a \<and> verify_head_announcement sample a = Ok ()"
proof -
  obtain a b where a: "sign_head_announcement sample 9 sample_key sample_vid ''v'' sample_head 1 1 = Ok a"
    "encode_head_announcement a = Ok b" "ha_signature a \<noteq> zero_sig"
    using sample_announced by blast
  show ?thesis
    using announcement_travels [OF sample_sign_law sample_sk(1,2) sample_head_wf sample_sk(3) a(1,3,2)] a(1) by blast
qed

text \<open>
  C18: The message an announcement's signature covers determines its version, vault, head, time, node and both
  sequence numbers; only the display name of the vault is outside of it.
\<close>

theorem announcement_signature_binds:
  assumes "wf_ann a" "wf_ann b" "head_sign_message a = head_sign_message b"
  shows "ha_protocol_version a = ha_protocol_version b \<and> ha_vault_id a = ha_vault_id b \<and> ha_head a = ha_head b
    \<and> ha_timestamp a = ha_timestamp b \<and> ha_node_id a = ha_node_id b \<and> ha_seq a = ha_seq b
    \<and> ha_config_seq a = ha_config_seq b"
  using head_sign_message_binds [OF assms] by (simp add: signed_fields_def)

theorem announcement_signature_binds_witness:
  "\<exists>a. sign_head_announcement sample 9 sample_key sample_vid ''v'' sample_head 1 1 = Ok a
    \<and> ha_seq (a\<lparr>ha_vault_name := ''w''\<rparr>) = ha_seq a"
proof -
  obtain a where a: "sign_head_announcement sample 9 sample_key sample_vid ''v'' sample_head 1 1 = Ok a"
    using sample_announced by blast
  have w: "wf_ann a" by (rule sign_head_wf [OF sample_sign_law sample_sk(1,2) sample_head_wf sample_sk(3) a])
  then have "wf_ann (a\<lparr>ha_vault_name := ''w''\<rparr>)" by (simp add: wf_ann_def utf8_str_def utf8_ok_ascii)
  moreover have "head_sign_message (a\<lparr>ha_vault_name := ''w''\<rparr>) = head_sign_message a"
    by (simp add: head_sign_message_def encode_head_sign_body_def)
  ultimately show ?thesis using announcement_signature_binds [of "a\<lparr>ha_vault_name := ''w''\<rparr>" a] w a by blast
qed

text \<open>
  C19: After a passphrase was set, the vault opens with that passphrase and recovers the same key, is refused
  without one, and no plain key file is left.
\<close>

theorem passphrase_protects_key:
  assumes "aead_law X" "hex_law X" "length salt = 16" "length nonce = NONCE_LEN"
    and "v_key v = Some key" "length key = 32" "enable_passphrase X salt nonce pass v = (Ok (), w)"
  shows "(\<exists>u. open_with_passphrase X rid home name (Some w) (Some pass) = Ok u \<and> v_key u = Some key)
    \<and> open_vault X rid home name (Some w) = Err (Other ''vault key is passphrase-protected; provide passphrase'')
    \<and> d_key w = None"
  using open_after_passphrase [OF assms] enable_passphrase_Ok [OF assms(7)] by blast

theorem passphrase_protects_key_witness:
  "\<exists>w u. enable_passphrase sample (replicate 16 3) (replicate 24 4) ''pw'' sample_sealed = (Ok (), w)
    \<and> open_with_passphrase sample [] NoFile ''v'' (Some w) (Some ''pw'') = Ok u \<and> v_key u = Some (replicate 32 7)"
proof -
  obtain w where run: "enable_passphrase sample (replicate 16 3) (replicate 24 4) ''pw'' sample_sealed = (Ok (), w)"
    using sample_wrapped by blast
  have n: "length (replicate 24 (4 :: byte)) = NONCE_LEN" by (simp add: NONCE_LEN_def)
  have "\<exists>u. open_with_passphrase sample [] NoFile ''v'' (Some w) (Some ''pw'') = Ok u \<and> v_key u = Some (replicate 32 7)"
    using passphrase_protects_key [OF sample_aead_law sample_hex_law _ n sample_sealed_key _ run, of "[]" NoFile "''v''"] by simp
  with run show ?thesis by blast
qed

text \<open>
  C20: A configuration change made on a node with an identity raises the sequence number (saturating), leaves a
  signature that verifies, and is on disk as it is in memory; members and vault id stay.
\<close>

theorem config_change_is_signed:
  assumes "sign_law X" "hex_law X" "pk_law X" "bump_and_sign_config X v = (Ok (), w)"
    and "v_home v = Some home" "load_secret_key X home = Ok sk"
  shows "verify_config_signature X w = Ok () \<and> vc_config_sig (v_config w) \<noteq> None
    \<and> vc_config_seq (v_config w) = sat_add (vc_config_seq (v_config v)) 1 \<and> d_config w = Good (v_config w)
    \<and> vc_members (v_config w) = vc_members (v_config v) \<and> vc_vault_id (v_config w) = vc_vault_id (v_config v)"
  using bump_and_sign_config_signed [OF assms] bump_and_sign_config_Ok [OF assms(4)] by simp

theorem config_change_is_signed_witness:
  "\<exists>w. bump_and_sign_config sample sample_owned = (Ok (), w) \<and> verify_config_signature sample w = Ok ()"
proof -
  obtain w where run: "bump_and_sign_config sample sample_owned = (Ok (), w)" using sample_bumped by blast
  have "v_home sample_owned = Some (Good (hex_enc sample_key))" by (simp add: sample_owned_def)
  then show ?thesis
    using run config_change_is_signed [OF sample_sign_law sample_hex_law sample_pk_law run _ sample_secret] by blast
qed

text \<open>
  C21: A node that joins from an invite before it expires gets a vault with the same id and the same key, in
  which the issuer, the node itself and all earlier members are members; the other vaults of the
  base directory stay as they are.
\<close>

theorem invite_joins:
  assumes "aead_law X" "hex_law X" "sign_law X" "pk_law X" "token_law K"
    and "length nonce = NONCE_LEN" "length secret = 32" "length sk = 32"
    and "\<And>k. v_key v = Some k \<Longrightarrow> length k = 32"
    and "vault_id_bytes X v = Ok vid" "vc_config_seq (v_config v) \<noteq> 0"
    and "generate_invite X K t0 secret nonce v sk role ttl = Ok iv" "to_token K iv = Ok token"
    and "now \<le> iv_expires_at iv" "om_get base name = None"
  shows "\<exists>u base'. join_invite X K now rid dh home token (Some name) base = (Ok u, base')
    \<and> vault_id_bytes X u = Ok vid \<and> v_key u = (if vc_encryption_enabled (v_config v) then v_key v else None)
    \<and> v_name u = name \<and> is_member u (x_pk_display X (x_public X sk))
    \<and> (\<forall>me. local_author_sync X home = Ok me \<longrightarrow> is_member u me)
    \<and> (\<forall>m\<in>set (vc_members (v_config v)). is_member u m) \<and> (\<forall>m. m \<noteq> name \<longrightarrow> om_get base' m = om_get base m)"
  using assms by (rule join_restores_vault)

theorem invite_joins_witness:
  "\<exists>iv token u base. to_token sample_tokens iv = Ok token
    \<and> join_invite sample sample_tokens 6 [] NoFile (Good (hex_enc (replicate 32 9))) token (Some ''w'') [] = (Ok u, base)
    \<and> v_key u = Some (replicate 32 7)"
proof -
  obtain iv token where iv: "generate_invite sample sample_tokens 5 (replicate 32 2) (replicate 24 4) sample_sealed sample_key WriteRole None = Ok iv"
    "to_token sample_tokens iv = Ok token" "6 \<le> iv_expires_at iv"
    using sample_invited by blast
  have l: "length (replicate 24 (4 :: byte)) = NONCE_LEN" "length (replicate 32 (2 :: byte)) = 32"
    "\<And>k. v_key sample_sealed = Some k \<Longrightarrow> length k = 32" "om_get [] ''w'' = (None :: vault option)"
    by (auto simp: NONCE_LEN_def sample_sealed_key)
  have e: "vc_encryption_enabled (v_config sample_sealed)" by code_simp
  show ?thesis
    using iv(2) invite_joins [OF sample_aead_law sample_hex_law sample_sign_law sample_pk_law sample_token_law l(1,2)
        sample_sk(1) l(3) sample_sealed_id iv l(4), of "[]" NoFile "Good (hex_enc (replicate 32 9))"] e
    by (auto simp: sample_sealed_key)
qed

text \<open>
  C22: The chunk store refines a map from hashes to bytes: storing bytes under their hash is the update of the
  map, it reports whether they were new, reading is the lookup, and the store stays content
  addressed; bytes under another hash are refused.
\<close>

theorem store_refines_map:
  assumes "addressed X s" "put X h d s = Ok (b, t)"
  shows "addressed X t \<and> h = hash_of X d \<and> om_get t = (om_get s)(h \<mapsto> d) \<and> (b \<longleftrightarrow> om_get s h = None)
    \<and> (\<forall>k. store_get X t k = (case om_get t k of Some e \<Rightarrow> Ok e | None \<Rightarrow> Err (ChunkNotFound (to_hex X k))))"
  using cs.put_ok [OF assms] put_refines [OF assms] store_get_addressed [OF cs.put_ok [OF assms]] by blast

theorem store_refines_map_witness:
  "put sample sample_chunk [1, 2, 3] [] = (Ok (True, [(sample_chunk, [1, 2, 3])]))
    \<and> store_get sample [(sample_chunk, [1, 2, 3])] sample_chunk = Ok [1, 2, 3]"
proof -
  have run: "put sample sample_chunk [1, 2, 3] [] = Ok (True, [(sample_chunk, [1, 2, 3])])"
    by (simp add: put_def put_verified_def sample_chunk_def)
  show ?thesis using run store_refines_map [OF addressed_Nil run] by simp
qed

text \<open>
  C23: Decoding the wire bytes of a well-formed tree gives the tree back; hence two trees with the same wire
  bytes, which is what a tree's content id is taken of, are equal.
\<close>

theorem tree_wire_roundtrip:
  assumes "wf_tree t" "encode_tree_wire t = Ok b" "length b < 2 ^ 63"
  shows "decode_tree_wire b = Ok t \<and> (\<forall>u. wf_tree u \<longrightarrow> encode_tree_wire u = Ok b \<longrightarrow> u = t)"
  using tw.dec_enc [OF assms] tw.enc_unique [OF _ assms(1) _ assms(2,3)] by blast

theorem tree_wire_roundtrip_witness:
  "decode_tree_wire sample_tree_wire = Ok sample_tree"
  using tree_wire_roundtrip [OF sample_tree_wf sample_encodes(1)] sample_lengths by simp

text \<open>
  C24: Whatever the bytes, a tree that the decoder accepts is well-formed: its paths are valid UTF-8 paths in
  strictly increasing order, its hashes have 32 bytes, and it has at most \<open>MAX_TREE_ENTRIES\<close> entries.
\<close>

theorem decoded_tree_is_valid:
  assumes "decode_tree_wire b = Ok t"
  shows "wf_tree t \<and> length (entries t) \<le> MAX_TREE_ENTRIES"
  using assms by (rule decode_tree_wire_wf)

theorem decoded_tree_is_valid_witness:
  "wf_tree sample_tree"
proof -
  have "decode_tree_wire sample_tree_wire = Ok sample_tree"
    using sample_lengths by (intro decode_encode_tree_wire [OF sample_tree_wf sample_encodes(1)]) simp
  then show ?thesis using decoded_tree_is_valid by blast
qed

text \<open>
  C25: Decoding the wire bytes of a well-formed commit gives its normal form, in which the author and the
  signature are printed from the bytes they encode to and version 0 is 1; and the normal form has
  the same wire bytes, hence the same content id.
\<close>

theorem commit_wire_roundtrip:
  assumes "hash_law X" "hex_law X" "wf_commit c" "encode_commit_wire X c = Ok b" "length b < 2 ^ 63"
  shows "decode_commit_wire X b = Ok (commit_norm X c) \<and> encode_commit_wire X (commit_norm X c) = Ok b
    \<and> commit_cid X (commit_norm X c) = commit_cid X c"
  using decode_encode_commit_wire [OF assms(1,3,4,5)] encode_commit_wire_norm [OF assms(1,2), of c] assms(4)
  by (simp add: commit_cid_def)

theorem commit_wire_roundtrip_witness:
  "decode_commit_wire sample sample_commit_wire = Ok (commit_norm sample sample_commit)"
  using commit_wire_roundtrip [OF sample_hash_law sample_hex_law sample_commit_wf sample_encodes(2)] sample_lengths by simp

text \<open>
  C26: A path that \<open>safe_join\<close> accepts lies below the target directory: its components are those of the target
  and then the segments of a valid name, none of them \<open>..\<close>; and when target and path exist, the
  resolved path is inside the resolved target, symbolic links followed.
\<close>

theorem restore_path_stays_inside:
  assumes "safe_join F target l = Ok j"
  shows "(\<exists>n. normalize_and_validate l = Ok n \<and> j = path_join target n
      \<and> path_components j = path_components target @ map Normal (split_on slash n))
    \<and> ParentDir \<notin> set (path_components j)
    \<and> (fs_exists F (path_components target) \<longrightarrow> fs_exists F (path_components j) \<longrightarrow>
        (\<exists>base full. fs_canon F (path_components target) = Ok base \<and> fs_canon F (path_components j) = Ok full
          \<and> prefix base full))"
  using safe_join_inside [OF assms] by blast

theorem restore_path_stays_inside_witness:
  "ParentDir \<notin> set (path_components ''out/a'')"
  using restore_path_stays_inside [OF sample_join] by blast

text \<open>
  C27: A logical path is accepted exactly when it has no NUL, backslash or drive prefix and every segment
  between slashes is neither empty nor a dot nor two dots; the check never panics.
\<close>

theorem path_validation_exact:
  "(validate_path p = Ok () \<longleftrightarrow> CHR 0x00 \<notin> set p \<and> backslash \<notin> set p
      \<and> \<not> (2 \<le> length p \<and> p ! 1 = CHR '':'' \<and> is_alpha (p ! 0))
      \<and> list_all (\<lambda>s. s \<noteq> [] \<and> s \<noteq> ''.'' \<and> s \<noteq> ''..'') (split_on slash p))
    \<and> validate_path p \<noteq> Panic"
  using validate_path_not_Panic [of p] legal_segment_def [abs_def]
  by (auto simp: validate_path_iff valid_path_def drive_prefix_def)

text \<open>
  C28: After a garbage collection everything that is left is live: each stored chunk is listed by the tree of
  a live commit, and each stored commit or tree is a live commit or the tree of one.
\<close>

theorem collection_drops_dead:
  assumes "gc_all X v = (Ok n, w)"
  shows "(om_mem (d_chunks w) ch \<longrightarrow> live_chunk X v {h. live_commit X v h} ch)
    \<and> (has_commit_object w k \<or> has_tree_object w k \<longrightarrow> live_object X v {h. live_commit X v h} k)"
  using gc_drops_dead [OF assms] by blast

theorem collection_drops_dead_witness:
  "\<exists>n w. gc_all sample sample_vault = (Ok n, w)
    \<and> (om_mem (d_chunks w) sample_chunk \<longrightarrow> live_chunk sample sample_vault {h. live_commit sample sample_vault h} sample_chunk)"
proof -
  obtain n w where run: "gc_all sample sample_vault = (Ok n, w)" using sample_gc by blast
  show ?thesis using run collection_drops_dead [OF run, of sample_chunk sample_head] by blast
qed

text \<open>
  C29: A maintenance tick may take a snapshot, prune the registry and collect garbage; the head it leaves
  restores exactly what the head before it restored, whatever the file system answers.
\<close>

theorem tick_keeps_content:
  assumes "hash_law X" "hex_law X" "run_tick X now p v = (Ok t, w)"
    and "head_of X v = Ok (Some h0)" "load_commit X v h0 = Ok c" "wf_hash (c_tree c)"
    and "\<And>h u. snapshot X now (''scheduled auto @'' @ chrono_like_stamp now) v = (Ok h, u) \<Longrightarrow> small_objects u"
  shows "\<exists>hd'. head_of X w = Ok (Some hd') \<and> (\<forall>F target. restore X F w hd' target = restore X F v h0 target)"
  using assms by (rule run_tick_restore)

theorem tick_keeps_content_witness:
  "\<exists>t w h. run_tick sample 20 policy_default sample_vault = (Ok t, w) \<and> head_of sample w = Ok (Some h)
    \<and> restore sample (\<lambda>_. sample_fs) w h ''out'' = restore sample (\<lambda>_. sample_fs) sample_vault sample_head ''out''"
proof -
  obtain t w where run: "run_tick sample 20 policy_default sample_vault = (Ok t, w)" using sample_tick by blast
  have "wf_hash (c_tree (commit_norm sample sample_commit))" by (simp add: sample_tree_hash sample_hash_law)
  then have "\<exists>h. head_of sample w = Ok (Some h) \<and> (\<forall>F t. restore sample F w h t = restore sample F sample_vault sample_head t)"
    by (rule tick_keeps_content [OF sample_hash_law sample_hex_law run sample_head_of sample_load_commit])
      (rule sample_snapshot_small)
  with run show ?thesis by blast
qed

text \<open>
  C30: When the monotonic clock does not go back, every sleep in the loop lasts at least as long as asked and
  the poll interval is not zero, the scheduler returns: \<open>duration div poll + 1\<close> rounds of fuel are
  enough, and no more ticks than that are made.
\<close>

theorem scheduler_ends:
  assumes "fst (clock 0) \<le> fst (clock 1)" "\<forall>i\<ge>1. fst (clock i) + poll \<le> fst (clock (Suc i))" "0 < poll"
  shows "\<exists>r w. run_for X clock duration poll (Suc (duration div poll)) v = (r, w) \<and> r \<noteq> Ok None
    \<and> (\<forall>ts. r = Ok (Some ts) \<longrightarrow> length ts \<le> Suc (duration div poll))"
proof -
  have "sleeps clock poll" using assms by (simp add: sleeps_def)
  from run_for_ends [OF this assms(3), of duration X v] show ?thesis
    by (cases "run_for X clock duration poll (Suc (duration div poll)) v") auto
qed

theorem scheduler_ends_witness:
  "\<exists>r w. run_for sample (\<lambda>i. ((i - 1) * 10, word_of_nat i)) 35 10 4 sample_vault = (r, w) \<and> r \<noteq> Ok None"
proof -
  have "\<forall>i::nat. 1 \<le> i \<longrightarrow> fst ((i - 1) * 10, word_of_nat i :: u64) + 10 \<le> fst ((Suc i - 1) * 10, word_of_nat (Suc i) :: u64)"
    by auto
  then show ?thesis
    using scheduler_ends [of "\<lambda>i. ((i - 1) * 10, word_of_nat i)" 10 sample 35 sample_vault] by auto
qed

text \<open>
  C31: What the deterministic encryption of a chunk gives, decryption under the same key gives back; it is forty
  bytes longer; and no other plaintext has this ciphertext.
\<close>

theorem encrypted_chunk_roundtrip:
  assumes "aead_law X" "hash_law X" "encrypt_deterministic X plain key = Ok c"
  shows "decrypt_chunk X c key = Ok plain \<and> length c = length plain + 40
    \<and> (\<forall>other. encrypt_deterministic X other key = Ok c \<longrightarrow> other = plain)"
  using decrypt_encrypt_deterministic [OF assms] length_encrypt_deterministic [OF assms]
    encrypt_deterministic_inj [OF assms(1,2) _ assms(3)] by blast

theorem encrypted_chunk_roundtrip_witness:
  "\<exists>c. encrypt_deterministic sample [1, 2, 3] (replicate 32 7) = Ok c \<and> decrypt_chunk sample c (replicate 32 7) = Ok [1, 2, 3]"
  using sample_encrypted encrypted_chunk_roundtrip [OF sample_aead_law sample_hash_law] by blast

text \<open>
  C32: Every 64-bit value of every major type is read back from its encoding, the rest of the input untouched,
  and no bytes that the reader accepts for it are shorter; those of the same length are the same.
\<close>

theorem integer_encoding_shortest:
  assumes "m < 8" "length (push_uint m v @ r) < 2 ^ 64"
  shows "read_uint (cursor_new (push_uint m v @ r)) = Ok ((m, v), cur (push_uint m v) r)
    \<and> length (push_uint m v) \<le> 9
    \<and> (\<forall>c c'. read_uint c = Ok ((m, v), c') \<longrightarrow> length (push_uint m v) \<le> length (consumed c c')
        \<and> (length (push_uint m v) = length (consumed c c') \<longrightarrow> consumed c c' = push_uint m v))"
proof -
  have "read_uint (cursor_new (push_uint m v @ r)) = Ok ((m, v), cur (push_uint m v) r)"
    using read_uint_cur [of m "[]" v r] assms by (simp add: cursor_new_cur)
  then show ?thesis using push_uint_max [of m v] read_uint_shortest unfolding shortest_for_def by blast
qed

theorem integer_encoding_shortest_witness:
  "read_uint (cursor_new (push_uint 0 300 @ [9])) = Ok ((0, 300), cur (push_uint 0 300) [9])"
proof -
  have "length (push_uint 0 300 @ [9]) < 100" by code_simp
  then have "length (push_uint 0 300 @ [9]) < 2 ^ 64" by simp
  then show ?thesis using integer_encoding_shortest [of 0 300 "[9]"] by simp
qed

text \<open>
  C33: Ranking gives the same peers, ordered by falling score and then by name, and every preferred peer comes
  before every other, whatever else counts for them.
\<close>

theorem peers_ranked:
  assumes "uint now < 2 ^ 63"
  shows "mset (map pr_peer (rank_peers X v pol peers ls al now)) = mset peers
    \<and> sorted (map (\<lambda>p. (- pr_score p, pr_peer p)) (rank_peers X v pol peers ls al now))
    \<and> (\<forall>i j. i < j \<longrightarrow> j < length (rank_peers X v pol peers ls al now) \<longrightarrow>
        pr_preferred (rank_peers X v pol peers ls al now ! j) \<longrightarrow> pr_preferred (rank_peers X v pol peers ls al now ! i))"
proof -
  let ?r = "rank_peers X v pol peers ls al now"
  have "pr_preferred (?r ! i)" if "i < j" "j < length ?r" "pr_preferred (?r ! j)" for i j
    using that by (rule rank_peers_preferred_first [OF assms])
  then show ?thesis using rank_peers_mset [of X v pol peers ls al now] rank_peers_sorted [of X v pol peers ls al now] by blast
qed

theorem peers_ranked_witness:
  "mset (map pr_peer (rank_peers sample sample_vault policy_default [''p'', ''q''] [] [] 100)) = {#''p'', ''q''#}"
  using peers_ranked [of 100 sample sample_vault policy_default "[''p'', ''q'']" "[]" "[]"] by simp

text \<open>
  C34: When one of the peers delivers the blob, fetching with failover succeeds, whatever the peers before it
  answer; what it returns has the requested hash and comes from the first peer that delivers.
\<close>

theorem failover_finds_blob:
  assumes "p \<in> set peers" "get_chunk_from_peer X T p h = Ok d" "\<forall>q\<in>set peers. get_chunk_from_peer X T q h \<noteq> Panic"
  shows "\<exists>q e before after. failover X T h e0 peers = Ok (q, e) \<and> hash_of X e = h \<and> peers = before @ q # after
    \<and> (\<forall>r\<in>set before. \<exists>err. get_chunk_from_peer X T r h = Err err)"
  using failover_succeeds [OF assms] failover_Ok_iff [of X T h e0 peers] by blast

theorem failover_finds_blob_witness:
  "\<exists>q e. failover sample sample_transport sample_chunk (Other ''no peers'') [''dead'', ''peer''] = Ok (q, e)
    \<and> hash_of sample e = sample_chunk"
  using failover_finds_blob [of "''peer''" "[''dead'', ''peer'']" sample sample_transport sample_chunk "[1, 2, 3]"] sample_peers
  by fastforce

text \<open>
  C35: The next sequence number for a vault is one above the last, unless that is the last 64-bit number,
  after which comes 0; it is recorded on disk, and the numbers of other vaults stay.
\<close>

theorem announce_numbers_increase:
  assumes "next_announce_seq X fresh vx n = (Ok s, n')"
  shows "unat s = (if last_announced n vx = - 1 then 0 else unat (last_announced n vx) + 1)
    \<and> (\<forall>vy. last_announced n' vy = (if vy = vx then s else last_announced n vy))"
  using next_announce_Ok [OF assms] by (simp add: unat_next_seq)

theorem announce_numbers_increase_witness:
  "\<exists>n. next_announce_seq sample sample_key ''v'' sample_node = (Ok 1, n) \<and> last_announced n ''v'' = 1"
  using sample_announce_seq announce_numbers_increase [OF sample_announce_seq] by auto

text \<open>
  C36: The level of a report is the worst of its checks. It is critical exactly when the vault's \<open>HEAD\<close> is
  incomplete or a live chunk is not stored. It is fine exactly when there is a complete \<open>HEAD\<close> that is
  not stale, every live chunk is stored and has as many replicas as asked when more than one is, the
  configuration carries a signature and there is no second head. Live is what a collection of garbage
  would keep. Assessing changes neither data nor
  configuration.
\<close>

theorem health_level_exact:
  assumes "assess_vault X now v = (Ok h, w)"
  shows "vh_level h = foldr worst (map hc_level (vh_checks h)) Fine
    \<and> (vh_level h = Crit \<longleftrightarrow> (\<exists>k. head_of X w = Ok (Some k) \<and> is_complete X w k \<noteq> Ok True)
        \<or> (\<exists>ch. live_chunk X w {k. live_commit X w k} ch \<and> \<not> has_chunk w ch))
    \<and> (vh_level h = Fine \<longleftrightarrow> (\<exists>k. head_of X w = Ok (Some k) \<and> is_complete X w k = Ok True)
        \<and> (\<forall>ch. live_chunk X w {k. live_commit X w k} ch \<longrightarrow> has_chunk w ch
            \<and> (1 < vc_min_replicas (v_config w) \<longrightarrow> unat (vc_min_replicas (v_config w)) \<le> estimated_replicas X w ch))
        \<and> vc_config_sig (v_config w) \<noteq> None \<and> (\<exists>hs. list_heads X w = Ok hs \<and> length hs \<le> 1)
        \<and> head_stale X w (policy_or_default v) now = Ok False)
    \<and> side v w"
  using assess_vault_level [OF assms] by blast

theorem health_level_exact_witness:
  "\<exists>h w. assess_vault sample 20 sample_vault = (Ok h, w) \<and> vh_level h = foldr worst (map hc_level (vh_checks h)) Fine"
  using sample_assessed health_level_exact by blast

text \<open>
  C37: The difference of two commits lists exactly the paths that only the second has, that only the first has,
  and that both have with different entries, each list strictly sorted.
\<close>

theorem diff_is_exact:
  assumes "diff_commits X v a b = Ok d" "load_commit X v a = Ok ca" "load_commit X v b = Ok cb"
    "load_tree X v (c_tree ca) = Ok ta" "load_tree X v (c_tree cb) = Ok tb" "om_wf (entries ta)" "om_wf (entries tb)"
  shows "set (td_added d) = {p. om_get (entries ta) p = None \<and> om_get (entries tb) p \<noteq> None}
    \<and> set (td_removed d) = {p. om_get (entries ta) p \<noteq> None \<and> om_get (entries tb) p = None}
    \<and> set (td_changed d) = {p. om_get (entries ta) p \<noteq> None \<and> om_get (entries tb) p \<noteq> None
          \<and> om_get (entries ta) p \<noteq> om_get (entries tb) p}
    \<and> sorted_wrt (<) (td_added d) \<and> sorted_wrt (<) (td_removed d) \<and> sorted_wrt (<) (td_changed d)"
  using assms by (rule diff_commits_exact)

theorem diff_is_exact_witness:
  "\<exists>d. diff_commits sample sample_two sample_root sample_head = Ok d \<and> set (td_added d) = {''a''}"
proof -
  obtain d where d: "diff_commits sample sample_two sample_root sample_head = Ok d"
    by (simp add: diff_commits_def sample_two_loads split_beta)
  have t: "load_tree sample sample_two (c_tree (commit_norm sample sample_root_commit)) = Ok tree_new"
    "load_tree sample sample_two (c_tree (commit_norm sample sample_commit)) = Ok sample_tree"
    by (simp_all add: sample_two_loads)
  have "om_wf (entries tree_new)" "om_wf (entries sample_tree)"
    using wf_tree_new sample_tree_wf by (simp_all add: wf_tree_def wf_tree_rep_def valid_tree_def)
  from diff_is_exact [OF d sample_two_loads(1,3) t this] d
  show ?thesis by (auto simp: tree_new_def sample_tree_def)
qed

text \<open>
  C38: Flushing the pending paths adds to the vault, one after the other in their order, every one that is a
  file and neither hidden nor an editor's, and changes nothing but by these adds: \<open>vs\<close> are the states
  between them and \<open>rs\<close> their outcomes. Each added file is reported with its commit, each failed one
  with its error.
\<close>

theorem watch_flush_reports_all:
  assumes "flush_pending X now fs root pending b v = (Ok b', w)"
    and "files = filter (\<lambda>p. is_file fs p \<and> \<not> skipped p) pending"
  shows "\<exists>rs vs. length rs = length files \<and> vs ! 0 = v \<and> vs ! length files = w
    \<and> (\<forall>i<length files. add_relative X (now (files ! i)) fs root (files ! i) (vs ! i) = (rs ! i, vs ! Suc i) \<and> rs ! i \<noteq> Panic)
    \<and> wb_commits b' = wb_commits b @ added_files files rs \<and> wb_errors b' = wb_errors b @ failed_files files rs"
proof -
  have files: "files = filter (due fs) pending" using assms(2) by (simp add: due_def [abs_def])
  show ?thesis using flush_pending_Ok [OF assms(1)] unfolding files adds_run_def by blast
qed

theorem watch_flush_reports_all_witness:
  "\<exists>r. add_relative sample 9 sample_files [Normal ''root''] [Normal ''root'', Normal ''a''] sample_empty = (r, sample_vault)
    \<and> added_files [[Normal ''root'', Normal ''a'']] [r] = [([Normal ''root'', Normal ''a''], sample_head)]"
proof -
  have "[[Normal ''root'', Normal ''a'']] = filter (\<lambda>p. is_file sample_files p \<and> \<not> skipped p)
      [[Normal ''root'', Normal ''a''], [Normal ''root'', Normal ''b'']]"
    by code_simp
  from watch_flush_reports_all [OF sample_flushed this] obtain rs vs where
    "length rs = 1" "vs ! 0 = sample_empty" "vs ! 1 = sample_vault"
    "add_relative sample 9 sample_files [Normal ''root''] [Normal ''root'', Normal ''a''] (vs ! 0) = (rs ! 0, vs ! 1)"
    "added_files [[Normal ''root'', Normal ''a'']] rs = [([Normal ''root'', Normal ''a''], sample_head)]"
    by auto
  moreover from \<open>length rs = 1\<close> obtain r where "rs = [r]" by (auto simp: length_Suc_conv)
  ultimately show ?thesis by auto
qed

text \<open>
  C39: Pruning the snapshot registry drops exactly the oldest entries beyond the limit, so that at most the
  limit is left; a limit of zero keeps all; and no other file of the vault changes.
\<close>

theorem retention_keeps_newest:
  assumes "prune_snapshot_registry n v = (Ok k, w)" "load_snapshots v = Ok log"
  shows "load_snapshots w = Ok (drop k log) \<and> k = (if n = 0 then 0 else length log - unat n)
    \<and> (n = 0 \<or> length (drop k log) \<le> unat n) \<and> w = v\<lparr>d_snapshots := d_snapshots w\<rparr>"
  using prune_Ok [OF assms] by auto

theorem retention_keeps_newest_witness:
  "\<exists>w. prune_snapshot_registry 1 (sample_empty\<lparr>d_snapshots := Good sample_log\<rparr>) = (Ok 1, w)
    \<and> load_snapshots w = Ok (drop 1 sample_log)"
proof -
  have "load_snapshots (sample_empty\<lparr>d_snapshots := Good sample_log\<rparr>) = Ok sample_log"
    by (simp add: load_snapshots_def json_or_def)
  then show ?thesis using sample_log_pruned retention_keeps_newest [OF sample_log_pruned] by blast
qed

text \<open>
  C40: When the last automatic snapshot is not in the future, the number of seconds until the next one is exact:
  after that many the snapshot is due, and at no earlier time; the clock is a 64-bit one that does
  not wrap meanwhile. With a clock set back behind the last snapshot the number is too small.
\<close>

theorem auto_snapshot_when_due:
  assumes "secs_until_snapshot p st now = Some k" "ps_last_auto_snapshot_at st \<le> now" "unat now + unat k < 2 ^ 64"
  shows "snapshot_due p st (now + k) \<and> (\<forall>j. j < k \<longrightarrow> \<not> snapshot_due p st (now + j))"
  using secs_until_due [OF assms] by blast

theorem auto_snapshot_when_due_witness:
  "snapshot_due sample_policy sample_pstate (110 + 50)"
proof -
  have "secs_until_snapshot sample_policy sample_pstate 110 = Some 50" "ps_last_auto_snapshot_at sample_pstate \<le> 110"
    by code_simp+
  then show ?thesis using auto_snapshot_when_due [of sample_policy sample_pstate 110 50] by simp
qed

end
